(* ===== verification/Vng_Prelude.thy ===== *)
theory Vng_Prelude
  imports Main "HOL-Library.AList" "HOL-Library.Char_ord" "HOL-Library.List_Lexorder"
begin

text \<open>
  Shared vocabulary of the development.

  \<^item> Rust's \<^verbatim>\<open>Result<T, E>\<close> is the sum \<open>'e + 'a\<close>, with \<open>Err\<close> for the left and \<open>Ok\<close> for the
    right injection.
  \<^item> A panic (\<^verbatim>\<open>unwrap\<close> on \<^verbatim>\<open>None\<close>, a failed \<^verbatim>\<open>assert!\<close>, an index out of range) is the value
    \<open>None\<close> of an option result.
  \<^item> \<^verbatim>\<open>u64\<close>, \<^verbatim>\<open>u128\<close> and \<^verbatim>\<open>usize\<close> values that the code only compares, increments and reduces by
    \<^verbatim>\<open>saturating_sub\<close> are \<^typ>\<open>nat\<close>: truncated subtraction on \<^typ>\<open>nat\<close> is \<^verbatim>\<open>saturating_sub\<close>, and
    the increments start at small values and would need \<open>2 ^ 64\<close> steps to overflow. Places where a
    value wraps in practice (hashes, atomic counters that are decremented) use words.
  \<^item> A \<^verbatim>\<open>str\<close> is a \<^typ>\<open>string\<close>: the list of its UTF-8 bytes. Rust compares strings bytewise, which
    is the lexicographic order that \<open>List_Lexorder\<close> and \<open>Char_ord\<close> put on \<^typ>\<open>string\<close>.
  \<^item> A \<^verbatim>\<open>HashMap\<close> the code only looks up and updates is a function \<open>'k \<rightharpoonup> 'v\<close>. One whose entries the
    code iterates over or counts is an association list with distinct keys; the list order stands
    for the unspecified iteration order, and the theorems hold for every such list.

  The locale \<open>invariant_system\<close> is the contract every stateful component meets: an invariant that
  holds at the start and survives each step holds in every reachable state.
\<close>

named_theorems store_laws \<open>laws of the storage operations on the abstraction of their state\<close>
named_theorems inv_laws \<open>preservation of the component invariants\<close>

type_synonym ('a, 'e) result = "'e + 'a"

abbreviation Ok :: "'a \<Rightarrow> ('a, 'e) result" where
  "Ok \<equiv> Inr"

abbreviation Err :: "'e \<Rightarrow> ('a, 'e) result" where
  "Err \<equiv> Inl"

section \<open>Updating the first element that satisfies a test\<close>

text \<open>
  \<^verbatim>\<open>iter_mut().find(p)\<close> followed by a mutation of the element found: \<open>None\<close> when there is none.
\<close>

fun update_first :: "('a \<Rightarrow> bool) \<Rightarrow> ('a \<Rightarrow> 'a) \<Rightarrow> 'a list \<Rightarrow> 'a list option" where
  "update_first P f [] = None"
| "update_first P f (x # xs) =
     (if P x then Some (f x # xs) else map_option (Cons x) (update_first P f xs))"

lemma update_first_None_iff [simp]: "update_first P f xs = None \<longleftrightarrow> (\<forall>x\<in>set xs. \<not> P x)"
  by (induction xs) auto

lemma update_first_SomeD: "update_first P f xs = Some ys \<Longrightarrow> \<exists>x\<in>set xs. P x"
  by (induction xs arbitrary: ys) (auto split: if_splits)

lemma update_first_length: "update_first P f xs = Some ys \<Longrightarrow> length ys = length xs"
  by (induction xs arbitrary: ys) (auto split: if_splits)

lemma update_first_map:
  assumes "update_first P f xs = Some ys" and "\<And>x. P x \<Longrightarrow> g (f x) = g x"
  shows "map g ys = map g xs"
  using assms(1)
  by (induction xs arbitrary: ys) (auto simp: assms(2) split: if_splits)

lemma update_first_append:
  "update_first P f (xs @ ys) =
     (case update_first P f xs of
        Some xs' \<Rightarrow> Some (xs' @ ys)
      | None \<Rightarrow> map_option ((@) xs) (update_first P f ys))"
proof (induction xs)
  case Nil
  show ?case by (cases "update_first P f ys") (simp_all del: update_first_None_iff)
next
  case (Cons x xs)
  then show ?case
    by (cases "update_first P f xs"; cases "update_first P f ys")
      (simp_all del: update_first_None_iff)
qed

lemma find_append:
  "find P (xs @ ys) = (case find P xs of Some x \<Rightarrow> Some x | None \<Rightarrow> find P ys)"
  by (induction xs) auto

lemma find_cong_None: "(\<forall>x\<in>set xs. \<not> P x) \<Longrightarrow> find P xs = None"
  by (simp add: find_None_iff)

lemma find_SomeD: "find P xs = Some x \<Longrightarrow> x \<in> set xs \<and> P x"
  by (auto simp: find_Some_iff)

lemma take_eq_mono: "take m xs = take m ys \<Longrightarrow> k \<le> m \<Longrightarrow> take k xs = take k ys"
  by (metis min.absorb1 take_take)

lemma fold_field: "(\<And>x s. g (f x s) = g s) \<Longrightarrow> g (fold f xs s) = g s"
  by (induction xs arbitrary: s) auto

text \<open>A loop whose body may panic.\<close>

fun fold_opt :: "('a \<Rightarrow> 's \<Rightarrow> 's option) \<Rightarrow> 'a list \<Rightarrow> 's \<Rightarrow> 's option" where
  "fold_opt f [] s = Some s"
| "fold_opt f (x # xs) s = (case f x s of Some t \<Rightarrow> fold_opt f xs t | None \<Rightarrow> None)"

lemma fold_opt_append:
  "fold_opt f (xs @ ys) s = (case fold_opt f xs s of Some t \<Rightarrow> fold_opt f ys t | None \<Rightarrow> None)"
  by (induction xs arbitrary: s) (auto split: option.splits)

lemma fold_opt_total:
  assumes "\<And>x s. I s \<Longrightarrow> \<exists>t. f x s = Some t \<and> I t" and "I s"
  shows "\<exists>t. fold_opt f xs s = Some t \<and> I t"
  using assms(2)
proof (induction xs arbitrary: s)
  case (Cons x xs)
  obtain t where "f x s = Some t" "I t" using assms(1) [OF Cons.prems] by blast
  with Cons.IH show ?case by simp
qed simp

lemma fold_opt_cong:
  "(\<And>x s. x \<in> set xs \<Longrightarrow> f x s = g x s) \<Longrightarrow> fold_opt f xs s = fold_opt g xs s"
  by (induction xs arbitrary: s) (auto split: option.splits)

lemma fold_opt_map: "fold_opt f (map h xs) s = fold_opt (\<lambda>x. f (h x)) xs s"
  by (induction xs arbitrary: s) (auto split: option.splits)

section \<open>Filters and association lists\<close>

text \<open>\<open>first_some\<close>: the first answer a loop with early return finds.\<close>

fun first_some :: "('a \<Rightarrow> 'b option) \<Rightarrow> 'a list \<Rightarrow> 'b option" where
  "first_some f [] = None"
| "first_some f (x # xs) = (case f x of Some y \<Rightarrow> Some y | None \<Rightarrow> first_some f xs)"

lemma first_some_None: "first_some f xs = None \<longleftrightarrow> (\<forall>x\<in>set xs. f x = None)"
  by (induction xs) (auto split: option.splits)

lemma first_some_Some: "first_some f xs = Some y \<Longrightarrow> \<exists>x\<in>set xs. f x = Some y"
  by (induction xs) (auto split: option.splits)

text \<open>\<open>rposition\<close>: the last index whose element satisfies the predicate.\<close>

fun rposition :: "('a \<Rightarrow> bool) \<Rightarrow> 'a list \<Rightarrow> nat option" where
  "rposition P [] = None"
| "rposition P (x # xs) =
     (case rposition P xs of Some i \<Rightarrow> Some (Suc i) | None \<Rightarrow> if P x then Some 0 else None)"

lemma rposition_None: "rposition P xs = None \<longleftrightarrow> (\<forall>x\<in>set xs. \<not> P x)"
  by (induction xs) (auto split: option.splits)

lemma rposition_Some: "rposition P xs = Some i \<Longrightarrow> i < length xs \<and> P (xs ! i)"
  by (induction xs arbitrary: i) (auto split: option.splits if_splits)

lemma rposition_append:
  "\<forall>x\<in>set xs. \<not> P x \<Longrightarrow> 
     rposition P (xs @ ys) = (case rposition P ys of Some i \<Rightarrow> Some (length xs + i) | None \<Rightarrow> None)"
  by (induction xs) (auto split: option.splits)

lemma rposition_split:
  "P x \<Longrightarrow> \<forall>y\<in>set ys. \<not> P y \<Longrightarrow> rposition P (xs @ x # ys) = Some (length xs)"
  by (induction xs) (auto simp: rposition_None split: option.splits)

lemma map_of_filter_key:
  "map_of (filter (\<lambda>(k, v). P k) xs) k = (if P k then map_of xs k else None)"
  by (induction xs) auto

lemma map_of_filter_distinct:
  assumes "distinct (map fst xs)"
  shows "map_of (filter (\<lambda>(k, v). P k v) xs) k =
     (case map_of xs k of Some v \<Rightarrow> if P k v then Some v else None | None \<Rightarrow> None)"
  using assms
proof (induction xs)
  case Nil
  then show ?case by simp
next
  case (Cons a xs)
  obtain k' v where a: "a = (k', v)" by (cases a)
  show ?case
  proof (cases "k = k'")
    case True
    with Cons.prems a have "map_of xs k = None"
      by (auto simp: map_of_eq_None_iff)
    with Cons a True show ?thesis by auto
  next
    case False
    with Cons a show ?thesis by auto
  qed
qed

lemma distinct_map_fst_filter: "distinct (map fst xs) \<Longrightarrow> distinct (map fst (filter P xs))"
  by (induction xs) auto

lemma distinct_fst_update: "distinct (map fst xs) \<Longrightarrow> distinct (map fst (AList.update k v xs))"
  by (rule distinct_update)

lemma map_of_update [simp]: "map_of (AList.update k v xs) = (map_of xs)(k \<mapsto> v)"
  by (rule update_conv')

lemma map_of_delete [simp]: "map_of (AList.delete k xs) = (map_of xs)(k := None)"
  by (rule delete_conv')

lemma in_set_map_of:
  assumes "distinct (map fst xs)"
  shows "(k, v) \<in> set xs \<longleftrightarrow> map_of xs k = Some v"
  using assms by (simp add: map_of_eq_Some_iff)

section \<open>Ordered maps\<close>

text \<open>
  A \<^verbatim>\<open>BTreeMap\<close> is the list of its entries in key order; \<open>btree_set\<close> is \<^verbatim>\<open>insert\<close>. Removal is
  \<^const>\<open>AList.delete\<close>, which keeps the order.
\<close>

definition btree_set :: "'k::linorder \<Rightarrow> 'v \<Rightarrow> ('k \<times> 'v) list \<Rightarrow> ('k \<times> 'v) list" where
  "btree_set k v t = (if map_of t k = None then insort_key fst (k, v) t else AList.update k v t)"

definition btree_wf :: "('k::linorder \<times> 'v) list \<Rightarrow> bool" where
  "btree_wf t \<longleftrightarrow> sorted (map fst t) \<and> distinct (map fst t)"

lemma map_of_insort_key:
  "k \<notin> fst ` set xs \<Longrightarrow> map_of (insort_key fst (k, v) xs) = (map_of xs)(k \<mapsto> v)"
  by (induction xs) (auto simp: fun_upd_twist)

lemma distinct_insort_key:
  "distinct (map fst xs) \<Longrightarrow> k \<notin> fst ` set xs \<Longrightarrow> distinct (map fst (insort_key fst (k, v) xs))"
  by (induction xs) (auto simp: set_insort_key)

lemma map_of_btree_set [simp]: "map_of (btree_set k v t) = (map_of t)(k \<mapsto> v)"
  by (simp add: btree_set_def map_of_insort_key map_of_eq_None_iff AList.update_conv')

lemma btree_set_wf [inv_laws]: "btree_wf t \<Longrightarrow> btree_wf (btree_set k v t)"
  by (auto simp: btree_wf_def btree_set_def sorted_insort_key distinct_insort_key map_of_eq_None_iff AList.update_keys
      intro: AList.distinct_update)

lemma btree_delete_wf [inv_laws]: "btree_wf t \<Longrightarrow> btree_wf (AList.delete k t)"
  by (auto simp: btree_wf_def AList.delete_eq sorted_filter distinct_map_filter)

section \<open>Reachable states and invariants\<close>

text \<open>
  A component is a set of initial states and a step relation. \<open>reaches\<close> is the reflexive and
  transitive closure of the steps.
\<close>

inductive reaches :: "('s \<Rightarrow> 's \<Rightarrow> bool) \<Rightarrow> 's \<Rightarrow> 's \<Rightarrow> bool" for step where
  reaches_refl: "reaches step s s"
| reaches_step: "reaches step s t \<Longrightarrow> step t u \<Longrightarrow> reaches step s u"

lemma reaches_single: "step s t \<Longrightarrow> reaches step s t"
  by (rule reaches_step [OF reaches_refl])

lemma reaches_trans: "reaches step t u \<Longrightarrow> reaches step s t \<Longrightarrow> reaches step s u"
  by (induction rule: reaches.induct) (auto intro: reaches_step)

locale invariant_system =
  fixes init :: "'s \<Rightarrow> bool"
    and step :: "'s \<Rightarrow> 's \<Rightarrow> bool"
    and inv :: "'s \<Rightarrow> bool"
  assumes inv_init: "init s \<Longrightarrow> inv s"
    and inv_step: "inv s \<Longrightarrow> step s t \<Longrightarrow> inv t"
begin

lemma inv_reaches: "reaches step s t \<Longrightarrow> inv s \<Longrightarrow> inv t"
  by (induction rule: reaches.induct) (auto intro: inv_step)

lemma reachable_inv: "init s \<Longrightarrow> reaches step s t \<Longrightarrow> inv t"
  by (blast intro: inv_init inv_reaches)

text \<open>
  A relation between a state and its successor that is reflexive, transitive and implied by every
  step from an invariant state relates the ends of every run.
\<close>

lemma reaches_related:
  assumes "reaches step s t" and "inv s"
    and refl: "\<And>s. R s s"
    and trans: "\<And>s t u. R s t \<Longrightarrow> R t u \<Longrightarrow> R s u"
    and single: "\<And>s t. inv s \<Longrightarrow> step s t \<Longrightarrow> R s t"
  shows "R s t"
  using assms(1,2)
proof (induction rule: reaches.induct)
  case (reaches_refl s)
  show ?case by (rule refl)
next
  case (reaches_step s t u)
  from reaches_step.hyps(1) reaches_step.prems have "inv t" by (rule inv_reaches)
  with reaches_step.hyps(2) have "R t u" by (blast intro: single)
  with reaches_step.IH [OF reaches_step.prems] show ?case by (rule trans)
qed

end

end
