(* ===== verification/Vng_Text.thy ===== *)
theory Vng_Text
  imports Vng_Prelude
begin

text \<open>
  The parts of Rust's string library the modelled code uses: decimal printing and parsing of
  unsigned integers, character replacement, \<^verbatim>\<open>splitn\<close>, \<^verbatim>\<open>BufRead::lines\<close>, trimming and ASCII case.
  Whitespace and case are those of ASCII; bytes above 127 are ordinary characters.
\<close>

section \<open>Decimal numbers\<close>

definition digit_char :: "nat \<Rightarrow> char" where
  "digit_char n = char_of (48 + n)"

fun show_nat :: "nat \<Rightarrow> string" where
  "show_nat n = (if n < 10 then [digit_char n] else show_nat (n div 10) @ [digit_char (n mod 10)])"

declare show_nat.simps [simp del]

definition digit_val :: "char \<Rightarrow> nat option" where
  "digit_val c = (let n = of_char c in if 48 \<le> n \<and> n \<le> 57 then Some (n - 48) else None)"

fun parse_digits :: "nat \<Rightarrow> string \<Rightarrow> nat option" where
  "parse_digits acc [] = Some acc"
| "parse_digits acc (c # cs) =
     (case digit_val c of Some d \<Rightarrow> parse_digits (acc * 10 + d) cs | None \<Rightarrow> None)"

text \<open>
  \<^verbatim>\<open>str::parse\<close> at an unsigned type of \<open>w\<close> bits: an optional plus sign, at least one digit, and a
  value below \<open>2 ^ w\<close>.
\<close>

definition parse_uint :: "nat \<Rightarrow> string \<Rightarrow> nat option" where
  "parse_uint w s =
     (let ds = (case s of c # cs \<Rightarrow> if c = CHR ''+'' then cs else s | [] \<Rightarrow> [])
      in if ds = [] then None
         else case parse_digits 0 ds of
                Some n \<Rightarrow> if n < 2 ^ w then Some n else None
              | None \<Rightarrow> None)"

text \<open>\<^verbatim>\<open>str::parse\<close> at a signed type of \<open>w\<close> bits: an optional sign, at least one digit, a value in range.\<close>

definition parse_int :: "nat \<Rightarrow> string \<Rightarrow> int option" where
  "parse_int w s =
     (let (neg, ds) = (case s of
            c # cs \<Rightarrow> if c = CHR ''-'' then (True, cs) else if c = CHR ''+'' then (False, cs) else (False, s)
          | [] \<Rightarrow> (False, []))
      in if ds = [] then None
         else case parse_digits 0 ds of
                Some n \<Rightarrow> let v = (if neg then - int n else int n)
                          in if - (2 ^ (w - 1)) \<le> v \<and> v < 2 ^ (w - 1) then Some v else None
              | None \<Rightarrow> None)"

section \<open>Characters, splitting and lines\<close>

abbreviation tab :: char where "tab \<equiv> CHR 0x09"
abbreviation newline :: char where "newline \<equiv> CHR 0x0A"
abbreviation carriage_return :: char where "carriage_return \<equiv> CHR 0x0D"
abbreviation backslash :: char where "backslash \<equiv> CHR 0x5C"

definition is_whitespace :: "char \<Rightarrow> bool" where
  "is_whitespace c = (c = CHR 0x20 \<or> (0x09 \<le> (of_char c :: nat) \<and> (of_char c :: nat) \<le> 0x0D))"

definition trim_start :: "string \<Rightarrow> string" where
  "trim_start s = dropWhile is_whitespace s"

definition trim :: "string \<Rightarrow> string" where
  "trim s = rev (dropWhile is_whitespace (rev (trim_start s)))"

definition replace_char :: "char \<Rightarrow> string \<Rightarrow> string \<Rightarrow> string" where
  "replace_char c t s = concat (map (\<lambda>x. if x = c then t else [x]) s)"

text \<open>\<^verbatim>\<open>str::splitn\<close>: at most \<open>n\<close> pieces, the last one unsplit.\<close>

fun splitn :: "nat \<Rightarrow> char \<Rightarrow> string \<Rightarrow> string list" where
  "splitn 0 c s = []"
| "splitn (Suc 0) c s = [s]"
| "splitn (Suc (Suc n)) c s =
     (case dropWhile (\<lambda>x. x \<noteq> c) s of
        [] \<Rightarrow> [s]
      | _ # rest \<Rightarrow> takeWhile (\<lambda>x. x \<noteq> c) s # splitn (Suc n) c rest)"

text \<open>
  \<^verbatim>\<open>BufRead::lines\<close>: the newline that ends a line is dropped, and a carriage return right before it.
\<close>

definition strip_cr :: "string \<Rightarrow> string" where
  "strip_cr l = (if l \<noteq> [] \<and> last l = carriage_return then butlast l else l)"

function buf_lines :: "string \<Rightarrow> string list" where
  "buf_lines s =
     (if s = [] then []
      else case dropWhile (\<lambda>x. x \<noteq> newline) s of
             [] \<Rightarrow> [s]
           | _ # rest \<Rightarrow> strip_cr (takeWhile (\<lambda>x. x \<noteq> newline) s) # buf_lines rest)"
  by pat_completeness auto
termination
proof (relation "measure length", goal_cases)
  case 1
  show ?case by simp
next
  case (2 s c rest)
  then have "length (c # rest) \<le> length s"
    by (metis length_dropWhile_le)
  then show ?case by simp
qed

declare buf_lines.simps [simp del]

text \<open>\<^verbatim>\<open>strip_prefix\<close>, \<^verbatim>\<open>starts_with\<close>, and \<^verbatim>\<open>split\<close> on a non-empty separator string.\<close>

definition starts_with :: "string \<Rightarrow> string \<Rightarrow> bool" where
  "starts_with s p = (take (length p) s = p)"

text \<open>\<open>contains s p\<close> is \<^verbatim>\<open>s.contains(p)\<close>: the pattern starts at some position of the string.\<close>

definition contains :: "string \<Rightarrow> string \<Rightarrow> bool" where
  "contains s p = list_ex (\<lambda>i. starts_with (drop i s) p) [0..<length s + 1]"

text \<open>
  \<^verbatim>\<open>find\<close> of a pattern and \<^verbatim>\<open>rfind\<close> of a character, as byte positions; \<^verbatim>\<open>ends_with\<close>; and the trimming of
  characters that satisfy a predicate.
\<close>

fun find_str :: "string \<Rightarrow> string \<Rightarrow> nat option" where
  "find_str s p =
     (if starts_with s p then Some 0
      else case s of [] \<Rightarrow> None | c # s' \<Rightarrow> map_option Suc (find_str s' p))"

declare find_str.simps [simp del]

definition rfind_char :: "char \<Rightarrow> string \<Rightarrow> nat option" where
  "rfind_char c s = rposition (\<lambda>x. x = c) s"

definition ends_with :: "string \<Rightarrow> string \<Rightarrow> bool" where
  "ends_with s p = starts_with (rev s) (rev p)"

definition trim_end_by :: "(char \<Rightarrow> bool) \<Rightarrow> string \<Rightarrow> string" where
  "trim_end_by P s = rev (dropWhile P (rev s))"

definition trim_by :: "(char \<Rightarrow> bool) \<Rightarrow> string \<Rightarrow> string" where
  "trim_by P s = trim_end_by P (dropWhile P s)"

text \<open>\<^verbatim>\<open>trim_start_matches\<close> of a non-empty pattern string: every leading copy goes.\<close>

function trim_start_matches :: "string \<Rightarrow> string \<Rightarrow> string" where
  "trim_start_matches p s =
     (if p \<noteq> [] \<and> starts_with s p then trim_start_matches p (drop (length p) s) else s)"
  by pat_completeness auto
termination
proof (relation "measure (\<lambda>(p, s). length s)", goal_cases)
  case (2 p s)
  then have "s \<noteq> []" by (auto simp: starts_with_def)
  with 2 show ?case by simp
qed simp

declare trim_start_matches.simps [simp del]

definition strip_prefix :: "string \<Rightarrow> string \<Rightarrow> string option" where
  "strip_prefix p s = (if starts_with s p then Some (drop (length p) s) else None)"

function split_str_acc :: "string \<Rightarrow> string \<Rightarrow> string \<Rightarrow> string list" where
  "split_str_acc sep acc s =
     (if s = [] \<or> sep = [] then [rev acc @ s]
      else if starts_with s sep then rev acc # split_str_acc sep [] (drop (length sep) s)
      else split_str_acc sep (hd s # acc) (tl s))"
  by pat_completeness auto
termination
  by (relation "measure (\<lambda>(sep, acc, s). length s)") auto

declare split_str_acc.simps [simp del]

definition split_str :: "string \<Rightarrow> string \<Rightarrow> string list" where
  "split_str sep s = split_str_acc sep [] s"

text \<open>\<^verbatim>\<open>join\<close> of a list of strings.\<close>

fun join :: "string \<Rightarrow> string list \<Rightarrow> string" where
  "join sep [] = []"
| "join sep [x] = x"
| "join sep (x # y # ys) = x @ sep @ join sep (y # ys)"

text \<open>ASCII case folding.\<close>

text \<open>
  \<^verbatim>\<open>split_whitespace\<close> and \<^verbatim>\<open>split_ascii_whitespace\<close>: the maximal runs of other characters. The second
  does not count the vertical tab as white space.
\<close>

definition is_ascii_whitespace :: "char \<Rightarrow> bool" where
  "is_ascii_whitespace c = (c \<in> {CHR 0x20, CHR 0x09, CHR 0x0A, CHR 0x0C, CHR 0x0D})"

fun words_by :: "(char \<Rightarrow> bool) \<Rightarrow> string \<Rightarrow> string \<Rightarrow> string list" where
  "words_by ws acc [] = (if acc = [] then [] else [rev acc])"
| "words_by ws acc (c # s) =
     (if ws c then (if acc = [] then [] else [rev acc]) @ words_by ws [] s
      else words_by ws (c # acc) s)"

definition split_whitespace :: "string \<Rightarrow> string list" where
  "split_whitespace s = words_by is_whitespace [] s"

definition split_ascii_whitespace :: "string \<Rightarrow> string list" where
  "split_ascii_whitespace s = words_by is_ascii_whitespace [] s"

definition ascii_lower :: "char \<Rightarrow> char" where
  "ascii_lower c = (let n = (of_char c :: nat) in if 65 \<le> n \<and> n \<le> 90 then char_of (n + 32) else c)"

definition ascii_upper :: "char \<Rightarrow> char" where
  "ascii_upper c = (let n = (of_char c :: nat) in if 97 \<le> n \<and> n \<le> 122 then char_of (n - 32) else c)"

definition to_lowercase :: "string \<Rightarrow> string" where
  "to_lowercase s = map ascii_lower s"

definition to_uppercase :: "string \<Rightarrow> string" where
  "to_uppercase s = map ascii_upper s"

section \<open>Characters as bits\<close>

text \<open>Case folding and the test for white space on the bits of a byte, for evaluation.\<close>

lemma ascii_lower_bits [code]:
  "ascii_lower (Char b0 b1 b2 b3 b4 b5 b6 b7) =
     (if \<not> b7 \<and> b6 \<and> \<not> b5 \<and> (b0 \<or> b1 \<or> b2 \<or> b3 \<or> b4) \<and> \<not> (b4 \<and> b3 \<and> (b2 \<or> b1 \<and> b0))
      then Char b0 b1 b2 b3 b4 True b6 b7 else Char b0 b1 b2 b3 b4 b5 b6 b7)"
  by (cases b0; cases b1; cases b2; cases b3; cases b4; cases b5; cases b6; cases b7)
    (simp_all add: ascii_lower_def char_of_def bit_iff_odd)

lemma ascii_upper_bits [code]:
  "ascii_upper (Char b0 b1 b2 b3 b4 b5 b6 b7) =
     (if \<not> b7 \<and> b6 \<and> b5 \<and> (b0 \<or> b1 \<or> b2 \<or> b3 \<or> b4) \<and> \<not> (b4 \<and> b3 \<and> (b2 \<or> b1 \<and> b0))
      then Char b0 b1 b2 b3 b4 False b6 b7 else Char b0 b1 b2 b3 b4 b5 b6 b7)"
  by (cases b0; cases b1; cases b2; cases b3; cases b4; cases b5; cases b6; cases b7)
    (simp_all add: ascii_upper_def char_of_def bit_iff_odd)

lemma is_whitespace_bits [code]:
  "is_whitespace (Char b0 b1 b2 b3 b4 b5 b6 b7) \<longleftrightarrow>
     \<not> b7 \<and> \<not> b6 \<and> \<not> b4 \<and>
     (b5 \<and> \<not> b3 \<and> \<not> b2 \<and> \<not> b1 \<and> \<not> b0 \<or> \<not> b5 \<and> b3 \<and> (b0 \<or> b1 \<or> b2) \<and> \<not> (b2 \<and> b1))"
  by (cases b0; cases b1; cases b2; cases b3; cases b4; cases b5; cases b6; cases b7)
    (simp_all add: is_whitespace_def)

section \<open>Printing and parsing numbers\<close>

lemma digit_val_char: "n < 10 \<Longrightarrow> digit_val (digit_char n) = Some n"
  by (simp add: digit_val_def digit_char_def Let_def)

lemma show_nat_digits: "c \<in> set (show_nat n) \<Longrightarrow> \<exists>d < 10. c = digit_char d"
proof (induction n rule: show_nat.induct)
  case (1 n)
  show ?case
  proof (cases "n < 10")
    case True
    with 1 show ?thesis by (subst (asm) show_nat.simps) auto
  next
    case False
    then have "c \<in> set (show_nat (n div 10)) \<or> c = digit_char (n mod 10)"
      using 1(2) by (subst (asm) show_nat.simps) auto
    with 1(1) False show ?thesis by (metis mod_less_divisor zero_less_numeral)
  qed
qed

lemma show_nat_nonempty [simp]: "show_nat n \<noteq> []"
  by (subst show_nat.simps) simp

lemma digit_char_code: "d < 10 \<Longrightarrow> of_char (digit_char d) = (48 + d :: nat)"
  by (simp add: digit_char_def)

lemma digit_char_range: "c \<in> set (show_nat n) \<Longrightarrow> 48 \<le> (of_char c :: nat) \<and> (of_char c :: nat) \<le> 57"
  using show_nat_digits [of c n] by (auto simp: digit_char_code)

lemma parse_digits_append:
  "parse_digits acc (xs @ ys) =
     (case parse_digits acc xs of Some n \<Rightarrow> parse_digits n ys | None \<Rightarrow> None)"
  by (induction acc xs rule: parse_digits.induct) (auto split: option.splits)

lemma parse_digits_show: "parse_digits 0 (show_nat n) = Some n"
proof (induction n rule: show_nat.induct)
  case (1 n)
  then show ?case
    by (subst show_nat.simps) (auto simp: parse_digits_append digit_val_char)
qed

lemma parse_uint_show:
  assumes "n < 2 ^ w"
  shows "parse_uint w (show_nat n) = Some n"
proof -
  have "\<forall>c\<in>set (show_nat n). c \<noteq> CHR ''+''"
    using digit_char_range by fastforce
  then have "(case show_nat n of c # cs \<Rightarrow> if c = CHR ''+'' then cs else show_nat n | [] \<Rightarrow> []) = show_nat n"
    by (cases "show_nat n") auto
  with assms show ?thesis by (simp add: parse_uint_def parse_digits_show)
qed

lemma show_nat_no_ws: "c \<in> set (show_nat n) \<Longrightarrow> \<not> is_whitespace c"
  using digit_char_range [of c n] by (auto simp: is_whitespace_def)

lemma show_nat_inj: "show_nat m = show_nat n \<Longrightarrow> m = n"
  by (metis option.inject parse_digits_show)

section \<open>Splitting and lines\<close>

lemma takeWhile_sep [simp]: "c \<notin> set xs \<Longrightarrow> takeWhile (\<lambda>x. x \<noteq> c) (xs @ c # ys) = xs"
  by (induction xs) auto

lemma dropWhile_sep [simp]: "c \<notin> set xs \<Longrightarrow> dropWhile (\<lambda>x. x \<noteq> c) (xs @ c # ys) = c # ys"
  by (induction xs) auto

lemma splitn_sep:
  "c \<notin> set xs \<Longrightarrow> splitn (Suc (Suc n)) c (xs @ c # ys) = xs # splitn (Suc n) c ys"
  by simp

lemma buf_lines_Nil [simp]: "buf_lines [] = []"
  by (simp add: buf_lines.simps)

lemma buf_lines_line:
  "newline \<notin> set l \<Longrightarrow> buf_lines (l @ newline # f) = strip_cr l # buf_lines f"
  by (subst buf_lines.simps) simp

lemma buf_lines_append_aux:
  "f \<noteq> [] \<longrightarrow> last f = newline \<Longrightarrow> buf_lines (f @ g) = buf_lines f @ buf_lines g"
proof (induction f rule: buf_lines.induct)
  case (1 f)
  show ?case
  proof (cases "f = []")
    case True
    then show ?thesis by simp
  next
    case False
    with 1(2) have "newline \<in> set f" by (metis last_in_set)
    then obtain l r where f: "f = l @ newline # r" and l: "newline \<notin> set l"
      by (meson split_list_first)
    have "r \<noteq> [] \<longrightarrow> last r = newline" using 1(2) f by auto
    moreover have "buf_lines (r @ g) = buf_lines r @ buf_lines g" if "r \<noteq> [] \<longrightarrow> last r = newline"
      using 1(1) [OF False, of newline r] that f l by simp
    ultimately show ?thesis
      using buf_lines_line [OF l, of "r @ g"] buf_lines_line [OF l, of r] f by simp
  qed
qed

section \<open>Joining and splitting\<close>

text \<open>
  A piece is safe for a separator if no occurrence of the separator starts inside the piece when the
  separator follows it.
\<close>

definition sep_safe :: "string \<Rightarrow> string \<Rightarrow> bool" where
  "sep_safe sep x \<longleftrightarrow> (\<forall>i < length x. \<not> starts_with (drop i x @ sep) sep)"

lemma starts_with_append: "starts_with (p @ s) p"
  by (simp add: starts_with_def)

lemma starts_with_length:
  assumes "starts_with s p"
  shows "length p \<le> length s"
proof -
  have "length (take (length p) s) = length p" using assms by (simp add: starts_with_def)
  then show ?thesis by simp
qed

lemma starts_with_prefix:
  "length p \<le> length s \<Longrightarrow> starts_with (s @ t) p \<longleftrightarrow> starts_with s p"
  by (simp add: starts_with_def)

lemma split_str_acc_piece:
  assumes "sep \<noteq> []" and "\<forall>i < length x. \<not> starts_with (drop i x @ sep) sep"
  shows "split_str_acc sep acc (x @ sep @ rest) = (rev acc @ x) # split_str_acc sep [] rest"
  using assms(2)
proof (induction x arbitrary: acc)
  case Nil
  show ?case
    using assms(1) by (subst split_str_acc.simps) (simp add: starts_with_append)
next
  case (Cons c x)
  have "\<not> starts_with (c # x @ sep) sep" using Cons.prems by force
  then have "\<not> starts_with (c # x @ sep @ rest) sep"
    using starts_with_prefix [of sep "c # x @ sep" rest] by simp
  moreover have "\<forall>i < length x. \<not> starts_with (drop i x @ sep) sep"
    using Cons.prems by (metis Suc_mono drop_Suc_Cons length_Cons)
  ultimately show ?case
    using Cons.IH [of "c # acc"] assms(1) by (subst split_str_acc.simps) simp
qed

lemma split_str_acc_last:
  assumes "sep \<noteq> []" and "\<forall>i < length x. \<not> starts_with (drop i x @ sep) sep"
  shows "split_str_acc sep acc x = [rev acc @ x]"
  using assms(2)
proof (induction x arbitrary: acc)
  case Nil
  show ?case by (subst split_str_acc.simps) simp
next
  case (Cons c x)
  have "\<not> starts_with (c # x) sep"
  proof
    assume "starts_with (c # x) sep"
    then have "starts_with (c # x @ sep) sep"
      using starts_with_prefix [of sep "c # x" sep] starts_with_length [of "c # x" sep] by simp
    with Cons.prems show False by force
  qed
  moreover have "\<forall>i < length x. \<not> starts_with (drop i x @ sep) sep"
    using Cons.prems by (metis Suc_mono drop_Suc_Cons length_Cons)
  ultimately show ?case
    using Cons.IH [of "c # acc"] by (subst split_str_acc.simps) simp
qed

lemma split_str_join:
  assumes "sep \<noteq> []" and "xs \<noteq> []" and "\<forall>x\<in>set xs. sep_safe sep x"
  shows "split_str sep (join sep xs) = xs"
  using assms
proof (induction sep xs rule: join.induct)
  case (1 sep)
  then show ?case by simp
next
  case (2 sep x)
  then show ?case
    using split_str_acc_last [of sep x "[]"] 2(1) by (simp add: split_str_def sep_safe_def)
next
  case (3 sep x y ys)
  then show ?case
    using split_str_acc_piece [of sep x "[]" "join sep (y # ys)"]
    by (simp add: split_str_def sep_safe_def)
qed

section \<open>Trimming\<close>

lemma dropWhile_hd_stop: "xs = [] \<or> \<not> P (hd xs) \<Longrightarrow> dropWhile P xs = xs"
  by (cases xs) auto

lemma trim_ends:
  assumes "trim s \<noteq> []"
  shows "\<not> is_whitespace (hd (trim s))" and "\<not> is_whitespace (last (trim s))"
proof -
  let ?t = "trim_start s"
  have ne: "dropWhile is_whitespace (rev ?t) \<noteq> []" using assms by (simp add: trim_def)
  show "\<not> is_whitespace (last (trim s))"
    using hd_dropWhile [OF ne] by (simp add: trim_def last_rev)
  obtain u where u: "?t = trim s @ rev u"
    by (metis rev_append rev_rev_ident takeWhile_dropWhile_id trim_def)
  then have "hd (trim s) = hd ?t" using assms by simp
  moreover have "?t \<noteq> []" using u assms by simp
  ultimately show "\<not> is_whitespace (hd (trim s))"
    using hd_dropWhile [of is_whitespace s] by (simp add: trim_start_def)
qed

lemma trim_id:
  assumes "s = [] \<or> \<not> is_whitespace (hd s) \<and> \<not> is_whitespace (last s)"
  shows "trim s = s" and "trim_start s = s"
proof -
  show ts: "trim_start s = s" using assms by (auto simp: trim_start_def intro!: dropWhile_hd_stop)
  have "dropWhile is_whitespace (rev s) = rev s"
    using assms by (intro dropWhile_hd_stop) (auto simp: hd_rev)
  then show "trim s = s" by (simp add: trim_def ts)
qed

lemma trim_trim: "trim (trim s) = trim s" "trim_start (trim s) = trim s"
  using trim_ends [of s] by (blast intro: trim_id)+

end
