(* ===== verification/Durability.thy ===== *)
theory Durability
  imports Vng_Text
begin

text \<open>
  The write-ahead log and the in-memory durability engine.

  \<^item> \<^verbatim>\<open>crates/voltnuerongrid-store/src/wal_adapter.rs\<close>: the line format of WAL records with its
    escaping, and the file adapter. The file is its contents, a string; the I/O errors of the
    operating system are not modelled, so every operation reaches the file.
  \<^item> \<^verbatim>\<open>crates/voltnuerongrid-store/src/lib.rs\<close>: \<^verbatim>\<open>InMemoryDurabilityEngine\<close>, its checkpoints and
    recovery, and the SQL streams of the \<^verbatim>\<open>DurabilityEngine\<close> trait. The clock reading of
    \<^verbatim>\<open>now_epoch_millis\<close> is an argument.

  The locale \<open>line_codec\<close> is what the file adapter needs of a record format, \<open>sql_log\<close> the contract
  of the SQL streams that boot-time replay relies on.
\<close>

section \<open>WAL records\<close>

record wal_record =
  wr_sequence :: nat
  wr_timestamp_epoch_ms :: nat
  wr_key :: string
  wr_value :: string

datatype wal_adapter_error = Io | CorruptRecord string

definition escape_field :: "string \<Rightarrow> string" where
  "escape_field v =
     replace_char newline [backslash, CHR ''n'']
       (replace_char tab [backslash, CHR ''t'']
         (replace_char backslash [backslash, backslash] v))"

fun unescape_field :: "string \<Rightarrow> string" where
  "unescape_field [] = []"
| "unescape_field [c] = [c]"
| "unescape_field (c # d # cs) =
     (if c = backslash
      then (if d = CHR ''t'' then tab # unescape_field cs
            else if d = CHR ''n'' then newline # unescape_field cs
            else if d = backslash then backslash # unescape_field cs
            else backslash # d # unescape_field cs)
      else c # unescape_field (d # cs))"

definition encode_record :: "wal_record \<Rightarrow> string" where
  "encode_record r =
     show_nat (wr_sequence r) @ [tab] @ show_nat (wr_timestamp_epoch_ms r) @ [tab] @
     escape_field (wr_key r) @ [tab] @ escape_field (wr_value r)"

definition decode_record :: "string \<Rightarrow> (wal_record, wal_adapter_error) result" where
  "decode_record line =
     (case splitn 4 tab line of
        [p0, p1, p2, p3] \<Rightarrow>
          (case parse_uint 64 p0 of
             None \<Rightarrow> Err (CorruptRecord line)
           | Some sequence \<Rightarrow>
               (case parse_uint 128 p1 of
                  None \<Rightarrow> Err (CorruptRecord line)
                | Some ts \<Rightarrow>
                    Ok \<lparr>wr_sequence = sequence, wr_timestamp_epoch_ms = ts,
                        wr_key = unescape_field p2, wr_value = unescape_field p3\<rparr>))
      | _ \<Rightarrow> Err (CorruptRecord line))"

section \<open>The file adapter\<close>

definition wal_append :: "string \<Rightarrow> wal_record \<Rightarrow> string" where
  "wal_append file r = file @ encode_record r @ [newline]"

text \<open>The reading loop: blank lines are skipped, the first undecodable line ends it.\<close>

fun decode_lines :: "(string \<Rightarrow> ('r, 'e) result) \<Rightarrow> string list \<Rightarrow> ('r list, 'e) result" where
  "decode_lines decode [] = Ok []"
| "decode_lines decode (l # ls) =
     (if trim l = [] then decode_lines decode ls
      else case decode l of
             Err e \<Rightarrow> Err e
           | Ok r \<Rightarrow> (case decode_lines decode ls of Err e \<Rightarrow> Err e | Ok rs \<Rightarrow> Ok (r # rs)))"

definition wal_read_all :: "string \<Rightarrow> (wal_record list, wal_adapter_error) result" where
  "wal_read_all file = decode_lines decode_record (buf_lines file)"

definition wal_truncate :: "string \<Rightarrow> string" where
  "wal_truncate file = []"

section \<open>The in-memory engine\<close>

record durability_config =
  wal_enabled :: bool
  checkpoint_interval_seconds :: nat
  max_wal_records_before_checkpoint :: nat

definition durability_config_default :: durability_config where
  "durability_config_default =
     \<lparr>wal_enabled = True, checkpoint_interval_seconds = 60, max_wal_records_before_checkpoint = 1000\<rparr>"

record checkpoint_manifest =
  checkpoint_id :: nat
  last_sequence :: nat
  entry_count :: nat

datatype sql_wal_kind = Ddl | Dml

text \<open>
  The key-value store is an association list, since a checkpoint counts its entries. The SQL
  streams are keyed by the stream's kind: \<^verbatim>\<open>SqlWalKind::as_str\<close> is injective.
\<close>

record durability_engine =
  config :: durability_config
  sequence :: nat
  wal :: "wal_record list"
  store :: "(string \<times> string) list"
  checkpoints :: "checkpoint_manifest list"
  sql_streams :: "sql_wal_kind \<rightharpoonup> string list"

definition with_config :: "durability_config \<Rightarrow> durability_engine" where
  "with_config c = \<lparr>config = c, sequence = 0, wal = [], store = [], checkpoints = [],
                    sql_streams = Map.empty\<rparr>"

definition append_mutation ::
  "nat \<Rightarrow> durability_engine \<Rightarrow> string \<Rightarrow> string \<Rightarrow> wal_record \<times> durability_engine" where
  "append_mutation now e k v =
     (let sq = sequence e + 1;
          r = \<lparr>wr_sequence = sq, wr_timestamp_epoch_ms = now, wr_key = k, wr_value = v\<rparr>;
          e1 = e\<lparr>sequence := sq, store := AList.update k v (store e)\<rparr>
      in (r, if wal_enabled (config e) then e1\<lparr>wal := wal e @ [r]\<rparr> else e1))"

definition append_mutation_with_adapter ::
  "nat \<Rightarrow> durability_engine \<times> string \<Rightarrow> string \<Rightarrow> string \<Rightarrow> wal_record \<times> durability_engine \<times> string" where
  "append_mutation_with_adapter now ef k v =
     (case ef of (e, file) \<Rightarrow>
       (let (r, e1) = append_mutation now e k v
        in (r, e1, if wal_enabled (config e) then wal_append file r else file)))"

definition recover_step :: "wal_record \<Rightarrow> durability_engine \<Rightarrow> durability_engine" where
  "recover_step r e =
     (let e1 = e\<lparr>sequence := max (sequence e) (wr_sequence r),
                 store := AList.update (wr_key r) (wr_value r) (store e)\<rparr>
      in if wal_enabled (config e) then e1\<lparr>wal := wal e @ [r]\<rparr> else e1)"

definition recover_from_records :: "durability_config \<Rightarrow> wal_record list \<Rightarrow> durability_engine" where
  "recover_from_records c rs = fold recover_step rs (with_config c)"

definition recover_from_adapter ::
  "durability_config \<Rightarrow> string \<Rightarrow> (durability_engine, wal_adapter_error) result" where
  "recover_from_adapter c file =
     (case wal_read_all file of Err e \<Rightarrow> Err e | Ok rs \<Rightarrow> Ok (recover_from_records c rs))"

definition engine_get :: "durability_engine \<Rightarrow> string \<Rightarrow> string option" where
  "engine_get e k = map_of (store e) k"

definition wal_len :: "durability_engine \<Rightarrow> nat" where
  "wal_len e = length (wal e)"

definition force_checkpoint :: "durability_engine \<Rightarrow> checkpoint_manifest \<times> durability_engine" where
  "force_checkpoint e =
     (let m = \<lparr>checkpoint_id = length (checkpoints e) + 1, last_sequence = sequence e,
               entry_count = length (store e)\<rparr>
      in (m, e\<lparr>checkpoints := checkpoints e @ [m], wal := []\<rparr>))"

definition maybe_checkpoint ::
  "durability_engine \<Rightarrow> checkpoint_manifest option \<times> durability_engine" where
  "maybe_checkpoint e =
     (if length (wal e) < max_wal_records_before_checkpoint (config e) then (None, e)
      else let (m, e1) = force_checkpoint e in (Some m, e1))"

definition latest_checkpoint :: "durability_engine \<Rightarrow> checkpoint_manifest option" where
  "latest_checkpoint e = (if checkpoints e = [] then None else Some (last (checkpoints e)))"

definition append_sql :: "durability_engine \<Rightarrow> sql_wal_kind \<Rightarrow> string \<Rightarrow> nat \<times> durability_engine" where
  "append_sql e kind sql =
     (let stream = (case sql_streams e kind of Some xs \<Rightarrow> xs | None \<Rightarrow> []) @ [sql]
      in (length stream, e\<lparr>sql_streams := (sql_streams e)(kind \<mapsto> stream)\<rparr>))"

definition iter_sql :: "durability_engine \<Rightarrow> sql_wal_kind \<Rightarrow> string list" where
  "iter_sql e kind = (case sql_streams e kind of Some xs \<Rightarrow> xs | None \<Rightarrow> [])"

definition sql_count :: "durability_engine \<Rightarrow> sql_wal_kind \<Rightarrow> nat" where
  "sql_count e kind = (case sql_streams e kind of Some xs \<Rightarrow> length xs | None \<Rightarrow> 0)"

definition clear_sql :: "durability_engine \<Rightarrow> sql_wal_kind \<Rightarrow> durability_engine" where
  "clear_sql e kind =
     (case sql_streams e kind of
        Some xs \<Rightarrow> e\<lparr>sql_streams := (sql_streams e)(kind \<mapsto> [])\<rparr>
      | None \<Rightarrow> e)"

text \<open>The trait's default \<^verbatim>\<open>append_sql_batch\<close>, over any engine's \<^verbatim>\<open>append_sql\<close>.\<close>

fun append_sql_batch ::
  "('s \<Rightarrow> sql_wal_kind \<Rightarrow> string \<Rightarrow> nat \<times> 's) \<Rightarrow> 's \<Rightarrow> (sql_wal_kind \<times> string) list \<Rightarrow> nat list \<times> 's" where
  "append_sql_batch app s [] = ([], s)"
| "append_sql_batch app s ((kind, sql) # es) =
     (let (n, s1) = app s kind sql; (ns, s2) = append_sql_batch app s1 es in (n # ns, s2))"

section \<open>Runs and invariant\<close>

datatype engine_op = Mutate nat string string | MaybeCheckpoint | ForceCheckpoint

fun run_engine :: "engine_op \<Rightarrow> durability_engine \<times> string \<Rightarrow> durability_engine \<times> string" where
  "run_engine (Mutate now k v) ef = snd (append_mutation_with_adapter now ef k v)"
| "run_engine MaybeCheckpoint (e, file) = (snd (maybe_checkpoint e), file)"
| "run_engine ForceCheckpoint (e, file) = (snd (force_checkpoint e), file)"

text \<open>
  Keys of the store are distinct, checkpoints are numbered from one with non-decreasing sequence
  numbers that the engine has reached, and the buffered WAL holds the consecutive records up to the
  current sequence number.
\<close>

definition engine_wf :: "durability_engine \<Rightarrow> bool" where
  "engine_wf e \<longleftrightarrow>
     distinct (map fst (store e)) \<and>
     map checkpoint_id (checkpoints e) = [1..<length (checkpoints e) + 1] \<and>
     sorted (map last_sequence (checkpoints e) @ [sequence e]) \<and>
     (wal_enabled (config e) \<longrightarrow>
        length (wal e) \<le> sequence e \<and>
        map wr_sequence (wal e) = [sequence e - length (wal e) + 1..<sequence e + 1])"

inductive engine_step :: "durability_engine \<Rightarrow> durability_engine \<Rightarrow> bool" where
  step_append_mutation: "append_mutation now e k v = (r, t) \<Longrightarrow> engine_step e t"
| step_maybe_checkpoint: "maybe_checkpoint e = (m, t) \<Longrightarrow> engine_step e t"
| step_force_checkpoint: "force_checkpoint e = (m, t) \<Longrightarrow> engine_step e t"
| step_append_sql: "append_sql e kind sql = (n, t) \<Longrightarrow> engine_step e t"
| step_clear_sql: "engine_step e (clear_sql e kind)"

section \<open>Escaping\<close>

text \<open>The three replacements amount to one pass over the characters.\<close>

definition escape_char :: "char \<Rightarrow> string" where
  "escape_char c =
     (if c = backslash then [backslash, backslash]
      else if c = tab then [backslash, CHR ''t'']
      else if c = newline then [backslash, CHR ''n''] else [c])"

lemma replace_char_Cons:
  "replace_char c t (x # xs) = (if x = c then t else [x]) @ replace_char c t xs"
  by (simp add: replace_char_def)

lemma escape_field_Nil [simp]: "escape_field [] = []"
  by (simp add: escape_field_def replace_char_def)

lemma escape_field_Cons [simp]: "escape_field (c # cs) = escape_char c @ escape_field cs"
  by (auto simp: escape_field_def escape_char_def replace_char_Cons)

lemma escape_field_append: "escape_field (xs @ ys) = escape_field xs @ escape_field ys"
  by (induction xs) simp_all

lemma unescape_escape_char: "unescape_field (escape_char c @ rest) = c # unescape_field rest"
  by (cases rest) (auto simp: escape_char_def)

lemma unescape_escape: "unescape_field (escape_field v) = v"
  by (induction v) (simp_all add: unescape_escape_char)

lemma escape_field_clean: "tab \<notin> set (escape_field v)" "newline \<notin> set (escape_field v)"
  by (induction v) (auto simp: escape_char_def)

lemma last_escape_field:
  "v \<noteq> [] \<Longrightarrow> last v = carriage_return \<Longrightarrow> escape_field v = escape_field (butlast v) @ [carriage_return]"
  by (induction v rule: rev_induct) (auto simp: escape_field_append escape_char_def)

lemma escape_field_last_cr:
  assumes "escape_field v \<noteq> []" and "last (escape_field v) = carriage_return"
  shows "v \<noteq> [] \<and> last v = carriage_return"
  using assms
  by (induction v rule: rev_induct) (auto simp: escape_field_append escape_char_def split: if_splits)

section \<open>The record format\<close>

lemma decode_fields:
  assumes "sq < 2 ^ 64" and "ts < 2 ^ 128" and "tab \<notin> set p2"
  shows "decode_record (show_nat sq @ [tab] @ show_nat ts @ [tab] @ p2 @ [tab] @ p3) =
    Ok \<lparr>wr_sequence = sq, wr_timestamp_epoch_ms = ts,
        wr_key = unescape_field p2, wr_value = unescape_field p3\<rparr>"
proof -
  have no_tab: "tab \<notin> set (show_nat n)" for n
    using show_nat_no_ws [of tab n] by (auto simp: is_whitespace_def)
  have "splitn 4 tab (show_nat sq @ tab # show_nat ts @ tab # p2 @ tab # p3) =
      [show_nat sq, show_nat ts, p2, p3]"
    using assms(3) by (simp add: eval_nat_numeral splitn_sep no_tab del: splitn.simps(3))
  then show ?thesis
    using assms(1,2) by (simp add: decode_record_def parse_uint_show)
qed

lemma decode_encode_record:
  assumes "wr_sequence r < 2 ^ 64" and "wr_timestamp_epoch_ms r < 2 ^ 128"
  shows "decode_record (encode_record r) = Ok r"
  using decode_fields [OF assms escape_field_clean(1)]
  by (simp add: encode_record_def unescape_escape)

lemma trim_nonempty:
  assumes "c \<in> set s" and "\<not> is_whitespace c"
  shows "trim s \<noteq> []"
proof -
  have "trim_start s \<noteq> []"
    using assms by (auto simp: trim_start_def dropWhile_eq_Nil_conv)
  moreover from this have "\<not> is_whitespace (hd (trim_start s))"
    unfolding trim_start_def by (rule hd_dropWhile)
  ultimately show ?thesis
    by (auto simp: trim_def dropWhile_eq_Nil_conv)
qed

lemma encode_record_clean:
  "newline \<notin> set (encode_record r)" "trim (encode_record r) \<noteq> []"
proof -
  have "newline \<notin> set (show_nat n)" for n
    using show_nat_no_ws [of newline n] by (auto simp: is_whitespace_def)
  then show "newline \<notin> set (encode_record r)"
    by (simp add: encode_record_def escape_field_clean)
  show "trim (encode_record r) \<noteq> []"
  proof (rule trim_nonempty)
    show "hd (show_nat (wr_sequence r)) \<in> set (encode_record r)"
      using list.set_sel(1) [OF show_nat_nonempty] by (simp add: encode_record_def)
    show "\<not> is_whitespace (hd (show_nat (wr_sequence r)))"
      by (rule show_nat_no_ws [OF list.set_sel(1) [OF show_nat_nonempty]])
  qed
qed

section \<open>Files of lines\<close>

lemma decode_lines_append:
  "decode_lines decode (ls @ ms) =
     (case decode_lines decode ls of
        Err e \<Rightarrow> Err e
      | Ok rs \<Rightarrow> (case decode_lines decode ms of Err e \<Rightarrow> Err e | Ok qs \<Rightarrow> Ok (rs @ qs)))"
  by (induction ls) (auto split: sum.splits)

text \<open>A record format that survives being written as a line and read back.\<close>

locale line_codec =
  fixes valid :: "'r \<Rightarrow> bool"
    and encode :: "'r \<Rightarrow> string"
    and decode :: "string \<Rightarrow> ('r, 'e) result"
  assumes decode_encode: "valid r \<Longrightarrow> decode (encode r) = Ok r"
    and encode_line: "newline \<notin> set (encode r)"
    and encode_no_cr: "valid r \<Longrightarrow> strip_cr (encode r) = encode r"
    and encode_not_blank: "trim (encode r) \<noteq> []"
begin

lemma read_append:
  assumes "f = [] \<or> last f = newline" and "valid r"
  shows "decode_lines decode (buf_lines (f @ encode r @ [newline])) =
    (case decode_lines decode (buf_lines f) of Err e \<Rightarrow> Err e | Ok rs \<Rightarrow> Ok (rs @ [r]))"
proof -
  have "buf_lines (encode r @ [newline]) = [encode r]"
    using buf_lines_line [OF encode_line, of r "[]"] encode_no_cr [OF assms(2)] by simp
  moreover have "buf_lines (f @ encode r @ [newline]) = buf_lines f @ buf_lines (encode r @ [newline])"
    using assms(1) by (intro buf_lines_append_aux) auto
  ultimately show ?thesis
    using assms(2) by (simp add: decode_lines_append decode_encode encode_not_blank split: sum.split)
qed

lemma read_written:
  assumes "\<forall>r\<in>set rs. valid r"
  shows "decode_lines decode (buf_lines (concat (map (\<lambda>r. encode r @ [newline]) rs))) = Ok rs"
  using assms
proof (induction rs rule: rev_induct)
  case Nil
  then show ?case by simp
next
  case (snoc r rs)
  let ?f = "concat (map (\<lambda>r. encode r @ [newline]) rs)"
  have "?f = [] \<or> last ?f = newline" by (cases rs rule: rev_cases) auto
  from read_append [OF this, of r] snoc show ?case by simp
qed

end

definition wal_valid :: "wal_record \<Rightarrow> bool" where
  "wal_valid r \<longleftrightarrow> wr_sequence r < 2 ^ 64 \<and> wr_timestamp_epoch_ms r < 2 ^ 128 \<and>
     (wr_value r = [] \<or> last (wr_value r) \<noteq> carriage_return)"

interpretation wal_lines: line_codec wal_valid encode_record decode_record
proof
  fix r
  show "wal_valid r \<Longrightarrow> decode_record (encode_record r) = Ok r"
    by (simp add: wal_valid_def decode_encode_record)
  show "newline \<notin> set (encode_record r)" "trim (encode_record r) \<noteq> []"
    by (rule encode_record_clean)+
  assume "wal_valid r"
  then have "last (encode_record r) \<noteq> carriage_return"
    using escape_field_last_cr [of "wr_value r"]
    by (cases "escape_field (wr_value r) = []") (auto simp: encode_record_def wal_valid_def)
  then show "strip_cr (encode_record r) = encode_record r" by (simp add: strip_cr_def)
qed

section \<open>The SQL streams\<close>

text \<open>
  What replay at boot relies on: a statement is appended to its own stream only, is returned in
  append order, and is numbered by its position.
\<close>

locale sql_log =
  fixes app :: "'s \<Rightarrow> sql_wal_kind \<Rightarrow> string \<Rightarrow> nat \<times> 's"
    and iter :: "'s \<Rightarrow> sql_wal_kind \<Rightarrow> string list"
    and clear :: "'s \<Rightarrow> sql_wal_kind \<Rightarrow> 's"
  assumes iter_app: "iter (snd (app s kind sql)) kind' = (if kind' = kind then iter s kind @ [sql] else iter s kind')"
    and app_number: "fst (app s kind sql) = length (iter s kind) + 1"
    and iter_clear: "iter (clear s kind) kind' = (if kind' = kind then [] else iter s kind')"
begin

lemma batch_iter:
  "iter (snd (append_sql_batch app s es)) kind = iter s kind @ map snd (filter (\<lambda>e. fst e = kind) es)"
proof (induction es arbitrary: s)
  case Nil
  then show ?case by simp
next
  case (Cons e es)
  obtain k sql where e: "e = (k, sql)" by fastforce
  show ?case
    using Cons.IH [of "snd (app s k sql)"] by (simp add: e split_beta Let_def iter_app)
qed

lemma batch_numbers:
  "fst (append_sql_batch app s (map (Pair kind) sqls)) =
     [length (iter s kind) + 1..<length (iter s kind) + length sqls + 1]"
proof (induction sqls arbitrary: s)
  case Nil
  then show ?case by simp
next
  case (Cons sql sqls)
  show ?case
    using Cons.IH [of "snd (app s kind sql)"]
    by (simp add: split_beta Let_def iter_app app_number upt_rec)
qed

end

interpretation mem_sql: sql_log append_sql iter_sql clear_sql
  by unfold_locales (auto simp: append_sql_def iter_sql_def clear_sql_def Let_def split: option.splits)

section \<open>The engine invariant\<close>

lemma engine_wf_with_config: "engine_wf (with_config c)"
  by (simp add: engine_wf_def with_config_def)

lemma append_mutation_wf [inv_laws]:
  assumes "engine_wf e" and "append_mutation now e k v = (r, t)"
  shows "engine_wf t"
proof -
  have "sorted (map last_sequence (checkpoints e) @ [sequence e + 1])"
    using assms(1) by (auto simp: engine_wf_def sorted_append)
  moreover have "map wr_sequence (wal e) @ [sequence e + 1] =
      [sequence e - length (wal e) + 1..<sequence e + 2]"
    if "wal_enabled (config e)"
    using assms(1) that by (simp add: engine_wf_def)
  ultimately show ?thesis
    using assms
    by (cases "wal_enabled (config e)")
      (auto simp: append_mutation_def engine_wf_def Let_def distinct_fst_update simp del: upt_Suc)
qed

lemma force_checkpoint_wf [inv_laws]:
  assumes "engine_wf e" and "force_checkpoint e = (m, t)"
  shows "engine_wf t"
  using assms by (auto simp: force_checkpoint_def engine_wf_def Let_def sorted_append)

lemma engine_step_wf [inv_laws]: "engine_step e t \<Longrightarrow> engine_wf e \<Longrightarrow> engine_wf t"
proof (induction rule: engine_step.induct)
  case (step_append_mutation now e k v r t)
  then show ?case by (blast intro: append_mutation_wf)
next
  case (step_maybe_checkpoint e m t)
  then show ?case
    by (auto simp: maybe_checkpoint_def split_beta split: if_splits
        intro: force_checkpoint_wf [OF _ surjective_pairing])
next
  case (step_force_checkpoint e m t)
  then show ?case by (blast intro: force_checkpoint_wf)
qed (auto simp: append_sql_def clear_sql_def engine_wf_def Let_def split: option.splits)

interpretation engine_inv: invariant_system "\<lambda>e. \<exists>c. e = with_config c" engine_step engine_wf
  by unfold_locales (auto simp: engine_wf_with_config dest: engine_step_wf)

section \<open>Crash recovery\<close>

lemma recover_snoc: "recover_from_records c (rs @ [r]) = recover_step r (recover_from_records c rs)"
  by (simp add: recover_from_records_def)

lemma recover_step_config [simp]: "config (recover_step r e) = config e"
  by (simp add: recover_step_def Let_def)

lemma recover_step_simps [simp]:
  "map_of (store (recover_step r e)) = (map_of (store e))(wr_key r \<mapsto> wr_value r)"
  "sequence (recover_step r e) = max (sequence e) (wr_sequence r)"
  by (simp_all add: recover_step_def Let_def)

fun op_ok :: "engine_op \<Rightarrow> bool" where
  "op_ok (Mutate now k v) = (now < 2 ^ 128 \<and> (v = [] \<or> last v \<noteq> carriage_return))"
| "op_ok _ = True"

text \<open>The file of a running engine recovers to its store and sequence number.\<close>

definition file_recovers :: "durability_config \<Rightarrow> durability_engine \<times> string \<Rightarrow> bool" where
  "file_recovers c ef \<longleftrightarrow>
     config (fst ef) = c \<and> (snd ef = [] \<or> last (snd ef) = newline) \<and>
     (\<exists>e'. recover_from_adapter c (snd ef) = Ok e' \<and>
        map_of (store e') = map_of (store (fst ef)) \<and> sequence e' = sequence (fst ef))"

lemma file_recovers_start: "file_recovers c (with_config c, [])"
  by (simp add: file_recovers_def recover_from_adapter_def wal_read_all_def
      recover_from_records_def with_config_def)

lemma file_recovers_mutate:
  assumes "file_recovers c (e, f)" and "wal_enabled c" and "op_ok (Mutate now k v)"
    and "sequence e + 1 < 2 ^ 64"
  shows "file_recovers c (snd (append_mutation_with_adapter now (e, f) k v))"
proof -
  define r where "r = \<lparr>wr_sequence = sequence e + 1, wr_timestamp_epoch_ms = now, wr_key = k, wr_value = v\<rparr>"
  have conf: "config e = c" and f: "f = [] \<or> last f = newline"
    using assms(1) by (simp_all add: file_recovers_def)
  have "wal_valid r" using assms(3,4) by (auto simp: wal_valid_def r_def)
  note rd = wal_lines.read_append [OF f this]
  obtain e' where e': "recover_from_adapter c f = Ok e'" "map_of (store e') = map_of (store e)"
    "sequence e' = sequence e"
    using assms(1) by (auto simp: file_recovers_def)
  then obtain rs where rs: "wal_read_all f = Ok rs" "e' = recover_from_records c rs"
    by (auto simp: recover_from_adapter_def split: sum.splits)
  then have "recover_from_adapter c (wal_append f r) = Ok (recover_step r e')"
    using rd by (simp add: recover_from_adapter_def wal_read_all_def wal_append_def recover_snoc)
  moreover have "map_of (store (recover_step r e')) = (map_of (store e))(k \<mapsto> v)"
    and "sequence (recover_step r e') = sequence e + 1"
    by (simp_all add: e' r_def)
  moreover have "snd (append_mutation_with_adapter now (e, f) k v) =
      (e\<lparr>sequence := sequence e + 1, store := AList.update k v (store e), wal := wal e @ [r]\<rparr>, wal_append f r)"
    using assms(2) conf by (simp add: append_mutation_with_adapter_def append_mutation_def Let_def r_def)
  ultimately show ?thesis
    using conf by (simp add: file_recovers_def wal_append_def)
qed

lemma file_recovers_run:
  assumes "file_recovers c ef" and "wal_enabled c" and "\<forall>op\<in>set ops. op_ok op"
    and "sequence (fst ef) + length ops < 2 ^ 64"
  shows "file_recovers c (fold run_engine ops ef)"
  using assms(1,3,4)
proof (induction ops arbitrary: ef)
  case Nil
  then show ?case by simp
next
  case (Cons op ops)
  obtain e f where ef: "ef = (e, f)" by fastforce
  have "file_recovers c (run_engine op ef) \<and> sequence (fst (run_engine op ef)) \<le> sequence e + 1"
  proof (cases op)
    case (Mutate now k v)
    then have "file_recovers c (run_engine op ef)"
      using file_recovers_mutate [of c e f now k v] Cons.prems assms(2) ef by simp
    with Mutate show ?thesis
      by (simp add: ef append_mutation_with_adapter_def append_mutation_def Let_def)
  qed (use Cons.prems ef in \<open>auto simp: file_recovers_def maybe_checkpoint_def force_checkpoint_def Let_def\<close>)
  with Cons.IH [of "run_engine op ef"] Cons.prems ef show ?case by simp
qed

section \<open>Properties\<close>

text \<open>
  C7: Crash recovery is exact. An engine with its WAL enabled runs any mix of mutations and
  checkpoints over a file adapter that starts empty. Recovering from the file afterwards succeeds
  and gives the same key-value store and the same sequence number, checkpoints notwithstanding. The
  hypotheses bound the number of operations and the clock by the integer widths of the format, and
  exclude values that end in a carriage return.
\<close>

theorem wal_recovery_exact:
  assumes "wal_enabled c" and "\<forall>op\<in>set ops. op_ok op" and "length ops < 2 ^ 64"
    and "fold run_engine ops (with_config c, []) = (e, file)"
  shows "\<exists>e'. recover_from_adapter c file = Ok e' \<and>
    (\<forall>k. engine_get e' k = engine_get e k) \<and> sequence e' = sequence e"
proof -
  have "file_recovers c (fold run_engine ops (with_config c, []))"
    using assms(1-3) by (intro file_recovers_run file_recovers_start) (simp_all add: with_config_def)
  with assms(4) show ?thesis by (auto simp: file_recovers_def engine_get_def)
qed

theorem wal_recovery_exact_witness:
  "\<exists>e'. recover_from_adapter durability_config_default
      (snd (fold run_engine [Mutate 7 ''k'' [tab], ForceCheckpoint, Mutate 9 ''k'' [newline]]
         (with_config durability_config_default, []))) = Ok e' \<and> engine_get e' ''k'' = Some [newline]"
proof -
  let ?ops = "[Mutate 7 ''k'' [tab], ForceCheckpoint, Mutate 9 ''k'' [newline]]"
  let ?ef = "fold run_engine ?ops (with_config durability_config_default, [])"
  have "engine_get (fst ?ef) ''k'' = Some [newline]"
    by (simp add: engine_get_def append_mutation_with_adapter_def append_mutation_def
        force_checkpoint_def with_config_def durability_config_default_def Let_def)
  moreover have "\<forall>op\<in>set ?ops. op_ok op" by simp
  ultimately show ?thesis
    using wal_recovery_exact [of durability_config_default ?ops "fst ?ef" "snd ?ef"]
    by (auto simp: durability_config_default_def)
qed

text \<open>
  The WAL line format round-trips: every record whose numbers fit the format decodes to itself,
  whatever tabs, newlines and backslashes its key and value hold, and its line has no line break.
\<close>

theorem wal_codec_roundtrip:
  assumes "wr_sequence r < 2 ^ 64" and "wr_timestamp_epoch_ms r < 2 ^ 128"
  shows "decode_record (encode_record r) = Ok r \<and> newline \<notin> set (encode_record r)"
  using decode_encode_record [OF assms] encode_record_clean(1) by simp

theorem wal_codec_roundtrip_witness:
  "decode_record (encode_record \<lparr>wr_sequence = 1, wr_timestamp_epoch_ms = 5,
     wr_key = [tab, backslash, newline], wr_value = [backslash, CHR ''t'']\<rparr>) =
   Ok \<lparr>wr_sequence = 1, wr_timestamp_epoch_ms = 5,
     wr_key = [tab, backslash, newline], wr_value = [backslash, CHR ''t'']\<rparr>"
  using wal_codec_roundtrip [of "\<lparr>wr_sequence = 1, wr_timestamp_epoch_ms = 5,
     wr_key = [tab, backslash, newline], wr_value = [backslash, CHR ''t'']\<rparr>"] by simp

text \<open>
  A value that ends in a carriage return does not survive the file. The escaping leaves the
  carriage return in place and the line reader drops it with the line break, so the record read
  back has lost the last character of its value.
\<close>

theorem wal_trailing_cr_lost:
  assumes "wr_sequence r < 2 ^ 64" and "wr_timestamp_epoch_ms r < 2 ^ 128"
    and "wr_value r \<noteq> []" and "last (wr_value r) = carriage_return"
  shows "wal_read_all (wal_append [] r) = Ok [r\<lparr>wr_value := butlast (wr_value r)\<rparr>]"
proof -
  let ?r = "r\<lparr>wr_value := butlast (wr_value r)\<rparr>"
  have enc: "encode_record r = encode_record ?r @ [carriage_return]"
    using last_escape_field [OF assms(3,4)] by (simp add: encode_record_def)
  have "buf_lines (wal_append [] r) = [encode_record ?r]"
    using buf_lines_line [OF encode_record_clean(1), of r "[]"]
    by (simp add: wal_append_def enc strip_cr_def)
  moreover have "decode_record (encode_record ?r) = Ok ?r"
    using assms(1,2) by (intro decode_encode_record) simp_all
  ultimately show ?thesis by (simp add: wal_read_all_def encode_record_clean(2))
qed

theorem wal_trailing_cr_lost_witness:
  "wal_read_all (wal_append [] \<lparr>wr_sequence = 1, wr_timestamp_epoch_ms = 2, wr_key = ''k'',
      wr_value = [CHR ''v'', carriage_return]\<rparr>) =
    Ok [\<lparr>wr_sequence = 1, wr_timestamp_epoch_ms = 2, wr_key = ''k'', wr_value = ''v''\<rparr>]"
  using wal_trailing_cr_lost [of "\<lparr>wr_sequence = 1, wr_timestamp_epoch_ms = 2, wr_key = ''k'',
      wr_value = [CHR ''v'', carriage_return]\<rparr>"] by simp

text \<open>
  In every reachable state of the engine the store has one entry per key, checkpoints are
  numbered consecutively with non-decreasing sequence numbers, and with the WAL enabled the buffered
  records are the consecutive ones that end at the current sequence number.
\<close>

theorem engine_reachable_wf:
  assumes "reaches engine_step (with_config c) e"
  shows "engine_wf e"
  using engine_inv.reachable_inv [OF _ assms] by blast

theorem engine_reachable_wf_witness:
  "engine_wf (snd (append_mutation 3 (with_config durability_config_default) ''k'' ''v''))"
  by (rule engine_reachable_wf, rule reaches_single, rule step_append_mutation [OF surjective_pairing])

text \<open>
  SQL statements are replayed as written. A batch of statements extends each stream by its own
  statements in order and leaves the other stream alone, and a batch for one stream returns the
  consecutive positions of its statements.
\<close>

theorem sql_batch_replay:
  "iter_sql (snd (append_sql_batch append_sql e es)) kind =
     iter_sql e kind @ map snd (filter (\<lambda>x. fst x = kind) es) \<and>
   fst (append_sql_batch append_sql e (map (Pair kind) sqls)) =
     [sql_count e kind + 1..<sql_count e kind + length sqls + 1]"
proof -
  have "sql_count e kind = length (iter_sql e kind)"
    by (simp add: sql_count_def iter_sql_def split: option.split)
  then show ?thesis using mem_sql.batch_iter mem_sql.batch_numbers by simp
qed

end
