(* ===== verification/Base_Store.thy ===== *)
theory Base_Store
  imports Vng_Prelude Vng_Text
begin

text \<open>
  The immutable base segments: the versions and manifests of
  \<^verbatim>\<open>crates/voltnuerongrid-store/src/segment.rs\<close>, the \<^verbatim>\<open>InMemoryBaseColumnStore\<close> and the
  \<^verbatim>\<open>AtomicVersionManager\<close> of \<^verbatim>\<open>base_store.rs\<close>. The manifests sit in a hash map that the scans iterate
  over: an association list. The locale \<open>version_line\<close> is the contract of everything that replaces
  a current version and remembers the previous ones; the manifest and the version manager meet it.
\<close>

section \<open>Segments\<close>

datatype column_encoding = Uncompressed | Dictionary | RunLength | BitPacked

record column_block =
  cb_col_id :: nat
  cb_values :: string
  cb_encoding :: column_encoding
  cb_min_value :: "string option"
  cb_max_value :: "string option"
  cb_null_count :: nat
  cb_row_count :: nat

definition column_block_new :: "nat \<Rightarrow> column_encoding \<Rightarrow> nat \<Rightarrow> column_block" where
  "column_block_new col_id encoding row_count =
     \<lparr>cb_col_id = col_id, cb_values = [], cb_encoding = encoding, cb_min_value = None,
      cb_max_value = None, cb_null_count = 0, cb_row_count = row_count\<rparr>"

record segment_stats =
  ss_row_count :: nat
  ss_tail_watermark :: nat
  ss_tail_length :: nat
  ss_merge_backlog_bytes :: nat

record base_segment_version =
  bv_segment_id :: nat
  bv_version_id :: nat
  bv_min_commit_ts :: nat
  bv_max_commit_ts :: nat
  bv_columns :: "(nat \<times> column_block) list"
  bv_stats :: segment_stats
  bv_created_at_ms :: nat
  bv_row_ids :: "nat list"

definition base_segment_version_new :: "nat \<Rightarrow> nat \<Rightarrow> nat \<Rightarrow> nat \<Rightarrow> nat \<Rightarrow> base_segment_version" where
  "base_segment_version_new segment_id version_id min_ts max_ts created_at_ms =
     \<lparr>bv_segment_id = segment_id, bv_version_id = version_id, bv_min_commit_ts = min_ts,
      bv_max_commit_ts = max_ts, bv_columns = [],
      bv_stats = \<lparr>ss_row_count = 0, ss_tail_watermark = max_ts, ss_tail_length = 0, ss_merge_backlog_bytes = 0\<rparr>,
      bv_created_at_ms = created_at_ms, bv_row_ids = []\<rparr>"

definition contains_row :: "base_segment_version \<Rightarrow> nat \<Rightarrow> bool" where
  "contains_row v row_id \<longleftrightarrow> row_id \<in> set (bv_row_ids v)"

record base_segment_manifest =
  bm_current_version :: "base_segment_version option"
  bm_history :: "base_segment_version list"

definition base_segment_manifest_new :: base_segment_manifest where
  "base_segment_manifest_new = \<lparr>bm_current_version = None, bm_history = []\<rparr>"

definition swap_version :: "base_segment_version \<Rightarrow> base_segment_manifest \<Rightarrow> base_segment_manifest" where
  "swap_version new_version m =
     (case bm_current_version m of
        Some old \<Rightarrow> \<lparr>bm_current_version = Some new_version, bm_history = bm_history m @ [old]\<rparr>
      | None \<Rightarrow> m\<lparr>bm_current_version := Some new_version\<rparr>)"

section \<open>The base column store\<close>

type_synonym base_store = "(nat \<times> base_segment_manifest) list"

definition register_segment :: "nat \<Rightarrow> base_store \<Rightarrow> base_store" where
  "register_segment segment_id s = AList.update segment_id base_segment_manifest_new s"

definition not_registered :: "nat \<Rightarrow> string" where
  "not_registered segment_id = ''Segment '' @ show_nat segment_id @ '' not registered''"

definition with_manifest ::
  "nat \<Rightarrow> (base_segment_manifest \<Rightarrow> 'a) \<Rightarrow> base_store \<Rightarrow> ('a, string) result" where
  "with_manifest segment_id f s =
     (case map_of s segment_id of
        Some m \<Rightarrow> Ok (f m)
      | None \<Rightarrow> Err (not_registered segment_id))"

definition install_base_version ::
  "nat \<Rightarrow> base_segment_version \<Rightarrow> base_store \<Rightarrow> (base_store, string) result" where
  "install_base_version segment_id v s =
     with_manifest segment_id (\<lambda>m. AList.update segment_id (swap_version v m) s) s"

definition get_current_version :: "nat \<Rightarrow> base_store \<Rightarrow> (base_segment_version option, string) result" where
  "get_current_version segment_id s = with_manifest segment_id bm_current_version s"

definition manifest_versions :: "base_segment_manifest \<Rightarrow> base_segment_version list" where
  "manifest_versions m =
     (case bm_current_version m of Some current \<Rightarrow> bm_history m @ [current] | None \<Rightarrow> bm_history m)"

definition get_version_history :: "nat \<Rightarrow> base_store \<Rightarrow> (base_segment_version list, string) result" where
  "get_version_history segment_id s = with_manifest segment_id manifest_versions s"

definition row_exists :: "nat \<Rightarrow> nat \<Rightarrow> base_store \<Rightarrow> (bool, string) result" where
  "row_exists segment_id row_id s =
     with_manifest segment_id
       (\<lambda>m. case bm_current_version m of Some v \<Rightarrow> contains_row v row_id | None \<Rightarrow> False) s"

record column_batch =
  bb_columns :: "nat \<rightharpoonup> string list"
  bb_row_count :: nat

definition scan_manifest :: "nat list \<Rightarrow> base_segment_manifest \<Rightarrow> column_batch \<Rightarrow> column_batch" where
  "scan_manifest col_ids m batch =
     (case bm_current_version m of
        None \<Rightarrow> batch
      | Some v \<Rightarrow>
          \<lparr>bb_columns = fold (\<lambda>c cols. if map_of (bv_columns v) c \<noteq> None \<and> cols c = None then cols(c \<mapsto> []) else cols)
             col_ids (bb_columns batch),
           bb_row_count = max (bb_row_count batch) (ss_row_count (bv_stats v))\<rparr>)"

definition scan_columns :: "nat list \<Rightarrow> base_store \<Rightarrow> column_batch" where
  "scan_columns col_ids s =
     fold (scan_manifest col_ids) (map snd s) \<lparr>bb_columns = Map.empty, bb_row_count = 0\<rparr>"

definition placeholder_row :: "base_segment_version \<Rightarrow> string \<rightharpoonup> string" where
  "placeholder_row v = map_of (map (\<lambda>(c, _). (show_nat c, [])) (bv_columns v))"

definition get_row_by_id :: "nat \<Rightarrow> base_store \<Rightarrow> (string \<rightharpoonup> string) option" where
  "get_row_by_id row_id s =
     first_some (\<lambda>(_, m).
       case bm_current_version m of
         Some v \<Rightarrow> if contains_row v row_id then Some (placeholder_row v) else None
       | None \<Rightarrow> None) s"

definition current_rows :: "base_segment_manifest \<Rightarrow> nat" where
  "current_rows m = (case bm_current_version m of Some v \<Rightarrow> ss_row_count (bv_stats v) | None \<Rightarrow> 0)"

definition base_rows_total :: "base_store \<Rightarrow> nat" where
  "base_rows_total s = sum_list (map (\<lambda>(_, m). current_rows m) s)"

section \<open>The version manager\<close>

type_synonym version_manager = "nat \<rightharpoonup> nat \<times> nat list"

definition promote_version :: "nat \<Rightarrow> nat \<Rightarrow> version_manager \<Rightarrow> version_manager" where
  "promote_version segment_id new_version_id vs =
     (case vs segment_id of
        Some (old_id, history) \<Rightarrow> vs(segment_id \<mapsto> (new_version_id, history @ [old_id]))
      | None \<Rightarrow> vs(segment_id \<mapsto> (new_version_id, [])))"

definition manager_current_version :: "nat \<Rightarrow> version_manager \<Rightarrow> nat option" where
  "manager_current_version segment_id vs = map_option fst (vs segment_id)"

definition manager_version_history :: "nat \<Rightarrow> version_manager \<Rightarrow> nat list" where
  "manager_version_history segment_id vs =
     (case vs segment_id of Some (current, history) \<Rightarrow> history @ [current] | None \<Rightarrow> [])"

definition has_version :: "nat \<Rightarrow> version_manager \<Rightarrow> bool" where
  "has_version segment_id vs \<longleftrightarrow> vs segment_id \<noteq> None"

definition init_version :: "nat \<Rightarrow> nat \<Rightarrow> version_manager \<Rightarrow> version_manager" where
  "init_version segment_id initial_version_id vs = vs(segment_id \<mapsto> (initial_version_id, []))"

section \<open>Specification\<close>

text \<open>A manifest never has a history without a current version.\<close>

definition manifest_wf :: "base_segment_manifest \<Rightarrow> bool" where
  "manifest_wf m \<longleftrightarrow> (bm_current_version m = None \<longrightarrow> bm_history m = [])"

definition base_store_wf :: "base_store \<Rightarrow> bool" where
  "base_store_wf s \<longleftrightarrow> distinct (map fst s) \<and> list_all (\<lambda>(_, m). manifest_wf m) s"

text \<open>A sequence of installations, which stops at the first error.\<close>

fun install_all :: "(nat \<times> base_segment_version) list \<Rightarrow> base_store \<Rightarrow> (base_store, string) result" where
  "install_all [] s = Ok s"
| "install_all ((seg, v) # vs) s =
     (case install_base_version seg v s of Inl e \<Rightarrow> Err e | Inr t \<Rightarrow> install_all vs t)"

definition versions_for :: "nat \<Rightarrow> (nat \<times> base_segment_version) list \<Rightarrow> base_segment_version list" where
  "versions_for seg vs = map snd (filter (\<lambda>p. fst p = seg) vs)"

section \<open>A line of versions\<close>

text \<open>
  The contract of a versioned slot: the current version is the last of its line, and installing a
  version extends the line by it. Then a sequence of installations leaves exactly that sequence.
\<close>

locale version_line =
  fixes wf :: "'s \<Rightarrow> bool"
    and install :: "'v \<Rightarrow> 's \<Rightarrow> 's"
    and current :: "'s \<Rightarrow> 'v option"
    and line :: "'s \<Rightarrow> 'v list"
  assumes wf_install: "wf s \<Longrightarrow> wf (install v s)"
    and line_install: "wf s \<Longrightarrow> line (install v s) = line s @ [v]"
    and current_last: "wf s \<Longrightarrow> current s = (if line s = [] then None else Some (last (line s)))"
begin

lemma wf_installs: "wf s \<Longrightarrow> wf (fold install vs s)"
  by (induction vs arbitrary: s) (simp_all add: wf_install)

lemma line_installs: "wf s \<Longrightarrow> line (fold install vs s) = line s @ vs"
  by (induction vs arbitrary: s) (simp_all add: line_install wf_install)

lemma current_installs: "wf s \<Longrightarrow> current (fold install vs s) = (if vs = [] then current s else Some (last vs))"
  using wf_installs [of s vs] by (simp add: current_last line_installs)

end

interpretation managed: version_line "\<lambda>_. True" "promote_version seg" "manager_current_version seg"
  "manager_version_history seg" for seg
  by unfold_locales
    (auto simp: promote_version_def manager_current_version_def manager_version_history_def split: option.splits)

interpretation manifest: version_line manifest_wf swap_version bm_current_version manifest_versions
  by unfold_locales (auto simp: manifest_wf_def swap_version_def manifest_versions_def split: option.splits)

section \<open>The store as a family of lines\<close>

lemma base_store_wf_lookup: "base_store_wf s \<Longrightarrow> map_of s seg = Some m \<Longrightarrow> manifest_wf m"
  by (auto simp: base_store_wf_def list_all_iff dest: map_of_SomeD)

lemma base_store_wf_update:
  assumes "base_store_wf s" and "manifest_wf m"
  shows "base_store_wf (AList.update seg m s)"
proof -
  have "set (AList.update seg m s) \<subseteq> insert (seg, m) (set s)" by (induction s) auto
  with assms show ?thesis
    unfolding base_store_wf_def by (auto simp: list_all_iff distinct_update)
qed

lemma install_registered:
  assumes "map_of s seg = Some m"
  shows "install_base_version seg v s = Ok (AList.update seg (swap_version v m) s)"
  using assms by (simp add: install_base_version_def with_manifest_def)

lemma install_all_lines:
  assumes "base_store_wf s" and "\<forall>p\<in>set vs. map_of s (fst p) \<noteq> None"
  shows "\<exists>t. install_all vs s = Ok t \<and> base_store_wf t \<and>
    (\<forall>seg. map_of t seg = map_option (fold swap_version (versions_for seg vs)) (map_of s seg))"
  using assms
proof (induction vs arbitrary: s)
  case Nil
  then show ?case by (simp add: versions_for_def map_option.id [unfolded id_def])
next
  case (Cons p vs)
  obtain g v where p: "p = (g, v)" by (cases p)
  from Cons.prems(2) obtain m where m: "map_of s g = Some m" by (auto simp: p)
  let ?s = "AList.update g (swap_version v m) s"
  have wf: "base_store_wf ?s"
    using Cons.prems(1) base_store_wf_lookup [OF Cons.prems(1) m] manifest.wf_install
    by (intro base_store_wf_update) auto
  have "\<forall>p\<in>set vs. map_of ?s (fst p) \<noteq> None" using Cons.prems(2) by auto
  from Cons.IH [OF wf this] obtain t where t: "install_all vs ?s = Ok t" "base_store_wf t"
    "\<forall>seg. map_of t seg = map_option (fold swap_version (versions_for seg vs)) (map_of ?s seg)" by blast
  have "map_of t seg = map_option (fold swap_version (versions_for seg (p # vs))) (map_of s seg)" for seg
    using t(3) m by (simp add: p versions_for_def)
  with t install_registered [OF m] show ?case by (simp add: p)
qed

section \<open>Properties\<close>

text \<open>
  Base versions are installed in order and none is lost. On registered segments any sequence of
  installations succeeds; afterwards the history of each segment is its former history followed by
  the versions installed for it, in order, its current version is the last of them, and a row exists
  in the segment exactly when that version contains it. An installation into an unregistered segment
  is an error that names the segment.
\<close>

theorem base_store_versions:
  assumes "base_store_wf s" and "\<forall>p\<in>set vs. map_of s (fst p) \<noteq> None"
    and "get_version_history seg s = Ok old" and "versions_for seg vs \<noteq> []"
  shows "\<exists>t. install_all vs s = Ok t \<and>
    get_version_history seg t = Ok (old @ versions_for seg vs) \<and>
    get_current_version seg t = Ok (Some (last (versions_for seg vs))) \<and>
    row_exists seg row t = Ok (contains_row (last (versions_for seg vs)) row) \<and>
    (\<forall>g v. map_of s g = None \<longrightarrow> install_base_version g v t = Err (''Segment '' @ show_nat g @ '' not registered''))"
proof -
  obtain t where t: "install_all vs s = Ok t"
    "\<And>seg. map_of t seg = map_option (fold swap_version (versions_for seg vs)) (map_of s seg)"
    using install_all_lines [OF assms(1,2)] by blast
  obtain m where m: "map_of s seg = Some m" "manifest_versions m = old"
    using assms(3) by (auto simp: get_version_history_def with_manifest_def split: option.splits)
  from base_store_wf_lookup [OF assms(1) m(1)] have wf: "manifest_wf m" .
  have cur: "bm_current_version (fold swap_version (versions_for seg vs) m) = Some (last (versions_for seg vs))"
    using assms(4) by (simp add: manifest.current_installs [OF wf])
  show ?thesis
    using t cur manifest.line_installs [OF wf] m
    by (simp add: get_version_history_def get_current_version_def row_exists_def with_manifest_def
        install_base_version_def not_registered_def)
qed

theorem base_store_versions_witness:
  "\<exists>t. install_all [(1, base_segment_version_new 1 10 5 9 100), (2, base_segment_version_new 2 11 5 9 100),
        (1, base_segment_version_new 1 12 9 20 200)] (register_segment 2 (register_segment 1 [])) = Ok t \<and>
     get_current_version 1 t = Ok (Some (base_segment_version_new 1 12 9 20 200)) \<and>
     get_version_history 1 t = Ok [base_segment_version_new 1 10 5 9 100, base_segment_version_new 1 12 9 20 200]"
proof -
  let ?s = "register_segment 2 (register_segment 1 [])"
  have "base_store_wf ?s" "map_of ?s 1 \<noteq> None" "map_of ?s 2 \<noteq> None" "get_version_history 1 ?s = Ok []"
    by (simp_all add: base_store_wf_def register_segment_def manifest_wf_def base_segment_manifest_new_def
        get_version_history_def with_manifest_def manifest_versions_def)
  with base_store_versions [of ?s "[(1, base_segment_version_new 1 10 5 9 100), (2, base_segment_version_new 2 11 5 9 100),
        (1, base_segment_version_new 1 12 9 20 200)]" 1 "[]" 7]
  show ?thesis by (auto simp: versions_for_def)
qed

text \<open>
  The version manager keeps the same kind of line per segment: promoting versions one after the other
  makes the last one current and appends them to the history, for that segment only.
\<close>

lemma promoted_versions:
  "manager_version_history seg (fold (promote_version seg) vs ms) = manager_version_history seg ms @ vs"
  "vs \<noteq> [] \<Longrightarrow> manager_current_version seg (fold (promote_version seg) vs ms) = Some (last vs)"
  "other \<noteq> seg \<Longrightarrow> fold (promote_version seg) vs ms other = ms other"
proof -
  show "manager_version_history seg (fold (promote_version seg) vs ms) = manager_version_history seg ms @ vs"
    by (rule managed.line_installs) simp
  show "vs \<noteq> [] \<Longrightarrow> manager_current_version seg (fold (promote_version seg) vs ms) = Some (last vs)"
    by (simp add: managed.current_installs)
  show "other \<noteq> seg \<Longrightarrow> fold (promote_version seg) vs ms other = ms other"
    using fold_field [of "\<lambda>ms. ms other" "promote_version seg" vs ms]
    by (auto simp: promote_version_def split: option.splits)
qed

end
