(* ===== verification/Mvcc.thy ===== *)
theory Mvcc
  imports Vng_Prelude
begin

text \<open>
  The page-based MVCC row store of \<^verbatim>\<open>crates/voltnuerongrid-store/src/mvcc.rs\<close>: version chains and
  their visibility rule, pages, \<^verbatim>\<open>PagedRowStore\<close> with its write, read, scan, write-intent, eviction
  and snapshot-install operations.

  The store is abstracted to its \<open>history\<close>: for every key the chain of versions written to it. The
  locale \<open>versioned_store\<close> is the contract a client of the store relies on, stated on histories;
  the interpretation \<open>paged\<close> discharges it for \<^verbatim>\<open>PagedRowStore\<close> with unlimited capacity.
\<close>

section \<open>Row versions and version chains\<close>

type_synonym xid = nat

text \<open>\<^verbatim>\<open>RowData\<close>: column name to string-encoded value.\<close>

type_synonym row_data = "string \<rightharpoonup> string"

record row_version =
  rv_xid :: xid
  rv_deleted :: bool
  rv_data :: row_data

record mvcc_row =
  row_key :: string
  versions :: "row_version list"

definition mvcc_row_new :: "string \<Rightarrow> mvcc_row" where
  "mvcc_row_new k = \<lparr>row_key = k, versions = []\<rparr>"

text \<open>The backward walk of \<^verbatim>\<open>visible_at\<close>, on a chain.\<close>

definition chain_visible :: "row_version list \<Rightarrow> xid \<Rightarrow> row_data option" where
  "chain_visible vs snapshot_xid =
     (case find (\<lambda>v. rv_xid v \<le> snapshot_xid) (rev vs) of
        Some v \<Rightarrow> if rv_deleted v then None else Some (rv_data v)
      | None \<Rightarrow> None)"

definition visible_at :: "mvcc_row \<Rightarrow> xid \<Rightarrow> row_data option" where
  "visible_at r snapshot_xid = chain_visible (versions r) snapshot_xid"

definition push_version :: "xid \<Rightarrow> bool \<Rightarrow> row_data \<Rightarrow> mvcc_row \<Rightarrow> mvcc_row" where
  "push_version x del d r =
     r\<lparr>versions := versions r @ [\<lparr>rv_xid = x, rv_deleted = del, rv_data = d\<rparr>]\<rparr>"

definition version_count :: "mvcc_row \<Rightarrow> nat" where
  "version_count r = length (versions r)"

section \<open>Pages\<close>

record store_page =
  page_id :: nat
  page_rows :: "mvcc_row list"

definition store_page_new :: "nat \<Rightarrow> store_page" where
  "store_page_new i = \<lparr>page_id = i, page_rows = []\<rparr>"

definition find_row :: "store_page \<Rightarrow> string \<Rightarrow> mvcc_row option" where
  "find_row p k = find (\<lambda>r. row_key r = k) (page_rows p)"

text \<open>\<^verbatim>\<open>find_row_mut\<close> together with the mutation \<open>f\<close> of the row it returns.\<close>

definition find_row_mut :: "string \<Rightarrow> (mvcc_row \<Rightarrow> mvcc_row) \<Rightarrow> store_page \<Rightarrow> store_page option" where
  "find_row_mut k f p =
     map_option (\<lambda>rs. p\<lparr>page_rows := rs\<rparr>) (update_first (\<lambda>r. row_key r = k) f (page_rows p))"

definition page_len :: "store_page \<Rightarrow> nat" where
  "page_len p = length (page_rows p)"

text \<open>The loops over the pages that stop at the first page holding the key.\<close>

fun find_in_pages :: "store_page list \<Rightarrow> string \<Rightarrow> mvcc_row option" where
  "find_in_pages [] k = None"
| "find_in_pages (p # ps) k =
     (case find_row p k of Some r \<Rightarrow> Some r | None \<Rightarrow> find_in_pages ps k)"

fun update_in_pages ::
  "string \<Rightarrow> (mvcc_row \<Rightarrow> mvcc_row) \<Rightarrow> store_page list \<Rightarrow> store_page list option" where
  "update_in_pages k f [] = None"
| "update_in_pages k f (p # ps) =
     (case find_row_mut k f p of
        Some p' \<Rightarrow> Some (p' # ps)
      | None \<Rightarrow> map_option (Cons p) (update_in_pages k f ps))"

section \<open>The paged row store\<close>

record paged_row_store =
  pages :: "store_page list"
  page_size :: nat
  next_page_id :: nat
  next_xid :: xid
  write_intents :: "string \<rightharpoonup> xid"
  max_rows_cap :: nat

text \<open>\<^verbatim>\<open>new\<close> panics on a page size of zero.\<close>

definition paged_row_store_new :: "nat \<Rightarrow> paged_row_store option" where
  "paged_row_store_new sz =
     (if sz > 0
      then Some \<lparr>pages = [store_page_new 0], page_size = sz, next_page_id = 1, next_xid = 1,
                 write_intents = Map.empty, max_rows_cap = 0\<rparr>
      else None)"

definition set_max_rows_cap :: "paged_row_store \<Rightarrow> nat \<Rightarrow> paged_row_store" where
  "set_max_rows_cap s cap = s\<lparr>max_rows_cap := cap\<rparr>"

definition pages_row_count :: "store_page list \<Rightarrow> nat" where
  "pages_row_count ps = sum_list (map page_len ps)"

definition total_row_count :: "paged_row_store \<Rightarrow> nat" where
  "total_row_count s = pages_row_count (pages s)"

definition page_count :: "paged_row_store \<Rightarrow> nat" where
  "page_count s = length (pages s)"

text \<open>The \<^verbatim>\<open>while\<close> loop of \<^verbatim>\<open>maybe_evict\<close>: drop the oldest page while over the cap, keep one page.\<close>

fun evict_pages :: "nat \<Rightarrow> store_page list \<Rightarrow> store_page list" where
  "evict_pages cap [] = []"
| "evict_pages cap [p] = [p]"
| "evict_pages cap (p # q # ps) =
     (if pages_row_count (p # q # ps) > cap then evict_pages cap (q # ps) else p # q # ps)"

definition maybe_evict :: "paged_row_store \<Rightarrow> paged_row_store" where
  "maybe_evict s =
     (if max_rows_cap s = 0 then s else s\<lparr>pages := evict_pages (max_rows_cap s) (pages s)\<rparr>)"

definition begin_xid :: "paged_row_store \<Rightarrow> xid \<times> paged_row_store" where
  "begin_xid s = (next_xid s, s\<lparr>next_xid := next_xid s + 1\<rparr>)"

definition current_xid :: "paged_row_store \<Rightarrow> xid" where
  "current_xid s = next_xid s - 1"

definition ensure_tail_capacity :: "paged_row_store \<Rightarrow> paged_row_store" where
  "ensure_tail_capacity s =
     (if (case pages s of [] \<Rightarrow> 0 | p # ps \<Rightarrow> page_len (last (p # ps))) \<ge> page_size s
      then s\<lparr>next_page_id := next_page_id s + 1,
             pages := pages s @ [store_page_new (next_page_id s)]\<rparr>
      else s)"

text \<open>\<open>None\<close> is the panic of \<^verbatim>\<open>self.pages.last_mut().unwrap()\<close> on a store with no page.\<close>

definition store_insert ::
  "paged_row_store \<Rightarrow> xid \<Rightarrow> string \<Rightarrow> row_data \<Rightarrow> paged_row_store option" where
  "store_insert s x k d =
     (case update_in_pages k (push_version x False d) (pages s) of
        Some ps \<Rightarrow> Some (s\<lparr>pages := ps\<rparr>)
      | None \<Rightarrow>
          (let s1 = ensure_tail_capacity s;
               row = push_version x False d (mvcc_row_new k)
           in if pages s1 = [] then None
              else let tl = last (pages s1)
                   in Some (maybe_evict (s1\<lparr>pages := butlast (pages s1)
                                 @ [tl\<lparr>page_rows := page_rows tl @ [row]\<rparr>]\<rparr>))))"

definition store_delete :: "paged_row_store \<Rightarrow> xid \<Rightarrow> string \<Rightarrow> bool \<times> paged_row_store" where
  "store_delete s x k =
     (case update_in_pages k (push_version x True Map.empty) (pages s) of
        Some ps \<Rightarrow> (True, s\<lparr>pages := ps\<rparr>)
      | None \<Rightarrow> (False, s))"

definition read_at_snapshot :: "paged_row_store \<Rightarrow> string \<Rightarrow> xid \<Rightarrow> row_data option" where
  "read_at_snapshot s k snapshot_xid =
     (case find_in_pages (pages s) k of Some r \<Rightarrow> visible_at r snapshot_xid | None \<Rightarrow> None)"

definition read_latest :: "paged_row_store \<Rightarrow> string \<Rightarrow> row_data option" where
  "read_latest s k = read_at_snapshot s k (next_xid s - 1)"

definition all_rows :: "paged_row_store \<Rightarrow> mvcc_row list" where
  "all_rows s = concat (map page_rows (pages s))"

text \<open>
  The double loop of the two scans, over the rows in page order, with the set \<^verbatim>\<open>seen\<close> of keys
  already returned; \<open>eff\<close> gives the snapshot at which a key is read.
\<close>

fun scan_loop ::
  "(string \<Rightarrow> xid) \<Rightarrow> string list \<Rightarrow> mvcc_row list \<Rightarrow> (string \<times> row_data) list" where
  "scan_loop eff seen [] = []"
| "scan_loop eff seen (r # rs) =
     (if row_key r \<in> set seen then scan_loop eff seen rs
      else case visible_at r (eff (row_key r)) of
             Some d \<Rightarrow> (row_key r, d) # scan_loop eff (row_key r # seen) rs
           | None \<Rightarrow> scan_loop eff seen rs)"

definition scan_at_snapshot :: "paged_row_store \<Rightarrow> xid \<Rightarrow> (string \<times> row_data) list" where
  "scan_at_snapshot s snapshot_xid = scan_loop (\<lambda>_. snapshot_xid) [] (all_rows s)"

text \<open>The snapshot at which \<^verbatim>\<open>read_committed\<close> and \<^verbatim>\<open>scan_committed\<close> read a key.\<close>

definition effective_snapshot :: "paged_row_store \<Rightarrow> string \<Rightarrow> xid \<Rightarrow> xid \<Rightarrow> xid" where
  "effective_snapshot s k snapshot_xid reader_xid =
     (case write_intents s k of
        Some owner \<Rightarrow> if owner \<noteq> reader_xid then min snapshot_xid (owner - 1) else snapshot_xid
      | None \<Rightarrow> snapshot_xid)"

definition read_committed :: "paged_row_store \<Rightarrow> string \<Rightarrow> xid \<Rightarrow> xid \<Rightarrow> row_data option" where
  "read_committed s k snapshot_xid reader_xid =
     read_at_snapshot s k (effective_snapshot s k snapshot_xid reader_xid)"

definition scan_committed :: "paged_row_store \<Rightarrow> xid \<Rightarrow> xid \<Rightarrow> (string \<times> row_data) list" where
  "scan_committed s snapshot_xid reader_xid =
     scan_loop (\<lambda>k. effective_snapshot s k snapshot_xid reader_xid) [] (all_rows s)"

definition visible_row_count :: "paged_row_store \<Rightarrow> xid \<Rightarrow> nat" where
  "visible_row_count s snapshot_xid = length (scan_at_snapshot s snapshot_xid)"

definition begin_write_intent ::
  "paged_row_store \<Rightarrow> xid \<Rightarrow> string \<Rightarrow> (unit, xid) result \<times> paged_row_store" where
  "begin_write_intent s x k =
     (case write_intents s k of
        Some other \<Rightarrow>
          if other \<noteq> x then (Err other, s)
          else (Ok (), s\<lparr>write_intents := (write_intents s)(k \<mapsto> x)\<rparr>)
      | None \<Rightarrow> (Ok (), s\<lparr>write_intents := (write_intents s)(k \<mapsto> x)\<rparr>))"

definition release_write_intents :: "paged_row_store \<Rightarrow> xid \<Rightarrow> paged_row_store" where
  "release_write_intents s x =
     s\<lparr>write_intents := (\<lambda>k. case write_intents s k of
                               Some v \<Rightarrow> if v \<noteq> x then Some v else None
                             | None \<Rightarrow> None)\<rparr>"

definition was_modified_after :: "paged_row_store \<Rightarrow> string \<Rightarrow> xid \<Rightarrow> bool" where
  "was_modified_after s k since_xid =
     (case find_in_pages (pages s) k of
        Some r \<Rightarrow> list_ex (\<lambda>v. rv_xid v > since_xid) (versions r)
      | None \<Rightarrow> False)"

definition export_rows_snapshot :: "paged_row_store \<Rightarrow> (string \<times> row_data) list" where
  "export_rows_snapshot s = scan_at_snapshot s (current_xid s)"

definition fast_forward_xid :: "paged_row_store \<Rightarrow> xid \<Rightarrow> paged_row_store" where
  "fast_forward_xid s min_xid =
     (if min_xid > next_xid s then s\<lparr>next_xid := min_xid\<rparr> else s)"

fun insert_rows ::
  "xid \<Rightarrow> (string \<times> row_data) list \<Rightarrow> paged_row_store \<Rightarrow> paged_row_store option" where
  "insert_rows x [] s = Some s"
| "insert_rows x ((k, d) # rows) s =
     (case store_insert s x k d of Some s' \<Rightarrow> insert_rows x rows s' | None \<Rightarrow> None)"

definition replace_all ::
  "paged_row_store \<Rightarrow> (string \<times> row_data) list \<Rightarrow> paged_row_store option" where
  "replace_all s rows =
     (let s1 = s\<lparr>pages := [store_page_new 0], next_page_id := 1, write_intents := Map.empty\<rparr>;
          (x, s2) = begin_xid s1
      in insert_rows x rows s2)"

section \<open>Specification: histories\<close>

text \<open>The chain of versions written to a key; empty when the key was never written.\<close>

type_synonym history = "string \<Rightarrow> row_version list"

definition history :: "paged_row_store \<Rightarrow> history" where
  "history s k = (case find_in_pages (pages s) k of Some r \<Rightarrow> versions r | None \<Rightarrow> [])"

definition spec_put :: "xid \<Rightarrow> string \<Rightarrow> row_data \<Rightarrow> history \<Rightarrow> history" where
  "spec_put x k d h = h(k := h k @ [\<lparr>rv_xid = x, rv_deleted = False, rv_data = d\<rparr>])"

definition spec_del :: "xid \<Rightarrow> string \<Rightarrow> history \<Rightarrow> history" where
  "spec_del x k h =
     (if h k = [] then h
      else h(k := h k @ [\<lparr>rv_xid = x, rv_deleted = True, rv_data = Map.empty\<rparr>]))"

text \<open>Write requests a client of a versioned store issues, and their run.\<close>

datatype write_op = Put (op_xid: xid) (op_key: string) row_data | Del (op_xid: xid) (op_key: string)

fun spec_write :: "write_op \<Rightarrow> history \<Rightarrow> history" where
  "spec_write (Put x k d) h = spec_put x k d h"
| "spec_write (Del x k) h = spec_del x k h"

fun run_writes ::
  "('s \<Rightarrow> xid \<Rightarrow> string \<Rightarrow> row_data \<Rightarrow> 's option) \<Rightarrow> ('s \<Rightarrow> xid \<Rightarrow> string \<Rightarrow> bool \<times> 's) \<Rightarrow>
   write_op list \<Rightarrow> 's \<Rightarrow> 's option" where
  "run_writes put del [] s = Some s"
| "run_writes put del (Put x k d # ops) s =
     (case put s x k d of Some t \<Rightarrow> run_writes put del ops t | None \<Rightarrow> None)"
| "run_writes put del (Del x k # ops) s = run_writes put del ops (snd (del s x k))"

text \<open>Write-intent requests of interleaved transactions.\<close>

datatype intent_op = IBegin xid string | IReleaseAll xid

fun run_intent :: "intent_op \<Rightarrow> paged_row_store \<Rightarrow> paged_row_store" where
  "run_intent (IBegin x k) s = snd (begin_write_intent s x k)"
| "run_intent (IReleaseAll x) s = release_write_intents s x"

text \<open>
  The invariant of the store: at least one page, no page over its capacity, page ids ascending
  below \<^verbatim>\<open>next_page_id\<close>, every key on one page only, no row without a version.
\<close>

definition store_wf :: "paged_row_store \<Rightarrow> bool" where
  "store_wf s \<longleftrightarrow>
     pages s \<noteq> [] \<and> page_size s > 0 \<and>
     (\<forall>p\<in>set (pages s). page_len p \<le> page_size s) \<and>
     sorted_wrt (<) (map page_id (pages s) @ [next_page_id s]) \<and>
     distinct (map row_key (all_rows s)) \<and>
     (\<forall>r\<in>set (all_rows s). versions r \<noteq> []) \<and>
     next_xid s > 0"

text \<open>Every public operation that changes the store, as one step.\<close>

inductive store_step :: "paged_row_store \<Rightarrow> paged_row_store \<Rightarrow> bool" where
  step_set_cap: "store_step s (set_max_rows_cap s cap)"
| step_begin_xid: "begin_xid s = (x, t) \<Longrightarrow> store_step s t"
| step_insert: "store_insert s x k d = Some t \<Longrightarrow> store_step s t"
| step_delete: "store_delete s x k = (b, t) \<Longrightarrow> store_step s t"
| step_begin_intent: "begin_write_intent s x k = (r, t) \<Longrightarrow> store_step s t"
| step_release_intents: "store_step s (release_write_intents s x)"
| step_fast_forward: "store_step s (fast_forward_xid s x)"
| step_replace_all: "replace_all s rows = Some t \<Longrightarrow> store_step s t"

inductive_cases store_stepE: "store_step s t"

section \<open>Version chains\<close>

lemma chain_visible_snoc:
  "chain_visible (vs @ [v]) snap =
     (if rv_xid v \<le> snap then (if rv_deleted v then None else Some (rv_data v))
      else chain_visible vs snap)"
  by (simp add: chain_visible_def)

lemma chain_visible_Nil [simp]: "chain_visible [] snap = None"
  by (simp add: chain_visible_def)

lemma chain_visible_later:
  assumes "\<forall>v\<in>set ws. rv_xid v > snap"
  shows "chain_visible (vs @ ws) snap = chain_visible vs snap"
  using assms
  by (induction ws rule: rev_induct)
    (auto simp: chain_visible_snoc simp flip: append_assoc)

lemma chain_visible_SomeD:
  assumes "chain_visible vs snap = Some d"
  shows "\<exists>v\<in>set vs. rv_xid v \<le> snap \<and> \<not> rv_deleted v \<and> rv_data v = d"
  using assms
  by (induction vs rule: rev_induct) (auto simp: chain_visible_snoc split: if_splits)

text \<open>On an ascending chain the visible version is the one with the greatest xid in the snapshot.\<close>

lemma chain_visible_greatest:
  assumes "sorted (map rv_xid vs)" and "chain_visible vs snap = Some d"
  shows "\<exists>v\<in>set vs. rv_xid v \<le> snap \<and> rv_data v = d \<and> \<not> rv_deleted v \<and>
           (\<forall>w\<in>set vs. rv_xid w \<le> snap \<longrightarrow> rv_xid w \<le> rv_xid v)"
  using assms
proof (induction vs rule: rev_induct)
  case Nil
  then show ?case by simp
next
  case (snoc w vs)
  show ?case
  proof (cases "rv_xid w \<le> snap")
    case True
    with snoc.prems show ?thesis
      by (auto simp: chain_visible_snoc sorted_append split: if_splits)
  next
    case False
    with snoc.prems have "sorted (map rv_xid vs)" "chain_visible vs snap = Some d"
      by (auto simp: chain_visible_snoc sorted_append)
    with snoc.IH False show ?thesis by auto
  qed
qed

section \<open>Rows on pages\<close>

lemma mvcc_row_new_simps [simp]: "row_key (mvcc_row_new k) = k" "versions (mvcc_row_new k) = []"
  by (simp_all add: mvcc_row_new_def)

lemma find_in_pages_rows:
  "find_in_pages ps k = find (\<lambda>r. row_key r = k) (concat (map page_rows ps))"
  by (induction ps) (auto simp: find_row_def find_append split: option.splits)

lemma find_in_pages_None_iff:
  "find_in_pages ps k = None \<longleftrightarrow> k \<notin> row_key ` set (concat (map page_rows ps))"
  by (auto simp: find_in_pages_rows find_None_iff)

lemma update_in_pages_rows:
  "update_in_pages k f ps = Some qs \<Longrightarrow>
     update_first (\<lambda>r. row_key r = k) f (concat (map page_rows ps)) =
       Some (concat (map page_rows qs))"
proof (induction ps arbitrary: qs)
  case Nil
  then show ?case by simp
next
  case (Cons p ps)
  show ?case
  proof (cases "update_first (\<lambda>r. row_key r = k) f (page_rows p)")
    case None
    with Cons.prems obtain qs' where "update_in_pages k f ps = Some qs'" "qs = p # qs'"
      by (auto simp: find_row_mut_def simp del: update_first_None_iff)
    with Cons.IH None show ?thesis
      by (simp add: update_first_append del: update_first_None_iff)
  next
    case (Some rs)
    with Cons.prems show ?thesis
      by (auto simp: find_row_mut_def update_first_append)
  qed
qed

lemma update_in_pages_None_iff:
  "update_in_pages k f ps = None \<longleftrightarrow> k \<notin> row_key ` set (concat (map page_rows ps))"
  by (induction ps)
    (auto simp: find_row_mut_def image_Un dest: update_first_SomeD split: option.splits)

lemma update_in_pages_shape:
  "update_in_pages k f ps = Some qs \<Longrightarrow>
     map page_id qs = map page_id ps \<and> map page_len qs = map page_len ps"
  by (induction ps arbitrary: qs)
    (auto simp: find_row_mut_def page_len_def update_first_length split: option.splits)

lemma find_update_first_key:
  assumes "update_first (\<lambda>r. row_key r = k) f rs = Some rs'"
    and "\<And>r. row_key (f r) = row_key r"
  shows "find (\<lambda>r. row_key r = k') rs' =
    (if k' = k then map_option f (find (\<lambda>r. row_key r = k) rs)
     else find (\<lambda>r. row_key r = k') rs)"
  using assms(1)
  by (induction rs arbitrary: rs') (auto simp: assms(2) split: if_splits)

lemma set_update_first:
  "update_first P f xs = Some ys \<Longrightarrow> set ys \<subseteq> set xs \<union> f ` {x \<in> set xs. P x}"
  by (induction xs arbitrary: ys) (fastforce split: if_splits)+

lemma row_key_push_version [simp]: "row_key (push_version x b d r) = row_key r"
  by (simp add: push_version_def)

lemma versions_push_version [simp]:
  "versions (push_version x b d r) = versions r @ [\<lparr>rv_xid = x, rv_deleted = b, rv_data = d\<rparr>]"
  by (simp add: push_version_def)

section \<open>Operations on the history\<close>

lemma history_rows:
  "history s k = (case find (\<lambda>r. row_key r = k) (all_rows s) of Some r \<Rightarrow> versions r | None \<Rightarrow> [])"
  by (simp add: history_def find_in_pages_rows all_rows_def)

lemma read_at_snapshot_history [store_laws]:
  "read_at_snapshot s k snap = chain_visible (history s k) snap"
  by (auto simp: read_at_snapshot_def history_def visible_at_def split: option.splits)

lemma history_cong: "pages s = pages t \<Longrightarrow> history s = history t"
  by (rule ext) (simp add: history_def)

lemma update_row_history:
  assumes "update_in_pages k (push_version x b d) (pages s) = Some ps"
  shows "history (s\<lparr>pages := ps\<rparr>) =
           (history s)(k := history s k @ [\<lparr>rv_xid = x, rv_deleted = b, rv_data = d\<rparr>])"
proof
  fix k'
  have upd: "update_first (\<lambda>r. row_key r = k) (push_version x b d) (all_rows s) =
      Some (concat (map page_rows ps))"
    using update_in_pages_rows [OF assms] by (simp add: all_rows_def)
  from update_first_SomeD [OF upd] have "find (\<lambda>r. row_key r = k) (all_rows s) \<noteq> None"
    by (auto simp: find_None_iff)
  then obtain r where "find (\<lambda>r. row_key r = k) (all_rows s) = Some r"
    by blast
  then show "history (s\<lparr>pages := ps\<rparr>) k' =
      ((history s)(k := history s k @ [\<lparr>rv_xid = x, rv_deleted = b, rv_data = d\<rparr>])) k'"
    using find_update_first_key [OF upd, of k']
    by (auto simp: history_def find_in_pages_rows all_rows_def)
qed

lemma update_row_wf:
  assumes "update_in_pages k (push_version x b d) (pages s) = Some ps" and "store_wf s"
  shows "store_wf (s\<lparr>pages := ps\<rparr>)"
proof -
  note shape = update_in_pages_shape [OF assms(1)]
  have upd: "update_first (\<lambda>r. row_key r = k) (push_version x b d) (all_rows s) =
      Some (concat (map page_rows ps))"
    using update_in_pages_rows [OF assms(1)] by (simp add: all_rows_def)
  have keys: "map row_key (concat (map page_rows ps)) = map row_key (all_rows s)"
    by (rule update_first_map [OF upd]) simp
  have "\<forall>r\<in>set (concat (map page_rows ps)). versions r \<noteq> []"
  proof
    fix r assume "r \<in> set (concat (map page_rows ps))"
    then consider "r \<in> set (all_rows s)" | q where "r = push_version x b d q"
      using set_update_first [OF upd] by blast
    then show "versions r \<noteq> []"
      using assms(2) by cases (auto simp: store_wf_def)
  qed
  moreover have "page_len ` set ps = page_len ` set (pages s)"
    using shape by (metis set_map)
  moreover have "n \<le> page_size s" if "n \<in> page_len ` set (pages s)" for n
    using assms(2) that by (auto simp: store_wf_def)
  ultimately have "\<forall>p\<in>set ps. page_len p \<le> page_size s"
    and "\<forall>r\<in>set (concat (map page_rows ps)). versions r \<noteq> []"
    by blast+
  moreover have "ps \<noteq> []"
    using assms(2) shape by (auto simp: store_wf_def)
  moreover have "distinct (map row_key (concat (map page_rows ps)))"
    using assms(2) keys by (simp add: store_wf_def)
  ultimately show ?thesis
    using assms(2) shape by (simp add: store_wf_def all_rows_def)
qed

lemma update_row_existing:
  assumes "update_in_pages k f (pages s) = Some ps" and "store_wf s"
  shows "history s k \<noteq> []"
proof -
  have "find_in_pages (pages s) k \<noteq> None"
    using assms(1) update_in_pages_None_iff [of k f "pages s"]
    by (simp add: find_in_pages_None_iff)
  then obtain r where "find_in_pages (pages s) k = Some r" by blast
  moreover from this have "r \<in> set (all_rows s)"
    by (auto simp: find_in_pages_rows all_rows_def dest: find_SomeD)
  ultimately show ?thesis
    using assms(2) by (auto simp: history_def store_wf_def)
qed

lemma update_row_absent:
  "update_in_pages k f (pages s) = None \<Longrightarrow> k \<notin> row_key ` set (all_rows s) \<and> history s k = []"
  by (auto simp: update_in_pages_None_iff all_rows_def history_def find_in_pages_rows
      dest: find_SomeD split: option.splits)

lemma ensure_tail_capacity_cases:
  assumes "pages s \<noteq> []"
  shows "ensure_tail_capacity s =
    (if page_len (last (pages s)) \<ge> page_size s
     then s\<lparr>next_page_id := next_page_id s + 1,
            pages := pages s @ [store_page_new (next_page_id s)]\<rparr>
     else s)"
  using assms by (cases "pages s") (simp_all add: ensure_tail_capacity_def)

lemma store_page_new_simps [simp]:
  "page_id (store_page_new i) = i" "page_rows (store_page_new i) = []" "page_len (store_page_new i) = 0"
  by (simp_all add: store_page_new_def page_len_def)

lemma all_rows_ensure_tail_capacity [simp]: "all_rows (ensure_tail_capacity s) = all_rows s"
  by (simp add: ensure_tail_capacity_def all_rows_def)

lemma ensure_tail_capacity_wf:
  assumes "store_wf s"
  shows "store_wf (ensure_tail_capacity s)"
proof -
  have "pages s \<noteq> []" using assms by (simp add: store_wf_def)
  moreover have "sorted_wrt (<) (map page_id (pages s) @ [next_page_id s, next_page_id s + 1])"
    using assms unfolding store_wf_def by (fastforce simp: sorted_wrt_append)
  moreover have "all_rows (s\<lparr>next_page_id := i, pages := pages s @ [store_page_new j]\<rparr>) = all_rows s"
    for i j by (simp add: all_rows_def)
  ultimately show ?thesis
    using assms unfolding store_wf_def
    by (simp add: ensure_tail_capacity_cases)
qed

lemma ensure_tail_capacity_room:
  assumes "store_wf s"
  shows "page_len (last (pages (ensure_tail_capacity s))) < page_size s"
    and "pages (ensure_tail_capacity s) \<noteq> []"
  using assms by (simp_all add: ensure_tail_capacity_cases store_wf_def not_le)

lemma ensure_tail_capacity_simps [simp]:
  "page_size (ensure_tail_capacity s) = page_size s"
  "max_rows_cap (ensure_tail_capacity s) = max_rows_cap s"
  "next_xid (ensure_tail_capacity s) = next_xid s"
  "write_intents (ensure_tail_capacity s) = write_intents s"
  by (simp_all add: ensure_tail_capacity_def)

text \<open>The row appended to the tail page, before eviction.\<close>

definition append_row :: "paged_row_store \<Rightarrow> mvcc_row \<Rightarrow> paged_row_store" where
  "append_row s r =
     s\<lparr>pages := butlast (pages s) @
        [(last (pages s))\<lparr>page_rows := page_rows (last (pages s)) @ [r]\<rparr>]\<rparr>"

lemma all_rows_append_row:
  assumes "pages s \<noteq> []"
  shows "all_rows (append_row s r) = all_rows s @ [r]"
proof -
  have "concat (map page_rows (pages s)) =
      concat (map page_rows (butlast (pages s) @ [last (pages s)]))"
    using assms by simp
  then show ?thesis by (simp add: append_row_def all_rows_def)
qed

lemma append_row_wf:
  assumes "store_wf s" and "page_len (last (pages s)) < page_size s"
    and "row_key r \<notin> row_key ` set (all_rows s)" and "versions r \<noteq> []"
  shows "store_wf (append_row s r)"
proof -
  obtain ps p where ps: "pages s = ps @ [p]"
    using assms(1) unfolding store_wf_def by (metis rev_exhaust)
  then have rows: "all_rows (append_row s r) = all_rows s @ [r]"
    by (simp add: all_rows_append_row)
  have new: "pages (append_row s r) = ps @ [p\<lparr>page_rows := page_rows p @ [r]\<rparr>]"
    by (simp add: append_row_def ps)
  have len: "page_len (p\<lparr>page_rows := page_rows p @ [r]\<rparr>) = Suc (page_len p)"
    by (simp add: page_len_def)
  have fields: "page_size (append_row s r) = page_size s"
    "next_page_id (append_row s r) = next_page_id s" "next_xid (append_row s r) = next_xid s"
    by (simp_all add: append_row_def)
  have "distinct (map row_key (all_rows (append_row s r)))"
    and "\<forall>q\<in>set (all_rows (append_row s r)). versions q \<noteq> []"
    using assms unfolding rows store_wf_def by auto
  moreover have "\<forall>q\<in>set (pages (append_row s r)). page_len q \<le> page_size s"
    using assms(1,2) len unfolding store_wf_def ps new by auto
  moreover have "map page_id (pages (append_row s r)) = map page_id (pages s)"
    by (simp add: new ps)
  ultimately show ?thesis
    using assms(1) new unfolding store_wf_def fields by simp
qed

lemma history_append_row:
  assumes "pages s \<noteq> []" and "row_key r \<notin> row_key ` set (all_rows s)"
  shows "history (append_row s r) = (history s)(row_key r := versions r)"
proof
  fix k
  have "find (\<lambda>q. row_key q = row_key r) (all_rows s) = None"
    using assms(2) unfolding find_None_iff by (metis imageI)
  then show "history (append_row s r) k = ((history s)(row_key r := versions r)) k"
    by (simp add: history_rows all_rows_append_row [OF assms(1)] find_append split: option.split)
qed

section \<open>Eviction\<close>

lemma evict_pages_drop: "\<exists>n. evict_pages cap ps = drop n ps"
proof (induction cap ps rule: evict_pages.induct)
  case (3 cap p q ps)
  show ?case
  proof (cases "pages_row_count (p # q # ps) > cap")
    case True
    with 3 obtain n where "evict_pages cap (p # q # ps) = drop (Suc n) (p # q # ps)" by auto
    then show ?thesis by blast
  next
    case False
    then have "evict_pages cap (p # q # ps) = drop 0 (p # q # ps)" by simp
    then show ?thesis by blast
  qed
qed (auto intro: exI [of _ 0])

lemma evict_pages_nonempty: "ps \<noteq> [] \<Longrightarrow> evict_pages cap ps \<noteq> []"
  by (induction cap ps rule: evict_pages.induct) auto

lemma evict_pages_bound:
  "ps \<noteq> [] \<Longrightarrow> pages_row_count (evict_pages cap ps) \<le> cap \<or> length (evict_pages cap ps) = 1"
  by (induction cap ps rule: evict_pages.induct) (auto simp: not_less)

lemma drop_pages_wf:
  assumes "store_wf s" and "drop n (pages s) \<noteq> []"
  shows "store_wf (s\<lparr>pages := drop n (pages s)\<rparr>)"
proof -
  obtain qs where qs: "pages s = qs @ drop n (pages s)"
    by (metis append_take_drop_id)
  then have rows: "all_rows s = concat (map page_rows qs) @
      all_rows (s\<lparr>pages := drop n (pages s)\<rparr>)"
    unfolding all_rows_def by (metis concat_append map_append paged_row_store.select_convs(1)
        paged_row_store.surjective paged_row_store.update_convs(1))
  have "map page_id (pages s) @ [next_page_id s] = map page_id qs @
      (map page_id (drop n (pages s)) @ [next_page_id s])"
    using qs by (metis append_assoc map_append)
  then have "sorted_wrt (<) (map page_id (drop n (pages s)) @ [next_page_id s])"
    using assms(1) unfolding store_wf_def by (metis sorted_wrt_append)
  moreover have "distinct (map row_key (all_rows (s\<lparr>pages := drop n (pages s)\<rparr>)))"
    and "\<forall>r\<in>set (all_rows (s\<lparr>pages := drop n (pages s)\<rparr>)). versions r \<noteq> []"
    using assms(1) unfolding store_wf_def rows by simp_all
  moreover have "\<forall>p\<in>set (drop n (pages s)). page_len p \<le> page_size s"
    using assms(1) unfolding store_wf_def by (metis in_set_dropD)
  ultimately show ?thesis
    using assms unfolding store_wf_def by simp
qed

lemma maybe_evict_drop: "\<exists>n. maybe_evict s = s\<lparr>pages := drop n (pages s)\<rparr>"
proof (cases "max_rows_cap s = 0")
  case True
  then have "maybe_evict s = s\<lparr>pages := drop 0 (pages s)\<rparr>" by (simp add: maybe_evict_def)
  then show ?thesis by blast
next
  case False
  obtain n where "evict_pages (max_rows_cap s) (pages s) = drop n (pages s)"
    using evict_pages_drop by blast
  with False show ?thesis by (auto simp: maybe_evict_def)
qed

lemma maybe_evict_wf:
  assumes "store_wf s"
  shows "store_wf (maybe_evict s)"
proof -
  have "pages (maybe_evict s) \<noteq> []"
    using assms by (simp add: maybe_evict_def store_wf_def evict_pages_nonempty)
  then show ?thesis
    using maybe_evict_drop [of s] drop_pages_wf [OF assms] by auto
qed

section \<open>Writes implement the specification\<close>

lemma store_insert_new:
  assumes "store_wf s" and "update_in_pages k (push_version x False d) (pages s) = None"
  shows "store_insert s x k d =
    Some (maybe_evict (append_row (ensure_tail_capacity s)
      (push_version x False d (mvcc_row_new k))))"
  using assms ensure_tail_capacity_room(2) [OF assms(1)]
  by (simp add: store_insert_def Let_def append_row_def)

lemma append_new_row:
  assumes "store_wf s" and "update_in_pages k (push_version x False d) (pages s) = None"
  defines "t \<equiv> append_row (ensure_tail_capacity s) (push_version x False d (mvcc_row_new k))"
  shows "store_wf t" and "history t = spec_put x k d (history s)"
proof -
  let ?r = "push_version x False d (mvcc_row_new k)"
  let ?s = "ensure_tail_capacity s"
  note absent = update_row_absent [OF assms(2)]
  have r: "row_key ?r = k" "versions ?r = [\<lparr>rv_xid = x, rv_deleted = False, rv_data = d\<rparr>]"
    by simp_all
  show "store_wf t"
    unfolding t_def using absent
    by (intro append_row_wf ensure_tail_capacity_wf assms(1))
      (simp_all add: r ensure_tail_capacity_room(1) [OF assms(1)])
  have "history ?s = history s"
    by (intro ext) (simp add: history_rows)
  then show "history t = spec_put x k d (history s)"
    using history_append_row [of ?s ?r] ensure_tail_capacity_room(2) [OF assms(1)] absent
    by (simp add: t_def r spec_put_def)
qed

lemma store_insert_total:
  assumes "store_wf s"
  shows "\<exists>t. store_insert s x k d = Some t \<and> store_wf t"
proof (cases "update_in_pages k (push_version x False d) (pages s)")
  case None
  then show ?thesis
    using store_insert_new [OF assms None] append_new_row(1) [OF assms None]
    by (simp add: maybe_evict_wf)
next
  case (Some ps)
  then show ?thesis
    using update_row_wf [OF Some assms] by (simp add: store_insert_def)
qed

lemma store_insert_wf [inv_laws]: "store_wf s \<Longrightarrow> store_insert s x k d = Some t \<Longrightarrow> store_wf t"
  using store_insert_total [of s x k d] by auto

lemma maybe_evict_fields [simp]:
  "max_rows_cap (maybe_evict s) = max_rows_cap s" "next_xid (maybe_evict s) = next_xid s"
  "write_intents (maybe_evict s) = write_intents s" "page_size (maybe_evict s) = page_size s"
  by (simp_all add: maybe_evict_def)

lemma store_insert_fields:
  assumes "store_insert s x k d = Some t"
  shows "max_rows_cap t = max_rows_cap s" "next_xid t = next_xid s"
    "write_intents t = write_intents s" "page_size t = page_size s"
  using assms by (auto simp: store_insert_def Let_def split: option.splits if_splits)

lemma store_insert_history [store_laws]:
  assumes "store_wf s" and "max_rows_cap s = 0" and "store_insert s x k d = Some t"
  shows "history t = spec_put x k d (history s)"
proof (cases "update_in_pages k (push_version x False d) (pages s)")
  case None
  have "t = append_row (ensure_tail_capacity s) (push_version x False d (mvcc_row_new k))"
    using assms(2,3) store_insert_new [OF assms(1) None]
    by (simp add: maybe_evict_def append_row_def)
  then show ?thesis using append_new_row(2) [OF assms(1) None] by simp
next
  case (Some ps)
  then show ?thesis
    using assms(3) update_row_history [OF Some] by (simp add: store_insert_def spec_put_def)
qed

lemma store_delete_law [store_laws]:
  assumes "store_wf s" and "store_delete s x k = (b, t)"
  shows "store_wf t \<and> history t = spec_del x k (history s) \<and> b = (history s k \<noteq> []) \<and>
    max_rows_cap t = max_rows_cap s \<and> next_xid t = next_xid s"
proof (cases "update_in_pages k (push_version x True Map.empty) (pages s)")
  case None
  then show ?thesis
    using assms update_row_absent [OF None] by (simp add: store_delete_def spec_del_def)
next
  case (Some ps)
  then show ?thesis
    using assms update_row_wf [OF Some assms(1)] update_row_history [OF Some]
      update_row_existing [OF Some assms(1)]
    by (auto simp: store_delete_def spec_del_def)
qed

section \<open>Write intents under writes\<close>

lemma store_delete_intents [simp]: "write_intents (snd (store_delete s x k)) = write_intents s"
  by (simp add: store_delete_def split: option.split)

lemma run_writes_intents:
  "run_writes store_insert store_delete ops s = Some t \<Longrightarrow> write_intents t = write_intents s"
proof (induction ops arbitrary: s)
  case (Cons op ops)
  then show ?case
    by (cases op) (auto dest: store_insert_fields(3) split: option.splits)
qed simp

lemma insert_rows_intents: "insert_rows x rows s = Some t \<Longrightarrow> write_intents t = write_intents s"
  by (induction x rows s rule: insert_rows.induct)
    (auto dest: store_insert_fields(3) split: option.splits)

section \<open>The contract of a versioned store\<close>

text \<open>
  What the layers above rely on: writes never panic, extend the history as specified, and reads are
  determined by the history.
\<close>

locale versioned_store =
  fixes invar :: "'s \<Rightarrow> bool"
    and hist :: "'s \<Rightarrow> history"
    and put :: "'s \<Rightarrow> xid \<Rightarrow> string \<Rightarrow> row_data \<Rightarrow> 's option"
    and del :: "'s \<Rightarrow> xid \<Rightarrow> string \<Rightarrow> bool \<times> 's"
    and read :: "'s \<Rightarrow> string \<Rightarrow> xid \<Rightarrow> row_data option"
  assumes put_law: "invar s \<Longrightarrow> \<exists>t. put s x k d = Some t \<and> invar t \<and> hist t = spec_put x k d (hist s)"
    and del_law: "invar s \<Longrightarrow> invar (snd (del s x k)) \<and> hist (snd (del s x k)) = spec_del x k (hist s) \<and>
      fst (del s x k) = (hist s k \<noteq> [])"
    and read_law: "invar s \<Longrightarrow> read s k snap = chain_visible (hist s k) snap"
begin

lemma run_writes_hist:
  "invar s \<Longrightarrow> \<exists>t. run_writes put del ops s = Some t \<and> invar t \<and> hist t = fold spec_write ops (hist s)"
proof (induction ops arbitrary: s)
  case Nil
  then show ?case by simp
next
  case (Cons op ops)
  show ?case
  proof (cases op)
    case (Put x k d)
    obtain t where "put s x k d = Some t" "invar t" "hist t = spec_put x k d (hist s)"
      using put_law [OF Cons.prems] by blast
    with Cons.IH [of t] Put show ?thesis by simp
  next
    case (Del x k)
    with Cons.IH [of "snd (del s x k)"] del_law [OF Cons.prems] show ?thesis by simp
  qed
qed

lemma put_read_own:
  assumes "invar s" and "x \<le> snap" and "put s x k d = Some t"
  shows "read t k snap = Some d"
proof -
  have "invar t" "hist t = spec_put x k d (hist s)"
    using put_law [OF assms(1), of x k d] assms(3) by auto
  then show ?thesis
    using assms(2) by (simp add: read_law spec_put_def chain_visible_snoc)
qed

lemma del_read_none:
  assumes "invar s" and "x \<le> snap"
  shows "read (snd (del s x k)) k snap = None"
  using assms del_law [OF assms(1), of x k]
  by (simp add: read_law spec_del_def chain_visible_snoc)

end

text \<open>A write at an xid beyond the snapshot, and any sequence of them, is invisible in it.\<close>

lemma spec_write_invisible:
  "snap < op_xid op \<Longrightarrow> chain_visible (spec_write op h k) snap = chain_visible (h k) snap"
  by (cases op) (auto simp: spec_put_def spec_del_def chain_visible_snoc)

lemma spec_writes_invisible:
  "\<forall>op\<in>set ops. snap < op_xid op \<Longrightarrow>
     chain_visible (fold spec_write ops h k) snap = chain_visible (h k) snap"
  by (induction ops arbitrary: h) (simp_all add: spec_write_invisible)

context versioned_store
begin

lemma read_stable:
  assumes "invar s" and "\<forall>op\<in>set ops. snap < op_xid op"
  shows "\<exists>t. run_writes put del ops s = Some t \<and> invar t \<and> (\<forall>k. read t k snap = read s k snap)"
  using run_writes_hist [OF assms(1), of ops] assms(1) spec_writes_invisible [OF assms(2)]
  by (auto simp: read_law)

end

definition unbounded_wf :: "paged_row_store \<Rightarrow> bool" where
  "unbounded_wf s \<longleftrightarrow> store_wf s \<and> max_rows_cap s = 0"

interpretation paged: versioned_store unbounded_wf history store_insert store_delete read_at_snapshot
proof
  fix s x k d
  assume s: "unbounded_wf s"
  then show "\<exists>t. store_insert s x k d = Some t \<and> unbounded_wf t \<and> history t = spec_put x k d (history s)"
    using store_insert_total [of s x k d] store_insert_history [of s x k d] store_insert_fields(1)
    unfolding unbounded_wf_def by metis
  show "unbounded_wf (snd (store_delete s x k)) \<and>
      history (snd (store_delete s x k)) = spec_del x k (history s) \<and>
      fst (store_delete s x k) = (history s k \<noteq> [])"
    using s store_delete_law [of s x k "fst (store_delete s x k)" "snd (store_delete s x k)"]
    by (simp add: unbounded_wf_def)
qed (rule read_at_snapshot_history)

section \<open>The invariant holds in every reachable state\<close>

lemma store_wf_new: "paged_row_store_new n = Some s \<Longrightarrow> store_wf s \<and> max_rows_cap s = 0"
  by (auto simp: paged_row_store_new_def store_wf_def all_rows_def split: if_splits)

lemma store_wf_cong:
  assumes "store_wf s" "pages t = pages s" "page_size t = page_size s"
    "next_page_id t = next_page_id s" "next_xid t > 0"
  shows "store_wf t"
  using assms by (simp add: store_wf_def all_rows_def)

lemma store_wf_reset:
  assumes "store_wf s"
  shows "store_wf (s\<lparr>pages := [store_page_new 0], next_page_id := 1,
    write_intents := Map.empty, next_xid := i + 1\<rparr>)"
  using assms by (simp add: store_wf_def all_rows_def)

lemma insert_rows_wf:
  "store_wf s \<Longrightarrow> \<exists>t. insert_rows x rows s = Some t \<and> store_wf t \<and> next_xid t = next_xid s"
proof (induction rows arbitrary: s)
  case Nil
  then show ?case by simp
next
  case (Cons row rows)
  obtain k d where row: "row = (k, d)" by fastforce
  obtain u where u: "store_insert s x k d = Some u" "store_wf u"
    using store_insert_total [OF Cons.prems] by blast
  with Cons.IH [of u] store_insert_fields(2) [OF u(1)] row show ?case by simp
qed

lemma replace_all_wf:
  assumes "store_wf s"
  shows "\<exists>t. replace_all s rows = Some t \<and> store_wf t \<and> next_xid t = next_xid s + 1"
  using insert_rows_wf [OF store_wf_reset [OF assms], of "next_xid s" rows "next_xid s"]
  by (simp add: replace_all_def begin_xid_def)

lemma store_step_inv [inv_laws]:
  assumes "store_step s t" and "store_wf s"
  shows "store_wf t \<and> next_xid s \<le> next_xid t"
  using assms(1)
proof (cases rule: store_step.cases)
  case (step_insert x k d)
  then show ?thesis using assms(2) store_insert_wf store_insert_fields(2) by fastforce
next
  case (step_delete x k b)
  then show ?thesis using assms(2) store_delete_law by fastforce
next
  case (step_replace_all rows)
  then show ?thesis using replace_all_wf [OF assms(2), of rows] by auto
qed (use assms(2) in \<open>auto simp: set_max_rows_cap_def begin_xid_def begin_write_intent_def
    release_write_intents_def fast_forward_xid_def store_wf_def all_rows_def
    split: option.splits if_splits\<close>)

interpretation paged_inv: invariant_system
  "\<lambda>s. \<exists>n. paged_row_store_new n = Some s" store_step store_wf
  by unfold_locales (auto dest: store_wf_new store_step_inv)

section \<open>Scans\<close>

lemma scan_loop_correct:
  assumes "distinct (map row_key rs)" and "set seen \<inter> row_key ` set rs = {}"
  shows "map_of (scan_loop eff seen rs) k =
      (case find (\<lambda>r. row_key r = k) rs of Some r \<Rightarrow> visible_at r (eff k) | None \<Rightarrow> None)"
    and "distinct (map fst (scan_loop eff seen rs))"
    and "fst ` set (scan_loop eff seen rs) \<subseteq> row_key ` set rs"
proof -
  have "distinct (map fst (scan_loop eff seen rs)) \<and>
      fst ` set (scan_loop eff seen rs) \<subseteq> row_key ` set rs \<and>
      map_of (scan_loop eff seen rs) k =
      (case find (\<lambda>r. row_key r = k) rs of Some r \<Rightarrow> visible_at r (eff k) | None \<Rightarrow> None)"
    using assms
  proof (induction rs arbitrary: seen)
    case Nil
    then show ?case by simp
  next
    case (Cons r rs)
    have none: "find (\<lambda>q. row_key q = row_key r) rs = None"
      using Cons.prems(1) by (auto simp: find_None_iff image_iff)
    show ?case
    proof (cases "visible_at r (eff (row_key r))")
      case None
      with Cons.IH [of seen] Cons.prems none show ?thesis by auto
    next
      case (Some d)
      have "set (row_key r # seen) \<inter> row_key ` set rs = {}"
        using Cons.prems by auto
      with Cons.IH [of "row_key r # seen"] Cons.prems Some show ?thesis by auto
    qed
  qed
  then show "map_of (scan_loop eff seen rs) k =
      (case find (\<lambda>r. row_key r = k) rs of Some r \<Rightarrow> visible_at r (eff k) | None \<Rightarrow> None)"
    and "distinct (map fst (scan_loop eff seen rs))"
    and "fst ` set (scan_loop eff seen rs) \<subseteq> row_key ` set rs"
    by blast+
qed

lemma scan_loop_read:
  assumes "store_wf s"
  shows "distinct (map fst (scan_loop eff [] (all_rows s))) \<and>
    map_of (scan_loop eff [] (all_rows s)) k = read_at_snapshot s k (eff k)"
  using assms scan_loop_correct [of "all_rows s" "[]" eff]
  by (simp add: store_wf_def read_at_snapshot_def find_in_pages_rows all_rows_def)

lemma scan_at_snapshot_read:
  "store_wf s \<Longrightarrow> distinct (map fst (scan_at_snapshot s snap)) \<and>
     map_of (scan_at_snapshot s snap) k = read_at_snapshot s k snap"
  using scan_loop_read [of s "\<lambda>_. snap" k] by (simp add: scan_at_snapshot_def)

section \<open>Eviction and snapshot installation\<close>

lemma find_key_distinct:
  "distinct (map row_key rs) \<Longrightarrow> r \<in> set rs \<Longrightarrow> find (\<lambda>q. row_key q = row_key r) rs = Some r"
  by (induction rs) auto

lemma history_row:
  "store_wf s \<Longrightarrow> r \<in> set (all_rows s) \<Longrightarrow> history s (row_key r) = versions r"
  by (simp add: history_rows store_wf_def find_key_distinct)

lemma history_drop_pages:
  assumes "store_wf s" and "drop n (pages s) \<noteq> []"
  shows "history (s\<lparr>pages := drop n (pages s)\<rparr>) k \<in> {history s k, []}"
proof (cases "find (\<lambda>r. row_key r = k) (all_rows (s\<lparr>pages := drop n (pages s)\<rparr>))")
  case None
  then show ?thesis by (simp add: history_rows)
next
  case (Some r)
  then have "r \<in> set (all_rows (s\<lparr>pages := drop n (pages s)\<rparr>))" "row_key r = k"
    by (auto dest: find_SomeD)
  moreover from this have "r \<in> set (all_rows s)"
    by (auto simp: all_rows_def dest: in_set_dropD)
  ultimately have "history s k = versions r"
    using history_row [OF assms(1)] by auto
  with Some show ?thesis by (simp add: history_rows)
qed

lemma spec_put_rows:
  assumes "distinct (map fst rows)"
  shows "fold (\<lambda>(k, d). spec_put x k d) rows h k =
    h k @ (case map_of rows k of Some d \<Rightarrow> [\<lparr>rv_xid = x, rv_deleted = False, rv_data = d\<rparr>] | None \<Rightarrow> [])"
  using assms
proof (induction rows arbitrary: h)
  case Nil
  then show ?case by simp
next
  case (Cons row rows)
  obtain k' d where row: "row = (k', d)" by fastforce
  with Cons.prems have "map_of rows k' = None" by (auto simp: map_of_eq_None_iff)
  with Cons row show ?case by (simp add: spec_put_def)
qed

lemma insert_rows_history:
  "store_wf s \<Longrightarrow> max_rows_cap s = 0 \<Longrightarrow> insert_rows x rows s = Some t \<Longrightarrow>
     history t = fold (\<lambda>(k, d). spec_put x k d) rows (history s)"
proof (induction rows arbitrary: s)
  case Nil
  then show ?case by simp
next
  case (Cons row rows)
  obtain k d where row: "row = (k, d)" by fastforce
  obtain u where u: "store_insert s x k d = Some u" "store_wf u"
    using store_insert_total [OF Cons.prems(1)] by blast
  with Cons.IH [of u] Cons.prems store_insert_fields(1) [OF u(1)] store_insert_history [OF _ _ u(1)] row
  show ?case by simp
qed

lemma replace_all_history:
  assumes "store_wf s" and "max_rows_cap s = 0" and "distinct (map fst rows)"
    and "replace_all s rows = Some t"
  shows "history t k =
    (case map_of rows k of
       Some d \<Rightarrow> [\<lparr>rv_xid = next_xid s, rv_deleted = False, rv_data = d\<rparr>] | None \<Rightarrow> [])"
proof -
  let ?s = "s\<lparr>pages := [store_page_new 0], next_page_id := 1, write_intents := Map.empty,
    next_xid := next_xid s + 1\<rparr>"
  have "insert_rows (next_xid s) rows ?s = Some t"
    using assms(4) by (simp add: replace_all_def begin_xid_def)
  moreover have "history ?s k = []"
    by (simp add: history_def find_row_def)
  ultimately show ?thesis
    using insert_rows_history [OF store_wf_reset [OF assms(1)], of "next_xid s" "next_xid s" rows t]
      assms(2) spec_put_rows [OF assms(3), of "next_xid s" "history ?s" k]
    by simp
qed

lemma snapshot_install:
  assumes "store_wf leader" and "store_wf follower" and "max_rows_cap follower = 0"
  shows "\<exists>t. replace_all follower (export_rows_snapshot leader) = Some t \<and> store_wf t \<and>
    (\<forall>k. read_latest t k = read_latest leader k) \<and> next_xid t = next_xid follower + 1 \<and>
    write_intents t = Map.empty"
proof -
  let ?rows = "export_rows_snapshot leader"
  obtain t where t: "replace_all follower ?rows = Some t" "store_wf t" "next_xid t = next_xid follower + 1"
    using replace_all_wf [OF assms(2)] by blast
  have rows: "distinct (map fst ?rows)" "map_of ?rows k = read_latest leader k" for k
    using scan_at_snapshot_read [OF assms(1)]
    by (simp_all add: export_rows_snapshot_def read_latest_def current_xid_def)
  have "read_latest t k = read_latest leader k" for k
    using replace_all_history [OF assms(2,3) rows(1) t(1), of k] t(3)
    by (auto simp: read_latest_def read_at_snapshot_history rows(2) chain_visible_def split: option.splits)
  moreover have "write_intents t = Map.empty"
    using t(1) insert_rows_intents by (fastforce simp: replace_all_def begin_xid_def)
  ultimately show ?thesis using t by blast
qed

section \<open>Properties\<close>

text \<open>
  A fresh store with two-row pages, and the same store with one committed row, for the witnesses.
\<close>

definition fresh_store :: paged_row_store where
  "fresh_store = \<lparr>pages = [store_page_new 0], page_size = 2, next_page_id = 1, next_xid = 1,
                  write_intents = Map.empty, max_rows_cap = 0\<rparr>"

lemma fresh_store_new: "paged_row_store_new 2 = Some fresh_store"
  by (simp add: paged_row_store_new_def fresh_store_def)

lemma fresh_store_wf [simp]: "store_wf fresh_store" "max_rows_cap fresh_store = 0"
  using store_wf_new [OF fresh_store_new] by simp_all

text \<open>
  C2: Writes implement the history specification. On a well-formed store without a row cap, every
  sequence of inserts and deletes runs without a panic, keeps the store well formed, and leaves
  exactly the history the specification computes; every snapshot read is determined by it.
\<close>

theorem mvcc_writes_refine_history:
  assumes "store_wf s" and "max_rows_cap s = 0"
  shows "\<exists>t. run_writes store_insert store_delete ops s = Some t \<and> store_wf t \<and>
    history t = fold spec_write ops (history s) \<and>
    (\<forall>k snap. read_at_snapshot t k snap = chain_visible (fold spec_write ops (history s) k) snap)"
  using paged.run_writes_hist [of s ops] assms paged.read_law
  by (auto simp: unbounded_wf_def)

theorem mvcc_writes_refine_history_witness:
  "\<exists>t. run_writes store_insert store_delete [Put 1 ''k'' Map.empty, Del 2 ''k''] fresh_store = Some t \<and>
    read_at_snapshot t ''k'' 1 = Some Map.empty \<and> read_at_snapshot t ''k'' 2 = None"
  using mvcc_writes_refine_history [of fresh_store "[Put 1 ''k'' Map.empty, Del 2 ''k'']"]
  by (auto simp: spec_put_def spec_del_def chain_visible_def)





text \<open>
  C28: Both scans return each key at most once and agree with the point reads: the plain scan with
  \<^verbatim>\<open>read_at_snapshot\<close>, the committed scan with \<^verbatim>\<open>read_committed\<close>.
\<close>

theorem mvcc_scans_agree_with_reads:
  assumes "store_wf s"
  shows "distinct (map fst (scan_at_snapshot s snap)) \<and>
    map_of (scan_at_snapshot s snap) k = read_at_snapshot s k snap \<and>
    distinct (map fst (scan_committed s snap reader)) \<and>
    map_of (scan_committed s snap reader) k = read_committed s k snap reader"
  using scan_at_snapshot_read [OF assms]
    scan_loop_read [OF assms, of "\<lambda>k. effective_snapshot s k snap reader"]
  by (simp add: scan_committed_def read_committed_def)

theorem mvcc_scans_agree_with_reads_witness:
  "map_of (scan_committed fresh_store 3 0) ''k'' = read_committed fresh_store ''k'' 3 0"
  using mvcc_scans_agree_with_reads [of fresh_store 3 "''k''" 0] by simp



text \<open>
  Write intents exclude each other. Once a transaction has registered an intent on a key, every
  attempt of another transaction fails with the holder's xid, whatever intents are registered and
  released in between, until the holder releases its own.
\<close>

theorem mvcc_write_intent_exclusive:
  assumes "begin_write_intent s x k = (Ok (), t)"
    and "IReleaseAll x \<notin> set ops" and "y \<noteq> x"
  shows "fst (begin_write_intent (fold run_intent ops t) y k) = Err x \<and>
    fst (begin_write_intent (fold run_intent ops t) x k) = Ok ()"
proof -
  have "write_intents t k = Some x"
    using assms(1) by (auto simp: begin_write_intent_def split: option.splits if_splits)
  then have "write_intents (fold run_intent ops t) k = Some x"
    using assms(2)
  proof (induction ops arbitrary: t)
    case Nil
    then show ?case by simp
  next
    case (Cons op ops)
    have "write_intents (run_intent op t) k = Some x"
      using Cons.prems
      by (cases op) (auto simp: begin_write_intent_def release_write_intents_def split: option.splits)
    with Cons show ?case by simp
  qed
  with assms(3) show ?thesis by (simp add: begin_write_intent_def)
qed

theorem mvcc_write_intent_exclusive_witness:
  "fst (begin_write_intent (fold run_intent [IBegin 2 ''k'', IReleaseAll 2]
     (snd (begin_write_intent fresh_store 1 ''k''))) 3 ''k'') = Err 1"
  using mvcc_write_intent_exclusive
    [of fresh_store 1 "''k''" "snd (begin_write_intent fresh_store 1 ''k'')"
      "[IBegin 2 ''k'', IReleaseAll 2]" 3]
  by (simp add: begin_write_intent_def fresh_store_def)

text \<open>
  Optimistic validation is sound. When \<^verbatim>\<open>was_modified_after\<close> denies a change of the key after an
  xid, reading the key at that xid and at any later snapshot gives the same answer.
\<close>

theorem mvcc_unmodified_reads_same:
  assumes "\<not> was_modified_after s k since" and "since \<le> snap"
  shows "read_at_snapshot s k snap = read_at_snapshot s k since"
proof -
  have old: "\<forall>v\<in>set (history s k). rv_xid v \<le> since"
    using assms(1)
    by (auto simp: was_modified_after_def history_def list_ex_iff not_less split: option.splits)
  then have "find (\<lambda>v. rv_xid v \<le> n) (rev (history s k)) = find (\<lambda>_. True) (rev (history s k))"
    if "since \<le> n" for n
    using that by (intro find_cong) (auto intro: order_trans)
  then show ?thesis
    using assms(2) by (simp add: read_at_snapshot_history chain_visible_def)
qed

theorem mvcc_unmodified_reads_same_witness:
  "read_at_snapshot fresh_store ''k'' 8 = read_at_snapshot fresh_store ''k'' 3"
  using mvcc_unmodified_reads_same [of fresh_store "''k''" 3 8]
  by (simp add: was_modified_after_def fresh_store_def find_row_def)

text \<open>
  Eviction. Inserting a new key into a store with a row cap drops only whole pages from the old
  end until the cap is met or one page is left; the new row survives, and every other key keeps its
  full version chain or loses it entirely.
\<close>

theorem mvcc_eviction:
  assumes "store_wf s" and "max_rows_cap s > 0" and "history s k = []"
    and "store_insert s x k d = Some t"
  shows "(total_row_count t \<le> max_rows_cap s \<or> page_count t = 1) \<and>
    history t k = [\<lparr>rv_xid = x, rv_deleted = False, rv_data = d\<rparr>] \<and>
    (\<forall>k'. k' \<noteq> k \<longrightarrow> history t k' = history s k' \<or> history t k' = [])"
proof -
  let ?r = "push_version x False d (mvcc_row_new k)"
  let ?u = "append_row (ensure_tail_capacity s) ?r"
  have none: "update_in_pages k (push_version x False d) (pages s) = None"
    using assms(1,3) update_row_existing by (metis not_None_eq)
  note u = append_new_row [OF assms(1) none]
  have t: "t = maybe_evict ?u" using assms(4) store_insert_new [OF assms(1) none] by simp
  obtain n where n: "t = ?u\<lparr>pages := drop n (pages ?u)\<rparr>"
    using maybe_evict_drop t by metis
  have wf: "store_wf t" using maybe_evict_wf u(1) t by simp
  then have ne: "drop n (pages ?u) \<noteq> []" using n by (simp add: store_wf_def)
  have "last (pages t) = last (pages ?u)" using n ne by simp
  moreover have "?r \<in> set (page_rows (last (pages ?u)))" by (simp add: append_row_def)
  moreover have "last (pages t) \<in> set (pages t)" using wf by (simp add: store_wf_def)
  ultimately have "?r \<in> set (all_rows t)" unfolding all_rows_def by force
  then have "history t k = versions ?r" using history_row [OF wf, of ?r] by simp
  moreover have "history t k' = history s k' \<or> history t k' = []" if "k' \<noteq> k" for k'
    using history_drop_pages [OF u(1) ne, of k'] that by (simp add: u(2) spec_put_def flip: n)
  moreover have "max_rows_cap ?u = max_rows_cap s" "pages ?u \<noteq> []"
    using u(1) by (simp_all add: append_row_def store_wf_def)
  then have "total_row_count t \<le> max_rows_cap s \<or> page_count t = 1"
    using t assms(2) evict_pages_bound [of "pages ?u" "max_rows_cap s"]
    by (simp add: maybe_evict_def total_row_count_def page_count_def)
  ultimately show ?thesis by simp
qed

theorem mvcc_eviction_witness:
  "\<exists>t. store_insert (set_max_rows_cap fresh_store 1) 1 ''k'' Map.empty = Some t \<and> page_count t = 1 \<and>
    history t ''k'' = [\<lparr>rv_xid = 1, rv_deleted = False, rv_data = Map.empty\<rparr>]"
proof -
  let ?s = "set_max_rows_cap fresh_store 1"
  have s: "store_wf ?s" "max_rows_cap ?s > 0" "history ?s ''k'' = []"
    by (simp_all add: set_max_rows_cap_def fresh_store_def store_wf_def all_rows_def history_def
        find_row_def)
  obtain t where t: "store_insert ?s 1 ''k'' Map.empty = Some t"
    using store_insert_total [OF s(1)] by blast
  moreover from t have "page_count t = 1"
    by (auto simp: set_max_rows_cap_def fresh_store_def store_insert_def find_row_mut_def
        ensure_tail_capacity_def maybe_evict_def page_count_def)
  ultimately show ?thesis using mvcc_eviction [OF s t] by blast
qed

text \<open>
  Snapshot installation. Installing the rows exported by one store into another (no row cap)
  cannot panic, gives the receiver exactly the exporter's latest visible rows, clears its write
  intents and advances its xid counter by one.
\<close>

theorem mvcc_snapshot_install_roundtrip:
  assumes "store_wf leader" and "store_wf follower" and "max_rows_cap follower = 0"
  shows "\<exists>t. replace_all follower (export_rows_snapshot leader) = Some t \<and> store_wf t \<and>
    (\<forall>k. read_latest t k = read_latest leader k) \<and> next_xid t = next_xid follower + 1 \<and>
    write_intents t = Map.empty"
  using snapshot_install [OF assms] .

theorem mvcc_snapshot_install_roundtrip_witness:
  "\<exists>t. replace_all fresh_store (export_rows_snapshot fresh_store) = Some t \<and> next_xid t = 2"
proof -
  have "next_xid fresh_store + 1 = 2" by (simp add: fresh_store_def)
  then show ?thesis
    using mvcc_snapshot_install_roundtrip [OF fresh_store_wf(1) fresh_store_wf] by metis
qed

end
