(* ===== verification/Tail_Store.thy ===== *)
theory Tail_Store
  imports Mvcc Vng_Text
begin

text \<open>
  The timestamp-based views of the row store in \<^verbatim>\<open>mvcc.rs\<close>: the \<^verbatim>\<open>TailStore\<close> implementation of
  \<^verbatim>\<open>PagedRowStore\<close> (rows addressed by id, versions as \<^verbatim>\<open>TailVersion\<close> of \<^verbatim>\<open>segment.rs\<close>) and the bridging
  row \<^verbatim>\<open>MvccRowV2\<close>. Payloads are byte strings; \<open>lossy\<close> stands for \<^verbatim>\<open>String::from_utf8_lossy\<close> and is an
  argument of the operation that uses it.
\<close>

section \<open>Versions\<close>

record tail_version =
  tv_row_id :: nat
  tv_version_id :: nat
  tv_begin_ts :: nat
  tv_end_ts :: "nat option"
  tv_prev_version :: "nat option"
  tv_tombstone :: bool
  tv_payload :: string

definition tail_version_new :: "nat \<Rightarrow> nat \<Rightarrow> nat \<Rightarrow> string \<Rightarrow> tail_version" where
  "tail_version_new r v ts p =
     \<lparr>tv_row_id = r, tv_version_id = v, tv_begin_ts = ts, tv_end_ts = None, tv_prev_version = None,
      tv_tombstone = False, tv_payload = p\<rparr>"

definition tail_version_tombstone :: "nat \<Rightarrow> nat \<Rightarrow> nat \<Rightarrow> tail_version" where
  "tail_version_tombstone r v ts =
     \<lparr>tv_row_id = r, tv_version_id = v, tv_begin_ts = ts, tv_end_ts = Some ts, tv_prev_version = None,
      tv_tombstone = True, tv_payload = []\<rparr>"

section \<open>The tail store\<close>

definition tail_key :: "nat \<Rightarrow> string" where
  "tail_key r = ''row:'' @ show_nat r"

definition payload_of :: "row_data \<Rightarrow> string" where
  "payload_of d = (case d ''_payload'' of Some p \<Rightarrow> p | None \<Rightarrow> [])"

definition insert_version ::
  "(string \<Rightarrow> string) \<Rightarrow> paged_row_store \<Rightarrow> nat \<Rightarrow> tail_version \<Rightarrow> paged_row_store option" where
  "insert_version lossy s r v =
     (if tv_tombstone v then Some (snd (store_delete s (tv_begin_ts v) (tail_key r)))
      else store_insert s (tv_begin_ts v) (tail_key r) [''_payload'' \<mapsto> lossy (tv_payload v)])"

definition get_latest_version :: "paged_row_store \<Rightarrow> nat \<Rightarrow> nat \<Rightarrow> tail_version option" where
  "get_latest_version s r snapshot_ts =
     (case find_in_pages (pages s) (tail_key r) of
        None \<Rightarrow> None
      | Some row \<Rightarrow>
          (case visible_at row snapshot_ts of
             None \<Rightarrow> None
           | Some d \<Rightarrow>
               Some \<lparr>tv_row_id = r, tv_version_id = version_count row,
                     tv_begin_ts = (if versions row = [] then 0 else rv_xid (last (versions row))),
                     tv_end_ts = None, tv_prev_version = None, tv_tombstone = False,
                     tv_payload = payload_of d\<rparr>))"

definition chain_entry :: "nat \<Rightarrow> nat \<Rightarrow> row_version \<Rightarrow> tail_version" where
  "chain_entry r idx v =
     \<lparr>tv_row_id = r, tv_version_id = idx + 1, tv_begin_ts = rv_xid v, tv_end_ts = None,
      tv_prev_version = (if idx > 0 then Some idx else None), tv_tombstone = rv_deleted v,
      tv_payload = (if rv_deleted v then [] else payload_of (rv_data v))\<rparr>"

definition get_version_chain :: "paged_row_store \<Rightarrow> nat \<Rightarrow> tail_version list" where
  "get_version_chain s r =
     (case find_in_pages (pages s) (tail_key r) of
        None \<Rightarrow> []
      | Some row \<Rightarrow> map (\<lambda>(idx, v). chain_entry r idx v) (enumerate 0 (versions row)))"

definition delete_row :: "paged_row_store \<Rightarrow> nat \<Rightarrow> nat \<Rightarrow> paged_row_store" where
  "delete_row s r commit_ts = snd (store_delete s commit_ts (tail_key r))"

section \<open>The bridging row\<close>

record mvcc_row_v2 =
  v2_key :: string
  v2_versions :: "row_version list"
  v2_version_index :: "nat \<rightharpoonup> nat"

definition mvcc_row_v2_new :: "string \<Rightarrow> mvcc_row_v2" where
  "mvcc_row_v2_new k = \<lparr>v2_key = k, v2_versions = [], v2_version_index = Map.empty\<rparr>"

definition get_latest_tail_version :: "mvcc_row_v2 \<Rightarrow> nat \<Rightarrow> row_version option" where
  "get_latest_tail_version r snapshot_ts =
     (case find (\<lambda>v. rv_xid v \<le> snapshot_ts) (rev (v2_versions r)) of
        Some v \<Rightarrow> if rv_deleted v then None else Some v
      | None \<Rightarrow> None)"

definition get_tail_version_chain :: "mvcc_row_v2 \<Rightarrow> row_version list" where
  "get_tail_version_chain r = rev (v2_versions r)"

definition append_tail_version :: "mvcc_row_v2 \<Rightarrow> row_version \<Rightarrow> mvcc_row_v2" where
  "append_tail_version r v =
     r\<lparr>v2_version_index := (v2_version_index r)(length (v2_versions r) \<mapsto> length (v2_versions r)),
       v2_versions := v2_versions r @ [v]\<rparr>"

definition delete_at_ts :: "mvcc_row_v2 \<Rightarrow> xid \<Rightarrow> (mvcc_row_v2, string) result" where
  "delete_at_ts r ts =
     (if v2_versions r = [] then Err ''Row is empty''
      else Ok (append_tail_version r \<lparr>rv_xid = ts, rv_deleted = True, rv_data = Map.empty\<rparr>))"

definition row_v2_visible_at :: "mvcc_row_v2 \<Rightarrow> nat \<Rightarrow> bool" where
  "row_v2_visible_at r snapshot_ts = (get_latest_tail_version r snapshot_ts \<noteq> None)"

section \<open>Lemmas\<close>

lemma tail_key_inj: "tail_key r = tail_key r' \<Longrightarrow> r = r'"
  by (simp add: tail_key_def show_nat_inj)

lemma get_latest_version_history:
  assumes "store_wf s"
  shows "get_latest_version s r snap =
    map_option (\<lambda>d. \<lparr>tv_row_id = r, tv_version_id = length (history s (tail_key r)),
        tv_begin_ts = rv_xid (last (history s (tail_key r))), tv_end_ts = None, tv_prev_version = None,
        tv_tombstone = False, tv_payload = payload_of d\<rparr>)
      (chain_visible (history s (tail_key r)) snap)"
proof (cases "find_in_pages (pages s) (tail_key r)")
  case None
  then show ?thesis by (simp add: get_latest_version_def history_def)
next
  case (Some row)
  then have "row \<in> set (all_rows s)"
    by (auto simp: find_in_pages_rows all_rows_def dest: find_SomeD)
  then have "versions row \<noteq> []" using assms by (auto simp: store_wf_def)
  with Some show ?thesis
    by (simp add: get_latest_version_def history_def visible_at_def version_count_def split: option.split)
qed

lemma get_version_chain_history:
  "get_version_chain s r = map (\<lambda>(idx, v). chain_entry r idx v) (enumerate 0 (history s (tail_key r)))"
  by (simp add: get_version_chain_def history_def split: option.split)

lemma insert_version_law:
  assumes "unbounded_wf s"
  shows "\<exists>t. insert_version lossy s r v = Some t \<and> unbounded_wf t \<and>
    history t = (if tv_tombstone v then spec_del (tv_begin_ts v) (tail_key r) (history s)
                 else spec_put (tv_begin_ts v) (tail_key r) [''_payload'' \<mapsto> lossy (tv_payload v)] (history s))"
  using paged.put_law [OF assms] paged.del_law [OF assms]
  by (simp add: insert_version_def)

section \<open>Properties\<close>

text \<open>
  The tail store by row id. Inserting a version and reading the row at a snapshot that includes it
  returns its payload (nothing for a tombstone), rows with other ids read as before, and the version
  chain grows by one entry that is numbered consecutively and points to its predecessor.
\<close>

theorem tail_store_insert_read:
  assumes "store_wf s" and "max_rows_cap s = 0" and "tv_begin_ts v \<le> snap"
  shows "\<exists>t. insert_version lossy s r v = Some t \<and>
    map_option tv_payload (get_latest_version t r snap) = (if tv_tombstone v then None else Some (lossy (tv_payload v))) \<and>
    (\<forall>r' \<noteq> r. get_latest_version t r' snap = get_latest_version s r' snap) \<and>
    map tv_version_id (get_version_chain t r) = [1..<length (get_version_chain t r) + 1] \<and>
    (tv_tombstone v \<and> get_version_chain s r = [] \<or>
     length (get_version_chain t r) = length (get_version_chain s r) + 1 \<and>
     tv_begin_ts (last (get_version_chain t r)) = tv_begin_ts v \<and>
     tv_prev_version (last (get_version_chain t r)) =
       (if get_version_chain s r = [] then None else Some (length (get_version_chain s r))))"
proof -
  let ?k = "tail_key r"
  have "unbounded_wf s" using assms by (simp add: unbounded_wf_def)
  then obtain t where t: "insert_version lossy s r v = Some t" "store_wf t"
    and h: "history t = (if tv_tombstone v then spec_del (tv_begin_ts v) ?k (history s)
        else spec_put (tv_begin_ts v) ?k [''_payload'' \<mapsto> lossy (tv_payload v)] (history s))"
    using insert_version_law [of s lossy r v] by (auto simp: unbounded_wf_def)
  have "history t (tail_key r') = history s (tail_key r')" if "r' \<noteq> r" for r'
    using that tail_key_inj [of r' r] by (auto simp: h spec_put_def spec_del_def)
  then have others: "get_latest_version t r' snap = get_latest_version s r' snap" if "r' \<noteq> r" for r'
    using that by (simp add: get_latest_version_history assms(1) t(2))
  have read: "map_option tv_payload (get_latest_version t r snap) =
      (if tv_tombstone v then None else Some (lossy (tv_payload v)))"
    using assms(3)
    by (auto simp: get_latest_version_history t(2) h spec_put_def spec_del_def chain_visible_snoc payload_of_def)
  have ids: "map tv_version_id (get_version_chain u r) = [1..<length (get_version_chain u r) + 1]" for u
  proof (rule nth_equalityI)
    fix i
    assume "i < length (map tv_version_id (get_version_chain u r))"
    then show "map tv_version_id (get_version_chain u r) ! i = [1..<length (get_version_chain u r) + 1] ! i"
      by (simp add: get_version_chain_history chain_entry_def nth_enumerate_eq del: upt_Suc)
  qed (simp del: upt_Suc)
  have "length (get_version_chain u r) = length (history u ?k)" for u
    by (simp add: get_version_chain_history)
  moreover have "get_version_chain u r = [] \<longleftrightarrow> history u ?k = []" for u
    by (auto simp: get_version_chain_history enumerate_eq_zip)
  moreover have "tv_begin_ts (last (get_version_chain t r)) = tv_begin_ts v \<and>
      tv_prev_version (last (get_version_chain t r)) = (if history s ?k = [] then None else Some (length (history s ?k)))"
    if "\<not> (tv_tombstone v \<and> history s ?k = [])"
    using that by (auto simp: get_version_chain_history h spec_put_def spec_del_def chain_entry_def enumerate_append_eq)
  ultimately have "tv_tombstone v \<and> get_version_chain s r = [] \<or>
     length (get_version_chain t r) = length (get_version_chain s r) + 1 \<and>
     tv_begin_ts (last (get_version_chain t r)) = tv_begin_ts v \<and>
     tv_prev_version (last (get_version_chain t r)) =
       (if get_version_chain s r = [] then None else Some (length (get_version_chain s r)))"
    by (auto simp: h spec_put_def spec_del_def)
  with t(1) read others ids show ?thesis by blast
qed

theorem tail_store_insert_read_witness:
  "\<exists>t. insert_version id fresh_store 4 (tail_version_new 4 1 7 ''p'') = Some t \<and>
    map_option tv_payload (get_latest_version t 4 9) = Some ''p''"
  using tail_store_insert_read [of fresh_store "tail_version_new 4 1 7 ''p''" 9 id 4]
  by (auto simp: tail_version_new_def)

text \<open>
  A snapshot read through the tail store reports the wrong commit timestamp. The version returned
  for a snapshot carries the xid of the newest version of the row, even when that version was written
  after the snapshot and the payload is an older one.
\<close>

theorem tail_store_read_begin_ts_newest:
  assumes "store_wf s" and "get_latest_version s r snap = Some v"
    and "history s (tail_key r) = older @ [newest]" and "snap < rv_xid newest"
  shows "tv_begin_ts v = rv_xid newest \<and> snap < tv_begin_ts v \<and>
    (\<exists>w\<in>set older. rv_xid w \<le> snap \<and> tv_payload v = payload_of (rv_data w))"
  using assms chain_visible_SomeD [of older snap]
  by (fastforce simp: get_latest_version_history chain_visible_snoc)

theorem tail_store_read_begin_ts_newest_witness:
  "\<exists>s v. get_latest_version s 4 1 = Some v \<and> tv_payload v = ''old'' \<and> tv_begin_ts v = 5"
proof -
  let ?ops = "[Put 1 (tail_key 4) [''_payload'' \<mapsto> ''old''], Put 5 (tail_key 4) [''_payload'' \<mapsto> ''new'']]"
  let ?v1 = "\<lparr>rv_xid = 1, rv_deleted = False, rv_data = [''_payload'' \<mapsto> ''old'']\<rparr>"
  let ?v2 = "\<lparr>rv_xid = 5, rv_deleted = False, rv_data = [''_payload'' \<mapsto> ''new'']\<rparr>"
  obtain s where s: "unbounded_wf s" "history s = fold spec_write ?ops (history fresh_store)"
    using paged.run_writes_hist [of fresh_store ?ops] by (auto simp: unbounded_wf_def)
  have h: "history s (tail_key 4) = [?v1] @ [?v2]"
    by (simp add: s(2) spec_put_def history_def fresh_store_def find_row_def)
  then obtain v where v: "get_latest_version s 4 1 = Some v"
    using s(1) by (simp add: get_latest_version_history unbounded_wf_def chain_visible_def)
  from tail_store_read_begin_ts_newest [OF _ v h] s(1) v show ?thesis
    by (auto simp: unbounded_wf_def payload_of_def)
qed

text \<open>
  The bridging row agrees with the plain version chain: it returns the version whose data the
  chain makes visible at the snapshot, every id of its index points at the version with that position,
  and deleting at a timestamp hides the row from that timestamp on.
\<close>

theorem mvcc_row_v2_agrees:
  assumes "r = fold (\<lambda>v r. append_tail_version r v) vs (mvcc_row_v2_new k)"
  shows "v2_versions r = vs \<and>
    map_option rv_data (get_latest_tail_version r snap) = chain_visible vs snap \<and>
    (\<forall>i. v2_version_index r i = (if i < length vs then Some i else None)) \<and>
    (vs \<noteq> [] \<longrightarrow> (\<exists>r'. delete_at_ts r ts = Ok r' \<and> (ts \<le> snap \<longrightarrow> \<not> row_v2_visible_at r' snap)))"
proof -
  have "v2_versions r = vs \<and> (\<forall>i. v2_version_index r i = (if i < length vs then Some i else None))"
    unfolding assms
    by (induction vs rule: rev_induct) (auto simp: mvcc_row_v2_new_def append_tail_version_def)
  then show ?thesis
    by (auto simp: get_latest_tail_version_def chain_visible_def delete_at_ts_def append_tail_version_def
        row_v2_visible_at_def split: option.splits)
qed

theorem mvcc_row_v2_agrees_witness:
  "v2_versions (fold (\<lambda>v r. append_tail_version r v)
     [\<lparr>rv_xid = 1, rv_deleted = False, rv_data = Map.empty\<rparr>] (mvcc_row_v2_new ''k'')) =
   [\<lparr>rv_xid = 1, rv_deleted = False, rv_data = Map.empty\<rparr>]"
  using mvcc_row_v2_agrees [OF HOL.refl, of "[\<lparr>rv_xid = 1, rv_deleted = False, rv_data = Map.empty\<rparr>]" "''k''"]
  by blast

end
