(* ===== verification/Hybrid_Scan.thy ===== *)
theory Hybrid_Scan
  imports Tail_Store
begin

text \<open>
  The hybrid scan of \<^verbatim>\<open>crates/voltnuerongrid-store/src/hybrid_scan.rs\<close>: an executor holds the rows of
  an immutable base segment and the version lists of a mutable tail, and merges both per row under a
  snapshot timestamp. The two scan strategies collect the row ids in a \<^verbatim>\<open>HashSet\<close>; its iteration
  order is unspecified and is an argument of the scans, a function that enumerates the distinct
  elements of a list in some order.
\<close>

section \<open>Data\<close>

datatype hybrid_scan_error = QueryTooStale nat nat | InvalidConfig string | ExecutionError string

datatype scan_source = BaseSource nat | TailSource nat

record version_info =
  vi_commit_ts :: nat
  vi_snapshot_ts :: nat
  vi_is_deleted :: bool

record hybrid_scan_result =
  hr_row_id :: nat
  hr_values :: string
  hr_version_info :: version_info
  hr_source :: scan_source

type_synonym tail_entry = "nat \<times> bool \<times> string"

record hybrid_scan_executor =
  hx_segment_id :: nat
  hx_base_rows :: "(nat \<times> string) list"
  hx_tail_rows :: "(nat \<times> tail_entry list) list"
  hx_snapshot_ts :: nat
  hx_max_staleness_ms :: "nat option"

definition hybrid_scan_error_display :: "hybrid_scan_error \<Rightarrow> string" where
  "hybrid_scan_error_display e =
     (case e of
        QueryTooStale required actual \<Rightarrow>
          ''Query too stale: required freshness '' @ show_nat required @ '' ms, actual '' @ show_nat actual @ '' ms''
      | InvalidConfig msg \<Rightarrow> ''Invalid config: '' @ msg
      | ExecutionError msg \<Rightarrow> ''Execution error: '' @ msg)"

definition version_info_visible_at :: "version_info \<Rightarrow> nat \<Rightarrow> bool" where
  "version_info_visible_at v snapshot_ts \<longleftrightarrow> vi_commit_ts v \<le> snapshot_ts \<and> \<not> vi_is_deleted v"

definition hybrid_scan_executor_new ::
  "nat \<Rightarrow> (nat \<times> string) list \<Rightarrow> (nat \<times> tail_entry list) list \<Rightarrow> nat \<Rightarrow> hybrid_scan_executor" where
  "hybrid_scan_executor_new segment_id base_rows tail_rows snapshot_ts =
     \<lparr>hx_segment_id = segment_id, hx_base_rows = base_rows, hx_tail_rows = tail_rows,
      hx_snapshot_ts = snapshot_ts, hx_max_staleness_ms = None\<rparr>"

definition with_max_staleness :: "nat \<Rightarrow> hybrid_scan_executor \<Rightarrow> hybrid_scan_executor" where
  "with_max_staleness ms ex = ex\<lparr>hx_max_staleness_ms := Some ms\<rparr>"

section \<open>Merging the versions of one row\<close>

definition compute_visibility :: "nat \<Rightarrow> nat \<Rightarrow> bool" where
  "compute_visibility commit_ts snapshot_ts \<longleftrightarrow> commit_ts \<le> snapshot_ts"

definition find_base_row :: "hybrid_scan_executor \<Rightarrow> nat \<Rightarrow> string option" where
  "find_base_row ex row_id = map_option snd (find (\<lambda>p. fst p = row_id) (hx_base_rows ex))"

definition base_result :: "hybrid_scan_executor \<Rightarrow> nat \<Rightarrow> hybrid_scan_result option" where
  "base_result ex row_id =
     map_option (\<lambda>d. \<lparr>hr_row_id = row_id, hr_values = d,
         hr_version_info = \<lparr>vi_commit_ts = 0, vi_snapshot_ts = hx_snapshot_ts ex, vi_is_deleted = False\<rparr>,
         hr_source = BaseSource (hx_segment_id ex)\<rparr>)
       (find_base_row ex row_id)"

definition merge_versions ::
  "hybrid_scan_executor \<Rightarrow> nat \<Rightarrow> (hybrid_scan_result option, hybrid_scan_error) result" where
  "merge_versions ex row_id =
     (case map_of (hx_tail_rows ex) row_id of
        None \<Rightarrow> Ok (base_result ex row_id)
      | Some vs \<Rightarrow>
          (case find (\<lambda>(ts, _). compute_visibility ts (hx_snapshot_ts ex)) (rev vs) of
             None \<Rightarrow> Ok (base_result ex row_id)
           | Some (ts, deleted, d) \<Rightarrow>
               if deleted then Ok None
               else Ok (Some \<lparr>hr_row_id = row_id, hr_values = d,
                   hr_version_info = \<lparr>vi_commit_ts = ts, vi_snapshot_ts = hx_snapshot_ts ex, vi_is_deleted = False\<rparr>,
                   hr_source = TailSource (hx_segment_id ex)\<rparr>)))"

section \<open>Scans\<close>

definition all_row_ids :: "(nat list \<Rightarrow> nat list) \<Rightarrow> hybrid_scan_executor \<Rightarrow> nat list" where
  "all_row_ids hash_order ex = hash_order (map fst (hx_base_rows ex) @ map fst (hx_tail_rows ex))"

fun merge_all ::
  "hybrid_scan_executor \<Rightarrow> nat list \<Rightarrow> (hybrid_scan_result list, hybrid_scan_error) result" where
  "merge_all ex [] = Ok []"
| "merge_all ex (r # rs) =
     (case merge_versions ex r of
        Inl e \<Rightarrow> Err e
      | Inr m \<Rightarrow>
          (case merge_all ex rs of
             Inl e \<Rightarrow> Err e
           | Inr ms \<Rightarrow> Ok (case m of Some x \<Rightarrow> x # ms | None \<Rightarrow> ms)))"

definition scan_eager ::
  "(nat list \<Rightarrow> nat list) \<Rightarrow> hybrid_scan_executor \<Rightarrow> (hybrid_scan_result list, hybrid_scan_error) result" where
  "scan_eager hash_order ex =
     (case merge_all ex (all_row_ids hash_order ex) of
        Inl e \<Rightarrow> Err e
      | Inr rs \<Rightarrow> Ok (sort_key hr_row_id rs))"

definition scan_streaming ::
  "(nat list \<Rightarrow> nat list) \<Rightarrow> hybrid_scan_executor \<Rightarrow> (hybrid_scan_result list, hybrid_scan_error) result" where
  "scan_streaming hash_order ex =
     Ok (List.map_filter (\<lambda>r. case merge_versions ex r of Inr m \<Rightarrow> m | Inl _ \<Rightarrow> None)
           (sort (all_row_ids hash_order ex)))"

definition enforce_freshness :: "hybrid_scan_executor \<Rightarrow> nat \<Rightarrow> (unit, hybrid_scan_error) result" where
  "enforce_freshness ex merge_lag_ms =
     (case hx_max_staleness_ms ex of
        Some max_staleness \<Rightarrow>
          if merge_lag_ms > max_staleness then Err (QueryTooStale max_staleness merge_lag_ms) else Ok ()
      | None \<Rightarrow> Ok ())"

definition base_row_count :: "hybrid_scan_executor \<Rightarrow> nat" where
  "base_row_count ex = length (hx_base_rows ex)"

definition tail_row_count :: "hybrid_scan_executor \<Rightarrow> nat" where
  "tail_row_count ex = length (hx_tail_rows ex)"

section \<open>Specification\<close>

text \<open>What iterating over a hash set promises: every element once, in some order.\<close>

definition hash_iteration :: "('a list \<Rightarrow> 'a list) \<Rightarrow> bool" where
  "hash_iteration order \<longleftrightarrow> (\<forall>xs. distinct (order xs) \<and> set (order xs) = set xs)"

text \<open>The content of a row under the snapshot, without the scan machinery.\<close>

definition tail_of :: "hybrid_scan_executor \<Rightarrow> nat \<Rightarrow> tail_entry list" where
  "tail_of ex r = (case map_of (hx_tail_rows ex) r of Some vs \<Rightarrow> vs | None \<Rightarrow> [])"

definition visible_entries :: "nat \<Rightarrow> tail_entry list \<Rightarrow> tail_entry list" where
  "visible_entries snap vs = filter (\<lambda>(ts, _). ts \<le> snap) vs"

definition entry_content :: "tail_entry \<Rightarrow> string option" where
  "entry_content v = (case v of (_, deleted, d) \<Rightarrow> if deleted then None else Some d)"

definition hybrid_read :: "hybrid_scan_executor \<Rightarrow> nat \<Rightarrow> nat \<Rightarrow> string option" where
  "hybrid_read ex snap r =
     (let vs = visible_entries snap (tail_of ex r)
      in if vs = [] then map_of (hx_base_rows ex) r else entry_content (last vs))"

text \<open>
  Consolidation up to a timestamp: the rows as of then form the base, later versions stay in the tail.
\<close>

definition consolidate :: "nat \<Rightarrow> hybrid_scan_executor \<Rightarrow> hybrid_scan_executor" where
  "consolidate m ex =
     ex\<lparr>hx_base_rows :=
          List.map_filter (\<lambda>r. map_option (Pair r) (hybrid_read ex m r))
            (remdups (map fst (hx_base_rows ex) @ map fst (hx_tail_rows ex))),
        hx_tail_rows := map (\<lambda>(r, vs). (r, filter (\<lambda>(ts, _). m < ts) vs)) (hx_tail_rows ex)\<rparr>"

definition chains_ascend :: "hybrid_scan_executor \<Rightarrow> bool" where
  "chains_ascend ex \<longleftrightarrow> list_all (\<lambda>(_, vs). sorted (map fst vs)) (hx_tail_rows ex)"

text \<open>The executor over the version chains of the tail store.\<close>

definition chain_entries :: "paged_row_store \<Rightarrow> nat \<Rightarrow> tail_entry list" where
  "chain_entries s r = map (\<lambda>v. (tv_begin_ts v, tv_tombstone v, tv_payload v)) (get_version_chain s r)"

definition merged :: "hybrid_scan_executor \<Rightarrow> nat \<Rightarrow> hybrid_scan_result option" where
  "merged ex r = (case merge_versions ex r of Inr m \<Rightarrow> m | Inl _ \<Rightarrow> None)"

text \<open>The scan result of an executor, independent of the strategy and the hash order.\<close>

definition scan_rows :: "hybrid_scan_executor \<Rightarrow> hybrid_scan_result list" where
  "scan_rows ex = List.map_filter (merged ex)
     (sorted_list_of_set (set (map fst (hx_base_rows ex) @ map fst (hx_tail_rows ex))))"

section \<open>The merge of one row\<close>

lemma find_rev_filter: "find P (rev xs) = (if filter P xs = [] then None else Some (last (filter P xs)))"
  by (induction xs rule: rev_induct) auto

lemma find_base_row_map_of: "find_base_row ex r = map_of (hx_base_rows ex) r"
proof -
  have "map_option snd (find (\<lambda>p. fst p = r) xs) = map_of xs r" for xs :: "(nat \<times> string) list"
    by (induction xs) auto
  then show ?thesis by (simp add: find_base_row_def)
qed

lemma base_result_values [simp]:
  "map_option hr_values (base_result ex r) = map_of (hx_base_rows ex) r"
  by (simp add: base_result_def find_base_row_map_of option.map_comp comp_def map_option.identity)

lemma base_result_row: "base_result ex r = Some x \<Longrightarrow> hr_row_id x = r"
  by (auto simp: base_result_def)

lemma merge_versions_cases:
  "\<exists>m. merge_versions ex r = Ok m \<and> map_option hr_values m = hybrid_read ex (hx_snapshot_ts ex) r \<and>
     (\<forall>x. m = Some x \<longrightarrow> hr_row_id x = r)"
proof (cases "map_of (hx_tail_rows ex) r")
  case None
  then show ?thesis
    using base_result_row [of ex r] by (simp add: merge_versions_def hybrid_read_def tail_of_def visible_entries_def)
next
  case (Some vs)
  let ?P = "\<lambda>(ts, _). compute_visibility ts (hx_snapshot_ts ex)"
  have P: "filter ?P vs = visible_entries (hx_snapshot_ts ex) vs"
    by (simp add: visible_entries_def compute_visibility_def)
  show ?thesis
  proof (cases "visible_entries (hx_snapshot_ts ex) vs = []")
    case True
    then have "find ?P (rev vs) = None" by (simp add: find_rev_filter P)
    with Some True show ?thesis
      using base_result_row [of ex r] by (simp add: merge_versions_def hybrid_read_def tail_of_def)
  next
    case False
    obtain ts del d where l: "last (visible_entries (hx_snapshot_ts ex) vs) = (ts, del, d)" by (cases "last (visible_entries (hx_snapshot_ts ex) vs)")
    with False have "find ?P (rev vs) = Some (ts, del, d)" by (simp add: find_rev_filter P)
    with Some False l show ?thesis
      by (simp add: merge_versions_def hybrid_read_def tail_of_def entry_content_def)
  qed
qed

lemma merge_versions_merged: "merge_versions ex r = Ok (merged ex r)"
  using merge_versions_cases [of ex r] by (auto simp: merged_def)

lemma merged_row: "merged ex r = Some x \<Longrightarrow> hr_row_id x = r"
  using merge_versions_cases [of ex r] by (auto simp: merged_def)

lemma merged_values: "map_option hr_values (merged ex r) = hybrid_read ex (hx_snapshot_ts ex) r"
  using merge_versions_cases [of ex r] by (auto simp: merged_def)

lemma merge_all_map_filter: "merge_all ex rs = Ok (List.map_filter (merged ex) rs)"
  by (induction rs) (auto simp: merge_versions_merged map_filter_simps split: option.splits)

section \<open>The scans as sorted lists\<close>

lemma map_filter_ids:
  "map hr_row_id (List.map_filter (merged ex) rs) = filter (\<lambda>r. merged ex r \<noteq> None) rs"
  by (induction rs) (auto simp: map_filter_simps merged_row split: option.splits)

lemma sort_key_merged:
  assumes "distinct rs"
  shows "sort_key hr_row_id (List.map_filter (merged ex) rs) = List.map_filter (merged ex) (sort rs)"
proof (rule map_sorted_distinct_set_unique [where f = hr_row_id])
  have set: "set (List.map_filter (merged ex) xs) = {x. \<exists>r\<in>set xs. merged ex r = Some x}" for xs
    by (auto simp: map_filter_def image_iff) force+
  show "inj_on hr_row_id (set (sort_key hr_row_id (List.map_filter (merged ex) rs)) \<union>
      set (List.map_filter (merged ex) (sort rs)))"
  proof (rule inj_onI)
    fix x y
    assume "x \<in> set (sort_key hr_row_id (List.map_filter (merged ex) rs)) \<union> set (List.map_filter (merged ex) (sort rs))"
      and "y \<in> set (sort_key hr_row_id (List.map_filter (merged ex) rs)) \<union> set (List.map_filter (merged ex) (sort rs))"
      and eq: "hr_row_id x = hr_row_id y"
    then obtain r q where "merged ex r = Some x" "merged ex q = Some y" by (auto simp: set)
    with eq show "x = y" using merged_row by fastforce
  qed
  show "sorted (map hr_row_id (sort_key hr_row_id (List.map_filter (merged ex) rs)))" by (rule sorted_sort_key)
  have "distinct (map hr_row_id (List.map_filter (merged ex) rs))" using assms by (simp add: map_filter_ids)
  then show "distinct (map hr_row_id (sort_key hr_row_id (List.map_filter (merged ex) rs)))"
    by (metis distinct_map distinct_sort set_sort)
  show "sorted (map hr_row_id (List.map_filter (merged ex) (sort rs)))"
    unfolding map_filter_ids by (simp add: sorted_filter [where f = id, simplified])
  show "distinct (map hr_row_id (List.map_filter (merged ex) (sort rs)))"
    using assms by (simp add: map_filter_ids)
  show "set (sort_key hr_row_id (List.map_filter (merged ex) rs)) = set (List.map_filter (merged ex) (sort rs))"
    by (simp add: set)
qed

lemma sort_all_row_ids:
  assumes "hash_iteration order"
  shows "sort (all_row_ids order ex) =
    sorted_list_of_set (set (map fst (hx_base_rows ex) @ map fst (hx_tail_rows ex)))"
proof -
  have "distinct (all_row_ids order ex)"
    "set (all_row_ids order ex) = set (map fst (hx_base_rows ex) @ map fst (hx_tail_rows ex))"
    using assms unfolding hash_iteration_def all_row_ids_def by blast+
  then show ?thesis
    using sorted_list_of_set.idem_if_sorted_distinct [of "sort (all_row_ids order ex)"] by simp
qed

lemma scan_streaming_rows: "hash_iteration order \<Longrightarrow> scan_streaming order ex = Ok (scan_rows ex)"
  unfolding scan_streaming_def scan_rows_def sort_all_row_ids
  by (simp add: sort_all_row_ids merged_def [abs_def])

lemma scan_eager_rows:
  assumes "hash_iteration order"
  shows "scan_eager order ex = Ok (scan_rows ex)"
proof -
  have "distinct (all_row_ids order ex)" using assms by (simp add: hash_iteration_def all_row_ids_def)
  then show ?thesis
    by (simp add: scan_eager_def merge_all_map_filter sort_key_merged scan_rows_def sort_all_row_ids [OF assms])
qed

lemma scan_rows_read: "map_option hr_values (find (\<lambda>x. hr_row_id x = r) (scan_rows ex)) = hybrid_read ex (hx_snapshot_ts ex) r"
proof -
  let ?ids = "set (map fst (hx_base_rows ex) @ map fst (hx_tail_rows ex))"
  have f: "find (\<lambda>x. hr_row_id x = r) (List.map_filter (merged ex) rs) = (if r \<in> set rs then merged ex r else None)" for rs
    by (induction rs) (auto simp: map_filter_simps merged_row split: option.splits)
  show ?thesis
  proof (cases "r \<in> ?ids")
    case True
    then show ?thesis by (simp add: scan_rows_def f merged_values)
  next
    case False
    then have "map_of (hx_base_rows ex) r = None" "map_of (hx_tail_rows ex) r = None"
      by (auto simp: map_of_eq_None_iff)
    then have "hybrid_read ex (hx_snapshot_ts ex) r = None"
      by (simp add: hybrid_read_def tail_of_def visible_entries_def)
    with False show ?thesis by (simp add: scan_rows_def f)
  qed
qed

lemma scan_rows_sorted: "sorted_wrt (<) (map hr_row_id (scan_rows ex))"
proof -
  have "sorted_wrt (<) (sorted_list_of_set A)" for A :: "nat set" by simp
  then show ?thesis unfolding scan_rows_def map_filter_ids by (rule sorted_wrt_filter)
qed

lemma scan_rows_contents:
  "(r, d) \<in> set (map (\<lambda>x. (hr_row_id x, hr_values x)) (scan_rows ex)) \<longleftrightarrow>
     hybrid_read ex (hx_snapshot_ts ex) r = Some d"
proof -
  let ?p = "\<lambda>x. (hr_row_id x, hr_values x)"
  have "distinct (map fst (map ?p (scan_rows ex)))"
    using scan_rows_sorted [of ex] by (simp add: comp_def strict_sorted_iff)
  then have "(r, d) \<in> set (map ?p (scan_rows ex)) \<longleftrightarrow> map_of (map ?p (scan_rows ex)) r = Some d"
    by (rule in_set_map_of)
  also have "map_of (map ?p xs) r = map_option hr_values (find (\<lambda>x. hr_row_id x = r) xs)" for xs
    by (induction xs) auto
  finally show ?thesis by (simp add: scan_rows_read)
qed

text \<open>Executors with the same row contents scan to the same list.\<close>

lemma scan_rows_cong:
  assumes "\<And>r. hybrid_read ex (hx_snapshot_ts ex) r = hybrid_read ex' (hx_snapshot_ts ex') r"
  shows "map (\<lambda>x. (hr_row_id x, hr_values x)) (scan_rows ex) = map (\<lambda>x. (hr_row_id x, hr_values x)) (scan_rows ex')"
proof (rule map_sorted_distinct_set_unique [where f = fst])
  let ?p = "\<lambda>x. (hr_row_id x, hr_values x)"
  have eq: "set (map ?p (scan_rows ex)) = set (map ?p (scan_rows ex'))"
  proof (rule set_eqI)
    fix x :: "nat \<times> string"
    obtain r d where x: "x = (r, d)" by (cases x)
    show "x \<in> set (map ?p (scan_rows ex)) \<longleftrightarrow> x \<in> set (map ?p (scan_rows ex'))"
      unfolding x scan_rows_contents assms by (rule refl)
  qed
  then show "set (map ?p (scan_rows ex)) = set (map ?p (scan_rows ex'))" .
  have "inj_on fst (set (map ?p (scan_rows ex)))"
  proof (rule inj_onI)
    fix x y :: "nat \<times> string"
    assume xy: "x \<in> set (map ?p (scan_rows ex))" "y \<in> set (map ?p (scan_rows ex))" "fst x = fst y"
    obtain r d e where x: "x = (r, d)" and y: "y = (r, e)" using xy(3) by (cases x; cases y) simp
    from xy(1,2) show "x = y" unfolding x y scan_rows_contents by simp
  qed
  with eq show "inj_on fst (set (map ?p (scan_rows ex)) \<union> set (map ?p (scan_rows ex')))" by simp
qed (use scan_rows_sorted [of ex] scan_rows_sorted [of ex'] in \<open>simp_all add: comp_def strict_sorted_iff\<close>)

section \<open>Consolidation\<close>

lemma consolidate_base:
  "map_of (hx_base_rows (consolidate m ex)) r = hybrid_read ex m r"
proof -
  have f: "map_of (List.map_filter (\<lambda>r. map_option (Pair r) (g r)) rs) r = (if r \<in> set rs then g r else None)"
    for g :: "nat \<Rightarrow> string option" and rs
    by (induction rs) (auto simp: map_filter_simps split: option.splits)
  show ?thesis
  proof (cases "r \<in> set (map fst (hx_base_rows ex) @ map fst (hx_tail_rows ex))")
    case True
    then show ?thesis by (simp add: consolidate_def f)
  next
    case False
    then have "map_of (hx_base_rows ex) r = None" "map_of (hx_tail_rows ex) r = None"
      by (auto simp: map_of_eq_None_iff)
    then have "hybrid_read ex m r = None" by (simp add: hybrid_read_def tail_of_def visible_entries_def)
    with False show ?thesis by (simp add: consolidate_def f)
  qed
qed

lemma consolidate_tail: "tail_of (consolidate m ex) r = filter (\<lambda>(ts, _). m < ts) (tail_of ex r)"
proof -
  have "map_of (map (\<lambda>(r, vs). (r, g vs)) xs) r = map_option g (map_of xs r)"
    for g :: "tail_entry list \<Rightarrow> tail_entry list" and xs
    by (induction xs) auto
  then show ?thesis by (simp add: tail_of_def consolidate_def split: option.splits)
qed

lemma chains_ascend_tail:
  assumes "chains_ascend ex"
  shows "sorted (map fst (tail_of ex r))"
proof (cases "map_of (hx_tail_rows ex) r")
  case (Some vs)
  then have "(r, vs) \<in> set (hx_tail_rows ex)" by (rule map_of_SomeD)
  with assms Some show ?thesis by (auto simp: chains_ascend_def list_all_iff tail_of_def)
qed (simp add: tail_of_def)

text \<open>On an ascending chain the visible versions are those up to the earlier bound, then the others.\<close>

lemma visible_entries_split:
  assumes "sorted (map fst vs)" and "m \<le> snap"
  shows "visible_entries snap vs =
    visible_entries m vs @ visible_entries snap (filter (\<lambda>(ts, _). m < ts) vs)"
  using assms
proof (induction vs)
  case (Cons v vs)
  show ?case
  proof (cases "fst v \<le> m")
    case True
    with Cons show ?thesis by (auto simp: visible_entries_def split: prod.splits)
  next
    case False
    have "visible_entries m vs = []"
      using Cons.prems(1) False by (auto simp: visible_entries_def filter_empty_conv)
    with Cons False show ?thesis by (auto simp: visible_entries_def split: prod.splits)
  qed
qed (simp add: visible_entries_def)

lemma hybrid_read_consolidate:
  assumes "chains_ascend ex" and "m \<le> snap"
  shows "hybrid_read (consolidate m ex) snap r = hybrid_read ex snap r"
  using visible_entries_split [OF chains_ascend_tail [OF assms(1), of r] assms(2)]
  by (simp add: hybrid_read_def consolidate_tail consolidate_base Let_def)

section \<open>The tail store's chains\<close>

lemma chain_entries_history:
  "chain_entries s r =
     map (\<lambda>v. (rv_xid v, rv_deleted v, if rv_deleted v then [] else payload_of (rv_data v))) (history s (tail_key r))"
  by (cases "find_in_pages (pages s) (tail_key r)")
    (auto simp: chain_entries_def get_version_chain_def history_def chain_entry_def comp_def split_def
      nth_enumerate_eq intro!: nth_equalityI)

section \<open>Properties\<close>

text \<open>
  C32: Both scan strategies return the merged rows. Whatever order the hash sets are iterated in, the
  eager and the streaming scan succeed with the same list: ascending and without duplicates in the
  row id, and each row has the content of the newest tail version that the snapshot sees, is missing
  when that version is a deletion, and has its base content when the snapshot sees no tail version.
\<close>

theorem hybrid_scan_strategies_agree:
  assumes "hash_iteration order" and "hash_iteration order'"
  shows "\<exists>rs. scan_eager order ex = Ok rs \<and> scan_streaming order' ex = Ok rs \<and>
    sorted_wrt (<) (map hr_row_id rs) \<and>
    (\<forall>r. map_option hr_values (find (\<lambda>x. hr_row_id x = r) rs) = hybrid_read ex (hx_snapshot_ts ex) r)"
  using scan_eager_rows [OF assms(1)] scan_streaming_rows [OF assms(2)] scan_rows_sorted scan_rows_read by blast

theorem hybrid_scan_strategies_agree_witness:
  "\<exists>rs. scan_eager remdups (hybrid_scan_executor_new 1 [(5, ''a'')] [(5, [(3, True, [])]), (2, [(1, False, ''b'')])] 4) = Ok rs \<and>
     scan_streaming (\<lambda>xs. rev (remdups xs))
       (hybrid_scan_executor_new 1 [(5, ''a'')] [(5, [(3, True, [])]), (2, [(1, False, ''b'')])] 4) = Ok rs \<and>
     map_option hr_values (find (\<lambda>x. hr_row_id x = 2) rs) = Some ''b'' \<and>
     map_option hr_values (find (\<lambda>x. hr_row_id x = 5) rs) = None"
proof -
  let ?ex = "hybrid_scan_executor_new 1 [(5, ''a'')] [(5, [(3, True, [])]), (2, [(1, False, ''b'')])] 4"
  have "hash_iteration remdups" "hash_iteration (\<lambda>xs. rev (remdups xs))" by (simp_all add: hash_iteration_def)
  from hybrid_scan_strategies_agree [OF this, of ?ex] obtain rs where
    "scan_eager remdups ?ex = Ok rs" "scan_streaming (\<lambda>xs. rev (remdups xs)) ?ex = Ok rs"
    "\<forall>r. map_option hr_values (find (\<lambda>x. hr_row_id x = r) rs) = hybrid_read ?ex (hx_snapshot_ts ?ex) r" by blast
  moreover have "hybrid_read ?ex (hx_snapshot_ts ?ex) 2 = Some ''b''" "hybrid_read ?ex (hx_snapshot_ts ?ex) 5 = None"
    by (simp_all add: hybrid_read_def hybrid_scan_executor_new_def tail_of_def visible_entries_def entry_content_def)
  ultimately show ?thesis by metis
qed

text \<open>
  Consolidation is invisible to later snapshots. When the version lists are ascending in their commit
  timestamps, moving everything up to a timestamp into the base (the newest version of each row, or
  nothing for a deleted row) and keeping only later versions in the tail changes the content of no row
  in a scan at that timestamp or later.
\<close>

theorem hybrid_scan_consolidation:
  assumes "chains_ascend ex" and "m \<le> hx_snapshot_ts ex" and "hash_iteration order"
  shows "\<exists>rs rs'. scan_eager order ex = Ok rs \<and> scan_eager order (consolidate m ex) = Ok rs' \<and>
    map (\<lambda>x. (hr_row_id x, hr_values x)) rs' = map (\<lambda>x. (hr_row_id x, hr_values x)) rs"
proof -
  have "hx_snapshot_ts (consolidate m ex) = hx_snapshot_ts ex" by (simp add: consolidate_def)
  with hybrid_read_consolidate [OF assms(1,2)] scan_rows_cong [of "consolidate m ex" ex] scan_eager_rows [OF assms(3)]
  show ?thesis by simp
qed

theorem hybrid_scan_consolidation_witness:
  "\<exists>rs rs'. scan_eager remdups (hybrid_scan_executor_new 1 [(5, ''a'')] [(5, [(3, True, []), (6, False, ''c'')])] 9) = Ok rs \<and>
     scan_eager remdups (consolidate 4 (hybrid_scan_executor_new 1 [(5, ''a'')] [(5, [(3, True, []), (6, False, ''c'')])] 9)) = Ok rs' \<and>
     map (\<lambda>x. (hr_row_id x, hr_values x)) rs' = map (\<lambda>x. (hr_row_id x, hr_values x)) rs"
  by (rule hybrid_scan_consolidation)
    (simp_all add: chains_ascend_def hybrid_scan_executor_new_def hash_iteration_def)

text \<open>
  C33: The hybrid scan reads the tail store. Over the version chains that the tail store returns for a set
  of rows and an empty base, a scan at a snapshot returns for every row exactly the payload that
  \<^verbatim>\<open>get_latest_version\<close> returns for it at that snapshot, and no row where that returns nothing.
\<close>

theorem hybrid_scan_reads_tail_store:
  assumes "hash_iteration order"
  shows "\<exists>rs. scan_eager order
      (hybrid_scan_executor_new seg [] (map (\<lambda>r. (r, chain_entries s r)) ids) snap) = Ok rs \<and>
    (\<forall>r\<in>set ids. map_option hr_values (find (\<lambda>x. hr_row_id x = r) rs) =
       map_option tv_payload (get_latest_version s r snap))"
proof -
  let ?ex = "hybrid_scan_executor_new seg [] (map (\<lambda>r. (r, chain_entries s r)) ids) snap"
  have "hybrid_read ?ex (hx_snapshot_ts ?ex) r = map_option tv_payload (get_latest_version s r snap)"
    if "r \<in> set ids" for r
  proof -
    have "map_of (map (\<lambda>r. (r, chain_entries s r)) ids) r = Some (chain_entries s r)"
      using that by (simp add: map_of_map_restrict [of _ ids, simplified comp_def])
    then have t: "tail_of ?ex r = chain_entries s r" by (simp add: tail_of_def hybrid_scan_executor_new_def)
    have base: "hx_base_rows ?ex = []" and snap: "hx_snapshot_ts ?ex = snap"
      by (simp_all add: hybrid_scan_executor_new_def)
    let ?vs = "filter (\<lambda>v. rv_xid v \<le> snap) (history s (tail_key r))"
    have v: "visible_entries snap (chain_entries s r) =
        map (\<lambda>v. (rv_xid v, rv_deleted v, if rv_deleted v then [] else payload_of (rv_data v))) ?vs"
      by (simp add: visible_entries_def chain_entries_history filter_map comp_def)
    have "map_option tv_payload (get_latest_version s r snap) =
        map_option payload_of (chain_visible (history s (tail_key r)) snap)"
      by (cases "find_in_pages (pages s) (tail_key r)")
        (auto simp: get_latest_version_def history_def visible_at_def chain_visible_def split: option.splits)
    also have "\<dots> = (if ?vs = [] then None else if rv_deleted (last ?vs) then None else Some (payload_of (rv_data (last ?vs))))"
      by (simp add: chain_visible_def find_rev_filter)
    finally show ?thesis
      by (simp add: hybrid_read_def [of ?ex] t v base snap Let_def entry_content_def last_map)
  qed
  with scan_eager_rows [OF assms, of ?ex] scan_rows_read [of _ ?ex] show ?thesis by auto
qed

theorem hybrid_scan_reads_tail_store_witness:
  "\<exists>rs. scan_eager remdups
      (hybrid_scan_executor_new 1 [] (map (\<lambda>r. (r, chain_entries fresh_store r)) [4, 7]) 9) = Ok rs \<and>
    (\<forall>r\<in>set [4, 7]. map_option hr_values (find (\<lambda>x. hr_row_id x = r) rs) =
       map_option tv_payload (get_latest_version fresh_store r 9))"
  by (rule hybrid_scan_reads_tail_store) (simp add: hash_iteration_def)

end
