(* ===== verification/Htap_Maintenance.thy ===== *)
theory Htap_Maintenance
  imports Hybrid_Scan "HOL-Library.Word" "HOL-Library.Multiset"
begin

text \<open>
  The background machinery of the hybrid store, \<^verbatim>\<open>crates/voltnuerongrid-store/src\<close>: the merge job manager
  (\<^verbatim>\<open>merge.rs\<close>), the snapshot manager with its reference counts (\<^verbatim>\<open>snapshot.rs\<close>) and the collector of
  obsolete tail versions (\<^verbatim>\<open>tail_gc.rs\<close>). The system clock is an argument. A snapshot handle is an
  \<^verbatim>\<open>Arc\<close> shared by its holders and the manager: the handles live in a heap indexed by the snapshot id,
  and the manager's two collections hold ids. The reference count is a 64-bit word, since releasing
  decrements it without a check.
\<close>

section \<open>Merge jobs\<close>

record merge_policy =
  mp_max_tail_versions :: nat
  mp_max_tail_bytes :: nat
  mp_max_staleness_ms :: nat
  mp_idle_merge_ms :: nat

definition merge_policy_default :: merge_policy where
  "merge_policy_default =
     \<lparr>mp_max_tail_versions = 100, mp_max_tail_bytes = 10 * 1024 * 1024, mp_max_staleness_ms = 30000,
      mp_idle_merge_ms = 5000\<rparr>"

record merge_job =
  mj_job_id :: nat
  mj_segment_id :: nat
  mj_snapshot_ts :: nat
  mj_window_end_ts :: nat
  mj_created_at_ms :: nat
  mj_started_at_ms :: "nat option"
  mj_completed_at_ms :: "nat option"

datatype merge_status = MsPending | MsRunning | MsCompleted | MsFailed | MsCancelled

definition merge_job_new :: "nat \<Rightarrow> nat \<Rightarrow> nat \<Rightarrow> nat \<Rightarrow> nat \<Rightarrow> merge_job" where
  "merge_job_new now job_id segment_id snapshot_ts window_end_ts =
     \<lparr>mj_job_id = job_id, mj_segment_id = segment_id, mj_snapshot_ts = snapshot_ts,
      mj_window_end_ts = window_end_ts, mj_created_at_ms = now, mj_started_at_ms = None,
      mj_completed_at_ms = None\<rparr>"

definition merge_duration_ms :: "merge_job \<Rightarrow> nat option" where
  "merge_duration_ms j =
     (case (mj_started_at_ms j, mj_completed_at_ms j) of
        (Some start, Some finish) \<Rightarrow> Some (finish - start)
      | _ \<Rightarrow> None)"

definition merge_age_ms :: "nat \<Rightarrow> merge_job \<Rightarrow> nat" where
  "merge_age_ms now j = now - mj_created_at_ms j"

record merge_metrics =
  mm_jobs_completed :: nat
  mm_jobs_failed :: nat
  mm_avg_merge_duration_ms :: nat
  mm_latest_merge_lag_ms :: nat
  mm_pending_tail_bytes :: nat
  mm_pending_tail_versions :: nat

definition merge_metrics_default :: merge_metrics where
  "merge_metrics_default =
     \<lparr>mm_jobs_completed = 0, mm_jobs_failed = 0, mm_avg_merge_duration_ms = 0, mm_latest_merge_lag_ms = 0,
      mm_pending_tail_bytes = 0, mm_pending_tail_versions = 0\<rparr>"

record merge_manager =
  mg_policy :: merge_policy
  mg_pending_jobs :: "merge_job list"
  mg_active_jobs :: "(nat \<times> merge_job) list"
  mg_completed_jobs :: "(merge_job \<times> merge_metrics) list"
  mg_metrics :: merge_metrics
  mg_next_job_id :: nat
  mg_max_history :: nat

definition merge_manager_new :: "merge_policy \<Rightarrow> nat \<Rightarrow> merge_manager" where
  "merge_manager_new policy max_history =
     \<lparr>mg_policy = policy, mg_pending_jobs = [], mg_active_jobs = [], mg_completed_jobs = [],
      mg_metrics = merge_metrics_default, mg_next_job_id = 1, mg_max_history = max_history\<rparr>"

definition schedule_merge :: "nat \<Rightarrow> nat \<Rightarrow> nat \<Rightarrow> nat \<Rightarrow> merge_manager \<Rightarrow> nat \<times> merge_manager" where
  "schedule_merge now segment_id snapshot_ts window_end_ts m =
     (let job_id = mg_next_job_id m
      in (job_id, m\<lparr>mg_next_job_id := job_id + 1,
            mg_pending_jobs := mg_pending_jobs m @ [merge_job_new now job_id segment_id snapshot_ts window_end_ts]\<rparr>))"

definition take_next_job :: "merge_manager \<Rightarrow> merge_job option \<times> merge_manager" where
  "take_next_job m =
     (case mg_pending_jobs m of
        [] \<Rightarrow> (None, m)
      | j # js \<Rightarrow> (Some j, m\<lparr>mg_pending_jobs := js\<rparr>))"

definition start_job :: "nat \<Rightarrow> merge_job \<Rightarrow> merge_manager \<Rightarrow> merge_manager" where
  "start_job now job m =
     m\<lparr>mg_active_jobs := AList.update (mj_segment_id job) (job\<lparr>mj_started_at_ms := Some now\<rparr>) (mg_active_jobs m)\<rparr>"

definition complete_job :: "nat \<Rightarrow> nat \<Rightarrow> merge_metrics \<Rightarrow> merge_manager \<Rightarrow> merge_manager" where
  "complete_job now job_id metrics m =
     (case find (\<lambda>(_, j). mj_job_id j = job_id) (mg_active_jobs m) of
        None \<Rightarrow> m
      | Some (_, j0) \<Rightarrow>
          (let j = j0\<lparr>mj_completed_at_ms := Some now\<rparr>;
               completed = mg_completed_jobs m @ [(j, metrics)]
           in m\<lparr>mg_active_jobs := AList.delete (mj_segment_id j) (mg_active_jobs m),
                mg_completed_jobs := (if length completed > mg_max_history m then tl completed else completed),
                mg_metrics := (mg_metrics m)\<lparr>mm_jobs_completed := mm_jobs_completed (mg_metrics m) + 1\<rparr>\<rparr>))"

definition fail_job :: "nat \<Rightarrow> merge_manager \<Rightarrow> merge_manager" where
  "fail_job job_id m =
     (if list_ex (\<lambda>(_, j). mj_job_id j = job_id) (mg_active_jobs m)
      then m\<lparr>mg_metrics := (mg_metrics m)\<lparr>mm_jobs_failed := mm_jobs_failed (mg_metrics m) + 1\<rparr>\<rparr>
      else m)"

definition get_job_status :: "nat \<Rightarrow> merge_manager \<Rightarrow> merge_status option" where
  "get_job_status job_id m =
     (if list_ex (\<lambda>j. mj_job_id j = job_id) (mg_pending_jobs m) then Some MsPending
      else if list_ex (\<lambda>(_, j). mj_job_id j = job_id) (mg_active_jobs m) then Some MsRunning
      else if list_ex (\<lambda>(j, _). mj_job_id j = job_id) (mg_completed_jobs m) then Some MsCompleted
      else None)"

section \<open>Snapshots\<close>

record snapshot_handle =
  sh_snapshot_id :: nat
  sh_snapshot_ts :: nat
  sh_pinned_base_versions :: "nat \<rightharpoonup> nat"
  sh_ref_count :: "64 word"
  sh_created_at_ms :: nat

definition snapshot_handle_new :: "nat \<Rightarrow> nat \<Rightarrow> nat \<Rightarrow> (nat \<rightharpoonup> nat) \<Rightarrow> snapshot_handle" where
  "snapshot_handle_new now snapshot_id snapshot_ts pinned =
     \<lparr>sh_snapshot_id = snapshot_id, sh_snapshot_ts = snapshot_ts, sh_pinned_base_versions = pinned,
      sh_ref_count = 1, sh_created_at_ms = now\<rparr>"

definition handle_acquire :: "snapshot_handle \<Rightarrow> snapshot_handle" where
  "handle_acquire h = h\<lparr>sh_ref_count := sh_ref_count h + 1\<rparr>"

definition handle_release :: "snapshot_handle \<Rightarrow> 64 word \<times> snapshot_handle" where
  "handle_release h = (sh_ref_count h, h\<lparr>sh_ref_count := sh_ref_count h - 1\<rparr>)"

definition handle_age_ms :: "nat \<Rightarrow> snapshot_handle \<Rightarrow> nat" where
  "handle_age_ms now h = now - sh_created_at_ms h"

definition satisfies_max_staleness_ms :: "nat \<Rightarrow> nat option \<Rightarrow> snapshot_handle \<Rightarrow> bool" where
  "satisfies_max_staleness_ms now max_staleness h =
     (case max_staleness of Some ms \<Rightarrow> handle_age_ms now h \<le> ms | None \<Rightarrow> True)"

record snapshot_manager =
  sm_heap :: "nat \<rightharpoonup> snapshot_handle"
  sm_active_snapshots :: "nat list"
  sm_reusable_cache :: "nat list"
  sm_next_id :: nat
  sm_max_cache_size :: nat
  sm_retention_ms :: nat

definition snapshot_manager_new :: "nat \<Rightarrow> nat \<Rightarrow> snapshot_manager" where
  "snapshot_manager_new max_cache_size retention_ms =
     \<lparr>sm_heap = Map.empty, sm_active_snapshots = [], sm_reusable_cache = [], sm_next_id = 1,
      sm_max_cache_size = max_cache_size, sm_retention_ms = retention_ms\<rparr>"

definition handle_test :: "(snapshot_handle \<Rightarrow> bool) \<Rightarrow> snapshot_manager \<Rightarrow> nat \<Rightarrow> bool" where
  "handle_test P m i = (case sm_heap m i of Some h \<Rightarrow> P h | None \<Rightarrow> False)"

definition create_or_reuse ::
  "nat \<Rightarrow> nat option \<Rightarrow> (nat \<rightharpoonup> nat) \<Rightarrow> snapshot_manager \<Rightarrow> nat \<times> snapshot_manager" where
  "create_or_reuse now max_staleness pinned m =
     (case find (handle_test (satisfies_max_staleness_ms now max_staleness) m) (sm_reusable_cache m) of
        Some i \<Rightarrow> (i, m\<lparr>sm_heap := (sm_heap m)(i := map_option handle_acquire (sm_heap m i))\<rparr>)
      | None \<Rightarrow>
          (let i = sm_next_id m
           in (i, m\<lparr>sm_next_id := i + 1, sm_heap := (sm_heap m)(i \<mapsto> snapshot_handle_new now i i pinned),
                   sm_active_snapshots := sm_active_snapshots m @ [i]\<rparr>)))"

definition snapshot_release :: "nat \<Rightarrow> snapshot_manager \<Rightarrow> snapshot_manager" where
  "snapshot_release i m =
     (case sm_heap m i of
        None \<Rightarrow> m
      | Some h \<Rightarrow>
          (let (count, h') = handle_release h; m1 = m\<lparr>sm_heap := (sm_heap m)(i \<mapsto> h')\<rparr>
           in if count = 1 then
                m1\<lparr>sm_reusable_cache := (if length (sm_reusable_cache m) < sm_max_cache_size m
                                          then sm_reusable_cache m @ [i] else sm_reusable_cache m),
                   sm_active_snapshots := filter (\<lambda>j. j \<noteq> i) (sm_active_snapshots m)\<rparr>
              else m1))"

definition snapshot_get :: "nat \<Rightarrow> snapshot_manager \<Rightarrow> snapshot_handle option" where
  "snapshot_get i m = (if i \<in> set (sm_active_snapshots m) then sm_heap m i else None)"

definition cleanup_expired :: "nat \<Rightarrow> snapshot_manager \<Rightarrow> nat \<times> snapshot_manager" where
  "cleanup_expired now m =
     (let kept = filter (handle_test (\<lambda>h. handle_age_ms now h < sm_retention_ms m) m) (sm_reusable_cache m)
      in (length (sm_reusable_cache m) - length kept, m\<lparr>sm_reusable_cache := kept\<rparr>))"

definition list_active_snapshots :: "snapshot_manager \<Rightarrow> snapshot_handle list" where
  "list_active_snapshots m = List.map_filter (sm_heap m) (sm_active_snapshots m)"

section \<open>Collecting tail versions\<close>

record tail_gc_collector =
  gc_oldest_active_snapshot_ts :: nat
  gc_reclaimed_versions :: nat
  gc_reclaimed_bytes :: nat
  gc_marked_obsolete :: nat
  gc_obsolete_versions_map :: "(nat \<times> nat list) list"

definition tail_gc_collector_new :: "nat \<Rightarrow> tail_gc_collector" where
  "tail_gc_collector_new initial_snapshot_ts =
     \<lparr>gc_oldest_active_snapshot_ts = initial_snapshot_ts, gc_reclaimed_versions = 0, gc_reclaimed_bytes = 0,
      gc_marked_obsolete = 0, gc_obsolete_versions_map = []\<rparr>"

definition update_oldest_active_snapshot :: "nat \<Rightarrow> tail_gc_collector \<Rightarrow> tail_gc_collector" where
  "update_oldest_active_snapshot snapshot_ts g =
     (if snapshot_ts < gc_oldest_active_snapshot_ts g
      then g\<lparr>gc_oldest_active_snapshot_ts := snapshot_ts\<rparr> else g)"

definition obsolete_of :: "tail_gc_collector \<Rightarrow> nat \<Rightarrow> nat list" where
  "obsolete_of g seg = (case map_of (gc_obsolete_versions_map g) seg of Some is \<Rightarrow> is | None \<Rightarrow> [])"

definition mark_tail_records_obsolete :: "nat \<Rightarrow> nat list \<Rightarrow> tail_gc_collector \<Rightarrow> tail_gc_collector" where
  "mark_tail_records_obsolete seg version_indices g =
     g\<lparr>gc_marked_obsolete := gc_marked_obsolete g + length version_indices,
       gc_obsolete_versions_map :=
         AList.update seg (obsolete_of g seg @ version_indices) (gc_obsolete_versions_map g)\<rparr>"

definition can_reclaim_version :: "nat \<Rightarrow> tail_gc_collector \<Rightarrow> bool" where
  "can_reclaim_version end_ts g \<longleftrightarrow> end_ts < gc_oldest_active_snapshot_ts g"

fun retain_obsolete ::
  "nat \<Rightarrow> (nat \<rightharpoonup> nat \<times> nat) \<Rightarrow> nat list \<Rightarrow> nat \<times> nat \<times> nat list" where
  "retain_obsolete oldest ends [] = (0, 0, [])"
| "retain_obsolete oldest ends (i # is) =
     (let (n, b, kept) = retain_obsolete oldest ends is
      in case ends i of
           Some (end_ts, byte_size) \<Rightarrow>
             if end_ts < oldest then (n + 1, b + byte_size, kept) else (n, b, i # kept)
         | None \<Rightarrow> (n, b, kept))"

definition reclaim_obsolete_versions ::
  "nat \<Rightarrow> (nat \<rightharpoonup> nat \<times> nat) \<Rightarrow> tail_gc_collector \<Rightarrow> (nat \<times> nat) \<times> tail_gc_collector" where
  "reclaim_obsolete_versions seg ends g =
     (let (n, b, kept) = retain_obsolete (gc_oldest_active_snapshot_ts g) ends (obsolete_of g seg);
          map' = (case map_of (gc_obsolete_versions_map g) seg of
                    None \<Rightarrow> gc_obsolete_versions_map g
                  | Some _ \<Rightarrow> if kept = [] then AList.delete seg (gc_obsolete_versions_map g)
                             else AList.update seg kept (gc_obsolete_versions_map g))
      in ((n, b), g\<lparr>gc_obsolete_versions_map := map', gc_reclaimed_versions := gc_reclaimed_versions g + n,
                    gc_reclaimed_bytes := gc_reclaimed_bytes g + b, gc_marked_obsolete := gc_marked_obsolete g - n\<rparr>))"

record gc_metrics =
  gm_reclaimed_versions :: nat
  gm_reclaimed_bytes :: nat
  gm_oldest_snapshot_age_ms :: nat
  gm_records_obsolete :: nat
  gm_records_reclaimable :: nat

definition tracked_versions :: "tail_gc_collector \<Rightarrow> nat" where
  "tracked_versions g = sum_list (map (\<lambda>(_, is). length is) (gc_obsolete_versions_map g))"

definition gc_get_metrics :: "tail_gc_collector \<Rightarrow> gc_metrics" where
  "gc_get_metrics g =
     \<lparr>gm_reclaimed_versions = gc_reclaimed_versions g, gm_reclaimed_bytes = gc_reclaimed_bytes g,
      gm_oldest_snapshot_age_ms = 0, gm_records_obsolete = gc_marked_obsolete g,
      gm_records_reclaimable = tracked_versions g\<rparr>"

section \<open>Specification\<close>

text \<open>
  The merge manager with its workers: the second component holds the jobs that were taken from the
  queue and not yet started.
\<close>

inductive merge_step :: "merge_manager \<times> merge_job list \<Rightarrow> merge_manager \<times> merge_job list \<Rightarrow> bool" where
  merge_schedule: "merge_step (m, hand) (snd (schedule_merge now seg snap window m), hand)"
| merge_take: "take_next_job m = (Some j, m') \<Longrightarrow> merge_step (m, hand) (m', hand @ [j])"
| merge_start: "j \<in> set hand \<Longrightarrow> merge_step (m, hand) (start_job now j m, remove1 j hand)"
| merge_complete: "merge_step (m, hand) (complete_job now i metrics m, hand)"
| merge_fail: "merge_step (m, hand) (fail_job i m, hand)"

definition job_ids :: "merge_manager \<Rightarrow> merge_job list \<Rightarrow> nat list" where
  "job_ids m hand = map mj_job_id (mg_pending_jobs m) @ map mj_job_id hand @
     map (\<lambda>(_, j). mj_job_id j) (mg_active_jobs m) @ map (\<lambda>(j, _). mj_job_id j) (mg_completed_jobs m)"

definition merge_inv :: "merge_manager \<times> merge_job list \<Rightarrow> bool" where
  "merge_inv st \<longleftrightarrow>
     (case st of (m, hand) \<Rightarrow>
        distinct (job_ids m hand) \<and> (\<forall>i\<in>set (job_ids m hand). i < mg_next_job_id m) \<and>
        sorted_wrt (<) (map mj_job_id (mg_pending_jobs m)) \<and>
        distinct (map fst (mg_active_jobs m)) \<and>
        (\<forall>(seg, j)\<in>set (mg_active_jobs m). mj_segment_id j = seg \<and> mj_started_at_ms j \<noteq> None) \<and>
        (\<forall>(j, _)\<in>set (mg_completed_jobs m). merge_duration_ms j \<noteq> None) \<and>
        length (mg_completed_jobs m) \<le> mg_max_history m)"

text \<open>
  The snapshot manager with its clients: the second component counts, per snapshot, the handles given
  out and not yet released. A client only releases a handle it holds.
\<close>

inductive snapshot_step :: "snapshot_manager \<times> nat multiset \<Rightarrow> snapshot_manager \<times> nat multiset \<Rightarrow> bool" where
  snapshot_create: "create_or_reuse now ms pinned m = (i, m') \<Longrightarrow> snapshot_step (m, held) (m', add_mset i held)"
| snapshot_drop: "i \<in># held \<Longrightarrow> snapshot_step (m, held) (snapshot_release i m, held - {#i#})"
| snapshot_cleanup: "snapshot_step (m, held) (snd (cleanup_expired now m), held)"

definition snapshot_inv :: "snapshot_manager \<times> nat multiset \<Rightarrow> bool" where
  "snapshot_inv st \<longleftrightarrow>
     (case st of (m, held) \<Rightarrow>
        1 \<le> sm_next_id m \<and> dom (sm_heap m) = {i. 1 \<le> i \<and> i < sm_next_id m} \<and> set_mset held \<subseteq> dom (sm_heap m) \<and>
        set (sm_reusable_cache m) \<subseteq> dom (sm_heap m) \<and>
        (\<forall>i h. sm_heap m i = Some h \<longrightarrow>
           sh_snapshot_id h = i \<and> sh_snapshot_ts h = i \<and> sh_ref_count h = of_nat (count held i)) \<and>
        set (sm_active_snapshots m) \<subseteq> set_mset held \<and> distinct (sm_active_snapshots m) \<and>
        length (sm_reusable_cache m) \<le> sm_max_cache_size m)"

text \<open>The versions a reclamation removes, as indices into the obsolete list of the segment.\<close>

definition reclaimed_indices :: "nat \<Rightarrow> (nat \<rightharpoonup> nat \<times> nat) \<Rightarrow> tail_gc_collector \<Rightarrow> nat list" where
  "reclaimed_indices seg ends g =
     filter (\<lambda>i. case ends i of Some (end_ts, _) \<Rightarrow> can_reclaim_version end_ts g | None \<Rightarrow> False) (obsolete_of g seg)"

datatype gc_op = GcSnapshot nat | GcMark nat "nat list" | GcReclaim nat "nat \<rightharpoonup> nat \<times> nat"

fun gc_run :: "gc_op \<Rightarrow> tail_gc_collector \<Rightarrow> tail_gc_collector" where
  "gc_run (GcSnapshot ts) g = update_oldest_active_snapshot ts g"
| "gc_run (GcMark seg is) g = mark_tail_records_obsolete seg is g"
| "gc_run (GcReclaim seg ends) g = snd (reclaim_obsolete_versions seg ends g)"

definition gc_wf :: "tail_gc_collector \<Rightarrow> bool" where
  "gc_wf g \<longleftrightarrow> distinct (map fst (gc_obsolete_versions_map g)) \<and> tracked_versions g \<le> gc_marked_obsolete g"

text \<open>
  A version of a chain ends when its successor was committed; reclaiming removes the versions at the
  given indices from the chain.
\<close>

definition chain_ends :: "tail_entry list \<Rightarrow> nat \<rightharpoonup> nat \<times> nat" where
  "chain_ends vs i = (if Suc i < length vs then Some (fst (vs ! Suc i), length (snd (snd (vs ! i)))) else None)"

definition drop_versions :: "nat list \<Rightarrow> tail_entry list \<Rightarrow> tail_entry list" where
  "drop_versions is vs = nths vs {i. i \<notin> set is}"

section \<open>Merge jobs\<close>

lemma distinct_count_le: "distinct xs \<longleftrightarrow> (\<forall>a. count (mset xs) a \<le> 1)"
proof
  assume "distinct xs"
  then show "\<forall>a. count (mset xs) a \<le> 1" by (simp add: distinct_count_atmost_1)
next
  assume le: "\<forall>a. count (mset xs) a \<le> 1"
  have "count (mset xs) a = (if a \<in> set xs then 1 else 0)" for a
  proof (cases "a \<in> set xs")
    case True
    then have "count (mset xs) a \<noteq> 0" by (simp add: count_mset_0_iff)
    with le True show ?thesis by (simp add: le_antisym)
  qed (simp add: count_mset_0_iff)
  then show "distinct xs" by (simp add: distinct_count_atmost_1)
qed

lemma distinct_submset: "mset ys \<subseteq># mset xs \<Longrightarrow> distinct xs \<Longrightarrow> distinct ys"
  unfolding distinct_count_le subseteq_mset_def using order_trans by blast

lemma mset_map_update: "mset (map g (AList.update k v xs)) \<subseteq># add_mset (g (k, v)) (mset (map g xs))"
  by (induction xs) (auto simp: add_mset_commute subset_mset.le_add_same_cancel1
      intro: subset_mset.order_trans mset_subset_eq_add_left)

lemma mset_map_delete:
  "(k, v) \<in> set xs \<Longrightarrow> add_mset (g (k, v)) (mset (map g (AList.delete k xs))) \<subseteq># mset (map g xs)"
proof (induction xs)
  case (Cons p xs)
  have sub: "mset (map g (AList.delete k xs)) \<subseteq># mset (map g xs)"
    by (simp add: AList.delete_eq image_mset_subseteq_mono mset_filter)
  show ?case
  proof (cases "p = (k, v)")
    case True
    with sub show ?thesis by simp
  next
    case False
    with Cons have "add_mset (g (k, v)) (mset (map g (AList.delete k xs))) \<subseteq># mset (map g xs)" by simp
    then show ?thesis
      by (cases p) (auto simp: add_mset_commute intro: subset_mset.order_trans)
  qed
qed simp

lemma mset_move: "C' \<subseteq># add_mset x C \<Longrightarrow> add_mset x A' \<subseteq># A \<Longrightarrow> A' + C' \<subseteq># A + C"
proof -
  assume C: "C' \<subseteq># add_mset x C" and A: "add_mset x A' \<subseteq># A"
  have "A' + C' \<subseteq># A' + add_mset x C" using C by simp
  also have "A' + add_mset x C = add_mset x A' + C" by simp
  also have "\<dots> \<subseteq># A + C" using A by simp
  finally show ?thesis .
qed

lemma set_update_subset: "set (AList.update k v xs) \<subseteq> insert (k, v) (set xs)"
  by (induction xs) auto

lemma merge_inv_mono:
  assumes "merge_inv (m, hand)" and "mset (job_ids m' hand') \<subseteq># mset (job_ids m hand)"
    and "mg_next_job_id m' = mg_next_job_id m"
  shows "distinct (job_ids m' hand') \<and> (\<forall>i\<in>set (job_ids m' hand'). i < mg_next_job_id m')"
proof -
  have "set (job_ids m' hand') \<subseteq> set (job_ids m hand)" using assms(2) by (metis set_mset_mono set_mset_mset)
  with assms distinct_submset [OF assms(2)] show ?thesis by (auto simp: merge_inv_def)
qed

lemma merge_inv_schedule: "merge_inv (m, hand) \<Longrightarrow> merge_inv (snd (schedule_merge now seg snap window m), hand)"
  by (auto simp: merge_inv_def schedule_merge_def Let_def job_ids_def merge_job_new_def sorted_wrt_append less_Suc_eq)

lemma merge_inv_take:
  assumes inv: "merge_inv (m, hand)" and take: "take_next_job m = (Some j, m')"
  shows "merge_inv (m', hand @ [j])"
proof -
  obtain js where js: "mg_pending_jobs m = j # js" and m': "m' = m\<lparr>mg_pending_jobs := js\<rparr>"
    using take by (auto simp: take_next_job_def split: list.splits)
  have "mset (job_ids m' (hand @ [j])) = mset (job_ids m hand)" by (simp add: job_ids_def js m')
  with merge_inv_mono [OF inv, of m' "hand @ [j]"]
  have "distinct (job_ids m' (hand @ [j])) \<and> (\<forall>i\<in>set (job_ids m' (hand @ [j])). i < mg_next_job_id m')"
    by (simp add: m')
  with inv show ?thesis by (simp add: merge_inv_def js m')
qed

lemma merge_inv_start:
  assumes inv: "merge_inv (m, hand)" and j: "j \<in> set hand"
  shows "merge_inv (start_job now j m, remove1 j hand)"
proof -
  let ?j = "j\<lparr>mj_started_at_ms := Some now\<rparr>" and ?g = "\<lambda>(_, j). mj_job_id j"
  let ?m = "start_job now j m"
  have hand: "mset (map mj_job_id hand) = add_mset (mj_job_id j) (mset (map mj_job_id (remove1 j hand)))"
    using j by (simp add: image_mset_Diff)
  have "mset (job_ids ?m (remove1 j hand)) \<subseteq># mset (job_ids m hand)"
    using mset_map_update [of ?g "mj_segment_id j" ?j "mg_active_jobs m"] hand
    by (simp add: job_ids_def start_job_def subset_mset.add_mono)
  from merge_inv_mono [OF inv this] inv show ?thesis
    using set_update_subset [of "mj_segment_id j" ?j "mg_active_jobs m"]
    by (auto simp: merge_inv_def start_job_def distinct_update)
qed

lemma merge_inv_complete:
  assumes inv: "merge_inv (m, hand)"
  shows "merge_inv (complete_job now i metrics m, hand)"
proof (cases "find (\<lambda>(_, j). mj_job_id j = i) (mg_active_jobs m)")
  case None
  with inv show ?thesis by (simp add: complete_job_def)
next
  case (Some p)
  obtain seg j0 where p: "p = (seg, j0)" by (cases p)
  have mem: "(seg, j0) \<in> set (mg_active_jobs m)" using find_SomeD [OF Some] p by simp
  with inv have seg: "mj_segment_id j0 = seg" "mj_started_at_ms j0 \<noteq> None" by (auto simp: merge_inv_def)
  let ?j = "j0\<lparr>mj_completed_at_ms := Some now\<rparr>" and ?g = "\<lambda>(_, j). mj_job_id j"
  let ?c = "mg_completed_jobs m @ [(?j, metrics)]"
  let ?m = "complete_job now i metrics m"
  have m: "?m = m\<lparr>mg_active_jobs := AList.delete seg (mg_active_jobs m),
      mg_completed_jobs := (if length ?c > mg_max_history m then tl ?c else ?c),
      mg_metrics := (mg_metrics m)\<lparr>mm_jobs_completed := mm_jobs_completed (mg_metrics m) + 1\<rparr>\<rparr>"
    using Some by (simp add: complete_job_def p Let_def seg)
  have pend: "mg_pending_jobs ?m = mg_pending_jobs m" by (simp add: m)
  have tl: "mset (map f (tl xs)) \<subseteq># mset (map f xs)" for f :: "merge_job \<times> merge_metrics \<Rightarrow> nat" and xs
    by (cases xs) auto
  have "mset (map (\<lambda>(j, _). mj_job_id j) (mg_completed_jobs ?m)) \<subseteq>#
      add_mset (mj_job_id j0) (mset (map (\<lambda>(j, _). mj_job_id j) (mg_completed_jobs m)))"
    using tl [of "\<lambda>(j, _). mj_job_id j" ?c] by (auto simp: m)
  from mset_move [OF this, of "mset (map ?g (AList.delete seg (mg_active_jobs m)))" "mset (map ?g (mg_active_jobs m))"]
    mset_map_delete [OF mem, of ?g]
  have "mset (map ?g (mg_active_jobs ?m)) + mset (map (\<lambda>(j, _). mj_job_id j) (mg_completed_jobs ?m)) \<subseteq>#
      mset (map ?g (mg_active_jobs m)) + mset (map (\<lambda>(j, _). mj_job_id j) (mg_completed_jobs m))"
    by (simp add: m)
  then have "mset (job_ids ?m hand) \<subseteq># mset (job_ids m hand)"
    by (simp only: job_ids_def mset_append pend subset_mset.add_le_cancel_left)
  from merge_inv_mono [OF inv this]
  have ids: "distinct (job_ids ?m hand) \<and> (\<forall>i\<in>set (job_ids ?m hand). i < mg_next_job_id ?m)" by (simp add: m)
  have "set (tl ?c) \<subseteq> set ?c" by (cases ?c) auto
  then have "set (mg_completed_jobs ?m) \<subseteq> set ?c" by (auto simp: m)
  moreover have "\<forall>(j, _)\<in>set ?c. merge_duration_ms j \<noteq> None" using inv seg by (auto simp: merge_inv_def merge_duration_ms_def)
  ultimately have finished: "\<forall>(j, _)\<in>set (mg_completed_jobs ?m). merge_duration_ms j \<noteq> None" by blast
  have "length (mg_completed_jobs ?m) \<le> mg_max_history ?m" using inv by (auto simp: m merge_inv_def)
  with ids finished inv show ?thesis
    by (auto simp: merge_inv_def m AList.delete_eq distinct_map_fst_filter)
qed

lemma merge_inv_fail: "merge_inv (m, hand) \<Longrightarrow> merge_inv (fail_job i m, hand)"
  by (simp add: merge_inv_def fail_job_def job_ids_def)

interpretation merge_jobs: invariant_system "\<lambda>st. \<exists>policy n. st = (merge_manager_new policy n, [])" merge_step merge_inv
proof
  fix st t
  show "merge_inv st" if "\<exists>policy n. st = (merge_manager_new policy n, [])"
    using that by (auto simp: merge_inv_def merge_manager_new_def job_ids_def)
  assume "merge_inv st" and "merge_step st t"
  from this(2,1) show "merge_inv t"
    by (cases rule: merge_step.cases)
      (auto intro: merge_inv_schedule merge_inv_take merge_inv_start merge_inv_complete merge_inv_fail)
qed

section \<open>Snapshots\<close>

lemma snapshot_inv_create:
  assumes inv: "snapshot_inv (m, held)" and c: "create_or_reuse now ms pinned m = (i, m')"
  shows "snapshot_inv (m', add_mset i held)"
proof (cases "find (handle_test (satisfies_max_staleness_ms now ms) m) (sm_reusable_cache m)")
  case None
  with c have i: "i = sm_next_id m" and m': "m' = m\<lparr>sm_next_id := i + 1,
      sm_heap := (sm_heap m)(i \<mapsto> snapshot_handle_new now i i pinned), sm_active_snapshots := sm_active_snapshots m @ [i]\<rparr>"
    by (auto simp: create_or_reuse_def Let_def)
  from inv i have "i \<notin> dom (sm_heap m)" "set_mset held \<subseteq> dom (sm_heap m)" by (auto simp: snapshot_inv_def)
  then have "i \<notin># held" by blast
  then have "count held i = 0" by (simp add: not_in_iff)
  with inv i \<open>i \<notin># held\<close> show ?thesis
    by (auto simp: snapshot_inv_def m' snapshot_handle_new_def)
next
  case (Some j)
  with c have i: "i = j" and m': "m' = m\<lparr>sm_heap := (sm_heap m)(i := map_option handle_acquire (sm_heap m i))\<rparr>"
    by (auto simp: create_or_reuse_def)
  from find_SomeD [OF Some] i inv obtain h where h: "sm_heap m i = Some h" by (auto simp: handle_test_def split: option.splits)
  with inv show ?thesis
    by (auto simp: snapshot_inv_def m' handle_acquire_def)
qed

lemma snapshot_inv_release:
  assumes inv: "snapshot_inv (m, held)" and i: "i \<in># held"
  shows "snapshot_inv (snapshot_release i m, held - {#i#})"
proof -
  from inv i obtain h where h: "sm_heap m i = Some h" by (auto simp: snapshot_inv_def)
  with inv have rc: "sh_ref_count h = of_nat (count held i)" by (auto simp: snapshot_inv_def)
  from i have pos: "count held i > 0" by simp
  then obtain n where n: "count held i = Suc n" by (auto simp: gr0_conv_Suc)
  have dec: "sh_ref_count h - 1 = of_nat (count (held - {#i#}) i)" by (simp add: rc n)
  show ?thesis
  proof (cases "sh_ref_count h = 1")
    case True
    with inv h dec show ?thesis
      by (auto simp: snapshot_inv_def snapshot_release_def handle_release_def in_diff_count)
  next
    case False
    then have "n \<noteq> 0" using rc n by (cases n) simp_all
    then have "i \<in># held - {#i#}" using n by (simp add: in_diff_count)
    with inv h dec False show ?thesis
      by (auto simp: snapshot_inv_def snapshot_release_def handle_release_def in_diff_count)
  qed
qed

lemma snapshot_inv_cleanup: "snapshot_inv (m, held) \<Longrightarrow> snapshot_inv (snd (cleanup_expired now m), held)"
  by (auto simp: snapshot_inv_def cleanup_expired_def Let_def intro: order_trans [OF length_filter_le])

interpretation snapshots: invariant_system "\<lambda>st. \<exists>c r. st = (snapshot_manager_new c r, {#})" snapshot_step snapshot_inv
proof
  fix st t
  show "snapshot_inv st" if "\<exists>c r. st = (snapshot_manager_new c r, {#})"
    using that by (auto simp: snapshot_inv_def snapshot_manager_new_def)
  assume "snapshot_inv st" and "snapshot_step st t"
  from this(2,1) show "snapshot_inv t"
    by (cases rule: snapshot_step.cases)
      (auto intro: snapshot_inv_create snapshot_inv_release snapshot_inv_cleanup)
qed

section \<open>Collecting tail versions\<close>

lemma retain_obsolete_spec:
  "retain_obsolete oldest ends is =
     (length (filter (\<lambda>i. case ends i of Some (e, _) \<Rightarrow> e < oldest | None \<Rightarrow> False) is),
      sum_list (map (\<lambda>i. snd (the (ends i))) (filter (\<lambda>i. case ends i of Some (e, _) \<Rightarrow> e < oldest | None \<Rightarrow> False) is)),
      filter (\<lambda>i. case ends i of Some (e, _) \<Rightarrow> \<not> e < oldest | None \<Rightarrow> False) is)"
  by (induction "is") (auto simp: Let_def split: option.splits)

lemma reclaim_result:
  "fst (reclaim_obsolete_versions seg ends g) =
     (length (reclaimed_indices seg ends g), sum_list (map (\<lambda>i. snd (the (ends i))) (reclaimed_indices seg ends g)))"
  by (simp add: reclaim_obsolete_versions_def retain_obsolete_spec reclaimed_indices_def can_reclaim_version_def
      cong: option.case_cong)

lemma oldest_run: "gc_oldest_active_snapshot_ts (gc_run op g) =
    (case op of GcSnapshot ts \<Rightarrow> min ts (gc_oldest_active_snapshot_ts g) | _ \<Rightarrow> gc_oldest_active_snapshot_ts g)"
  by (cases op) (auto simp: update_oldest_active_snapshot_def mark_tail_records_obsolete_def
      reclaim_obsolete_versions_def Let_def split: prod.splits)

text \<open>The boundary is below the initial timestamp and every snapshot reported since.\<close>

lemma oldest_runs:
  "gc_oldest_active_snapshot_ts (fold gc_run ops g) \<le> gc_oldest_active_snapshot_ts g \<and>
   (\<forall>ts. GcSnapshot ts \<in> set ops \<longrightarrow> gc_oldest_active_snapshot_ts (fold gc_run ops g) \<le> ts)"
  by (induction ops rule: rev_induct) (auto simp: oldest_run split: gc_op.splits)

lemma tracked_update:
  "distinct (map fst xs) \<Longrightarrow>
     sum_list (map (\<lambda>(_, is). length is) (AList.update seg js xs)) + length (case map_of xs seg of Some is \<Rightarrow> is | None \<Rightarrow> []) =
     sum_list (map (\<lambda>(_, is). length is) xs) + length (js :: nat list)"
  by (induction xs) (auto split: option.splits simp: map_of_eq_None_iff)

lemma tracked_delete:
  "distinct (map fst xs) \<Longrightarrow>
     sum_list (map (\<lambda>(_, is). length is) (AList.delete seg xs)) + length (case map_of xs seg of Some is \<Rightarrow> is | None \<Rightarrow> []) =
     sum_list (map (\<lambda>(_, is). length is) (xs :: (nat \<times> nat list) list))"
proof (induction xs)
  case (Cons p xs)
  obtain k "is" where p: "p = (k, is)" by (cases p)
  show ?case
  proof (cases "k = seg")
    case True
    with Cons.prems p have "AList.delete seg xs = xs"
      by (auto simp: AList.delete_eq filter_id_conv) force
    with True p show ?thesis by simp
  next
    case False
    with Cons p show ?thesis by simp
  qed
qed simp

lemma reclaimed_le: "length (reclaimed_indices seg ends g) + length (snd (snd (retain_obsolete (gc_oldest_active_snapshot_ts g) ends (obsolete_of g seg))))
    \<le> length (obsolete_of g seg)"
proof -
  have "length (filter P is) + length (filter Q is) \<le> length is" if "\<And>i. \<not> (P i \<and> Q i)" for P Q and "is" :: "nat list"
    using that by (induction "is") auto
  then show ?thesis
    unfolding reclaimed_indices_def retain_obsolete_spec can_reclaim_version_def by (auto split: option.splits)
qed

lemma gc_wf_mark: "gc_wf g \<Longrightarrow> gc_wf (mark_tail_records_obsolete seg is g)"
  using tracked_update [of "gc_obsolete_versions_map g" seg "obsolete_of g seg @ is"]
  by (simp add: gc_wf_def mark_tail_records_obsolete_def tracked_versions_def distinct_update obsolete_of_def)

lemma gc_wf_reclaim:
  assumes wf: "gc_wf g"
  shows "gc_wf (snd (reclaim_obsolete_versions seg ends g))"
    and "length (reclaimed_indices seg ends g) \<le> gc_marked_obsolete g"
proof -
  let ?xs = "gc_obsolete_versions_map g" and ?n = "length (reclaimed_indices seg ends g)"
  obtain n b kept where r: "retain_obsolete (gc_oldest_active_snapshot_ts g) ends (obsolete_of g seg) = (n, b, kept)"
    by (metis prod_cases3)
  have n: "n = ?n" using reclaim_result [of seg ends g] by (simp add: reclaim_obsolete_versions_def r Let_def)
  have le: "?n + length kept \<le> length (obsolete_of g seg)" using reclaimed_le [of seg ends g] by (simp add: r)
  from wf have d: "distinct (map fst ?xs)" and t: "tracked_versions g \<le> gc_marked_obsolete g" by (simp_all add: gc_wf_def)
  have del: "sum_list (map (\<lambda>(_, is). length is) (AList.delete seg ?xs)) + length (obsolete_of g seg) = tracked_versions g"
    using tracked_delete [OF d, of seg] by (simp add: obsolete_of_def tracked_versions_def)
  have upd: "sum_list (map (\<lambda>(_, is). length is) (AList.update seg kept ?xs)) + length (obsolete_of g seg) =
      tracked_versions g + length kept"
    using tracked_update [OF d, of seg kept] by (simp add: obsolete_of_def tracked_versions_def)
  show "?n \<le> gc_marked_obsolete g" using le del t by linarith
  show "gc_wf (snd (reclaim_obsolete_versions seg ends g))"
  proof (cases "map_of ?xs seg")
    case None
    then have "obsolete_of g seg = []" by (simp add: obsolete_of_def)
    then show ?thesis
      using le n d t None by (simp add: gc_wf_def reclaim_obsolete_versions_def r Let_def tracked_versions_def)
  next
    case (Some "is")
    then show ?thesis
      using le n d t del upd
      by (auto simp: gc_wf_def reclaim_obsolete_versions_def r Let_def tracked_versions_def [of "gc_obsolete_versions_map_update _ _"]
          tracked_versions_def distinct_update AList.delete_eq distinct_map_fst_filter)
  qed
qed

lemma gc_wf_runs: "gc_wf g \<Longrightarrow> gc_wf (fold gc_run ops g)"
proof (induction ops rule: rev_induct)
  case (snoc op ops)
  then show ?case
    by (cases op) (simp_all add: gc_wf_mark gc_wf_reclaim(1), simp add: gc_wf_def update_oldest_active_snapshot_def tracked_versions_def)
qed simp

text \<open>
  Removing versions whose successor the snapshot sees leaves the newest visible version in place.
\<close>

lemma drop_versions_visible:
  assumes "\<forall>i\<in>set is. Suc i < length vs \<and> fst (vs ! Suc i) \<le> snap"
  shows "(visible_entries snap (drop_versions is vs) = [] \<longleftrightarrow> visible_entries snap vs = []) \<and>
    (visible_entries snap vs \<noteq> [] \<longrightarrow> last (visible_entries snap (drop_versions is vs)) = last (visible_entries snap vs))"
proof (cases "\<exists>v\<in>set vs. fst v \<le> snap")
  case False
  with assms have "set is = {}" by (metis all_not_in_conv nth_mem)
  then show ?thesis by (simp add: drop_versions_def nths_all)
next
  case True
  from split_list_last_prop [OF this] obtain xs v ys where vs: "vs = xs @ v # ys" and v: "fst v \<le> snap"
    and ys: "\<forall>y\<in>set ys. \<not> fst y \<le> snap" by blast
  have "length xs \<notin> set is"
  proof
    assume "length xs \<in> set is"
    with assms have "Suc (length xs) < length vs" "fst (vs ! Suc (length xs)) \<le> snap" by auto
    then have "0 < length ys" "fst (ys ! 0) \<le> snap" by (simp_all add: vs nth_append)
    with ys show False by (metis nth_mem)
  qed
  then have "drop_versions is vs = nths xs {i. i \<notin> set is} @ v # nths ys {i. Suc i + length xs \<notin> set is}"
    by (simp add: drop_versions_def vs nths_append nths_Cons)
  moreover have "visible_entries snap (zs @ v # ws) \<noteq> [] \<and> last (visible_entries snap (zs @ v # ws)) = v"
    if "set ws \<subseteq> set ys" for zs ws
  proof -
    have "visible_entries snap ws = []" using ys that by (fastforce simp: visible_entries_def filter_empty_conv)
    with v show ?thesis by (cases v) (simp add: visible_entries_def)
  qed
  ultimately show ?thesis using set_nths_subset [of ys] by (simp add: vs)
qed

section \<open>Properties\<close>

text \<open>
  Merge jobs go through their stages once. In every state that any interleaving of scheduling, taking,
  starting, completing and failing jobs reaches from a new manager, each job is in at most one place
  (queued, taken, running, completed), the queue hands out the oldest job first, no two running jobs
  share a segment, every completed job has a duration, and the history keeps at most the configured
  number of jobs.
\<close>

theorem merge_job_lifecycle:
  assumes "reaches merge_step (merge_manager_new policy n, []) (m, hand)"
  shows "distinct (job_ids m hand) \<and>
    (\<forall>j m'. take_next_job m = (Some j, m') \<longrightarrow> (\<forall>k\<in>set (mg_pending_jobs m'). mj_job_id j < mj_job_id k)) \<and>
    distinct (map (\<lambda>(_, j). mj_segment_id j) (mg_active_jobs m)) \<and>
    (\<forall>(j, _)\<in>set (mg_completed_jobs m). merge_duration_ms j \<noteq> None) \<and>
    length (mg_completed_jobs m) \<le> mg_max_history m"
proof -
  have inv: "merge_inv (m, hand)" using merge_jobs.reachable_inv [OF _ assms] by blast
  then have "map (\<lambda>(_, j). mj_segment_id j) (mg_active_jobs m) = map fst (mg_active_jobs m)"
    by (auto simp: merge_inv_def)
  then have "distinct (map (\<lambda>(_, j). mj_segment_id j) (mg_active_jobs m))"
    using inv by (simp only:) (simp add: merge_inv_def)
  with inv show ?thesis by (auto simp: merge_inv_def take_next_job_def split: list.splits)
qed

theorem merge_job_lifecycle_witness:
  "distinct (job_ids (snd (schedule_merge 5 1 2 3 (merge_manager_new merge_policy_default 10))) []) \<and>
   length (mg_completed_jobs (snd (schedule_merge 5 1 2 3 (merge_manager_new merge_policy_default 10)))) \<le> 10"
proof -
  have "reaches merge_step (merge_manager_new merge_policy_default 10, [])
      (snd (schedule_merge 5 1 2 3 (merge_manager_new merge_policy_default 10)), [])"
    by (rule reaches_single, rule merge_schedule)
  from merge_job_lifecycle [OF this] show ?thesis by (simp add: schedule_merge_def Let_def merge_manager_new_def)
qed

text \<open>
  Snapshot handles are counted exactly. In every state that any interleaving of requests, releases and
  cache clean-ups reaches from a new manager, where clients release only what they hold, the 64-bit
  reference count of every snapshot is the number of its holders, every active snapshot has a holder,
  and the cache respects its size. A request with a staleness bound returns a snapshot that is no
  older than the bound and counts the new holder.
\<close>

theorem snapshot_reference_counts:
  assumes "reaches snapshot_step (snapshot_manager_new c r, {#}) (m, held)"
  shows "(\<forall>i h. sm_heap m i = Some h \<longrightarrow> sh_ref_count h = of_nat (count held i)) \<and>
    set_mset held \<subseteq> dom (sm_heap m) \<and> set (sm_active_snapshots m) \<subseteq> set_mset held \<and>
    length (sm_reusable_cache m) \<le> sm_max_cache_size m \<and>
    (case create_or_reuse now (Some bound) pinned m of (i, m') \<Rightarrow>
       \<exists>h. sm_heap m' i = Some h \<and> handle_age_ms now h \<le> bound \<and> sh_ref_count h = of_nat (count held i + 1))"
proof -
  have inv: "snapshot_inv (m, held)" using snapshots.reachable_inv [OF _ assms] by blast
  obtain i m' where c: "create_or_reuse now (Some bound) pinned m = (i, m')" by fastforce
  from snapshot_inv_create [OF inv c] obtain h where h: "sm_heap m' i = Some h"
    and rc: "sh_ref_count h = of_nat (count held i + 1)"
    by (auto simp: snapshot_inv_def)
  have "handle_age_ms now h \<le> bound"
    using c h find_SomeD [of "handle_test (satisfies_max_staleness_ms now (Some bound)) m" "sm_reusable_cache m"]
    by (auto simp: create_or_reuse_def Let_def snapshot_handle_new_def handle_age_ms_def handle_test_def handle_acquire_def
        satisfies_max_staleness_ms_def split: option.splits)
  with inv c h rc show ?thesis by (auto simp: snapshot_inv_def)
qed

theorem snapshot_reference_counts_witness:
  "\<exists>m. reaches snapshot_step (snapshot_manager_new 4 1000, {#}) (m, {#1#}) \<and>
     (\<forall>h. sm_heap m 1 = Some h \<longrightarrow> sh_ref_count h = 1)"
proof -
  let ?m = "snd (create_or_reuse 7 None Map.empty (snapshot_manager_new 4 1000))"
  have "reaches snapshot_step (snapshot_manager_new 4 1000, {#}) (?m, add_mset 1 {#})"
    by (rule reaches_single, rule snapshot_create [of 7 None Map.empty])
      (simp add: create_or_reuse_def snapshot_manager_new_def Let_def)
  from this snapshot_reference_counts [OF this] show ?thesis by auto
qed



text \<open>
  A reused snapshot is invisible to the manager. A snapshot that was released and then handed out again
  from the cache has a holder, yet it is not among the active snapshots and cannot be found by its id.
\<close>

lemma snapshot_reuse_not_active:
  "\<exists>m. reaches snapshot_step (snapshot_manager_new 4 1000, {#}) (m, {#1#}) \<and>
     list_active_snapshots m = [] \<and> snapshot_get 1 m = None"
proof -
  let ?m0 = "snapshot_manager_new 4 1000"
  let ?m1 = "snd (create_or_reuse 7 None Map.empty ?m0)"
  let ?m2 = "snapshot_release 1 ?m1"
  let ?m3 = "snd (create_or_reuse 8 None Map.empty ?m2)"
  have 1: "snapshot_step (?m0, {#}) (?m1, {#1#})"
    using snapshot_create [of 7 None Map.empty ?m0 1 ?m1 "{#}"]
    by (simp add: create_or_reuse_def snapshot_manager_new_def Let_def)
  have 2: "snapshot_step (?m1, {#1#}) (?m2, {#})" using snapshot_drop [of 1 "{#1#}" ?m1] by simp
  have 3: "create_or_reuse 8 None Map.empty ?m2 = (1, ?m3)"
    by (simp add: create_or_reuse_def snapshot_manager_new_def Let_def snapshot_release_def snapshot_handle_new_def
        handle_release_def handle_test_def satisfies_max_staleness_ms_def)
  from snapshot_create [OF this, of "{#}"] have reuse: "snapshot_step (?m2, {#}) (?m3, {#1#})" by simp
  have "sm_active_snapshots ?m3 = []"
    by (simp add: create_or_reuse_def snapshot_manager_new_def Let_def snapshot_release_def snapshot_handle_new_def
        handle_release_def handle_test_def satisfies_max_staleness_ms_def)
  moreover have "reaches snapshot_step (?m0, {#}) (?m3, {#1#})"
    by (rule reaches_step, rule reaches_step, rule reaches_single) (rule 1 2 reuse)+
  ultimately show ?thesis by (auto simp: list_active_snapshots_def snapshot_get_def map_filter_simps)
qed

text \<open>The boundary of the collector never rises, so a version that ends at or after the initial boundary stays.\<close>

lemma gc_boundary_never_rises:
  "ts0 \<le> end_ts \<Longrightarrow> \<not> can_reclaim_version end_ts (fold gc_run ops (tail_gc_collector_new ts0))"
  using oldest_runs [of ops "tail_gc_collector_new ts0"] by (auto simp: can_reclaim_version_def tail_gc_collector_new_def)

text \<open>A failed merge job stays in the active jobs and is reported as running.\<close>

lemma failed_job_keeps_running:
  "get_job_status i m = Some MsRunning \<Longrightarrow> get_job_status i (fail_job i m) = Some MsRunning"
  by (auto simp: get_job_status_def fail_job_def split: if_splits)

end
