(* ===== verification/Raft.thy ===== *)
theory Raft
  imports Vng_Prelude "HOL-Library.Word"
begin

unbundle bit_operations_syntax

text \<open>
  A single Raft node, \<^verbatim>\<open>services/voltnuerongridd/src/raft.rs\<close>: roles, log with compaction, the
  RequestVote, AppendEntries and InstallSnapshot handlers, leader bookkeeping, the logical clock and
  the durable part of the state. The lemmas give, for each operation, its effect on term, vote, log
  and commit index; the invariant is that log positions and log indices agree.

  The per-peer maps \<^verbatim>\<open>next_index\<close> and \<^verbatim>\<open>match_index\<close> are association lists because
  \<^verbatim>\<open>record_append_success\<close> counts over the values of \<^verbatim>\<open>match_index\<close>.
\<close>

section \<open>Data\<close>

datatype raft_role = Follower | Candidate | Leader

record raft_log_entry =
  le_index :: nat
  le_term :: nat
  le_command :: string

record raft_vote_request =
  vq_term :: nat
  vq_candidate_id :: string
  vq_last_log_index :: nat
  vq_last_log_term :: nat

record raft_vote_response =
  vr_term :: nat
  vote_granted :: bool

record raft_append_request =
  aq_term :: nat
  aq_leader_id :: string
  prev_log_index :: nat
  prev_log_term :: nat
  aq_entries :: "raft_log_entry list"
  leader_commit :: nat

record raft_append_response =
  ar_term :: nat
  ar_success :: bool
  ar_match_index :: nat

record raft_install_snapshot_request =
  iq_term :: nat
  iq_leader_id :: string
  iq_snapshot_index :: nat
  iq_snapshot_term :: nat
  iq_rows :: "(string \<times> (string \<rightharpoonup> string)) list"

record raft_install_snapshot_response =
  ir_term :: nat
  ir_success :: bool

record raft_node =
  node_id :: string
  current_term :: nat
  voted_for :: "string option"
  role :: raft_role
  raft_log :: "raft_log_entry list"
  commit_index :: nat
  last_applied :: nat
  ticks_since_heartbeat :: nat
  election_timeout_ticks :: nat
  fencing_token :: nat
  next_index :: "(string \<times> nat) list"
  match_index :: "(string \<times> nat) list"
  snapshot_index :: nat
  snapshot_term :: nat

record raft_durable_state =
  ds_current_term :: nat
  ds_voted_for :: "string option"
  ds_snapshot_index :: nat
  ds_snapshot_term :: nat
  ds_log :: "raft_log_entry list"

section \<open>Operations\<close>

text \<open>The 64-bit hash wraps; \<^verbatim>\<open>wrapping_mul\<close> is word multiplication.\<close>

definition fnv_offset :: "64 word" where
  "fnv_offset = 14695981039346656037"

definition fnv_prime :: "64 word" where
  "fnv_prime = 1099511628211"

definition election_hash :: "string \<Rightarrow> 64 word" where
  "election_hash s = fold (\<lambda>b acc. (acc * fnv_prime) XOR of_nat (of_char b)) s fnv_offset"

definition election_timeout_for :: "string \<Rightarrow> nat" where
  "election_timeout_for s = 10 + unat (election_hash s) mod 10"

definition raft_node_new :: "string \<Rightarrow> raft_node" where
  "raft_node_new i =
     \<lparr>node_id = i, current_term = 0, voted_for = None, role = Follower, raft_log = [],
      commit_index = 0, last_applied = 0, ticks_since_heartbeat = 0,
      election_timeout_ticks = election_timeout_for i, fencing_token = 0,
      next_index = [], match_index = [], snapshot_index = 0, snapshot_term = 0\<rparr>"

definition log_entry_at :: "raft_node \<Rightarrow> nat \<Rightarrow> raft_log_entry option" where
  "log_entry_at n i =
     (if i = 0 \<or> i \<le> snapshot_index n then None
      else let offset = i - snapshot_index n - 1
           in if offset < length (raft_log n) then Some (raft_log n ! offset) else None)"

definition term_at :: "raft_node \<Rightarrow> nat \<Rightarrow> nat" where
  "term_at n i =
     (if i = 0 then 0
      else if i = snapshot_index n then snapshot_term n
      else case log_entry_at n i of Some e \<Rightarrow> le_term e | None \<Rightarrow> 0)"

definition last_log_position :: "raft_node \<Rightarrow> nat \<times> nat" where
  "last_log_position n =
     (if raft_log n \<noteq> [] then (le_index (last (raft_log n)), le_term (last (raft_log n)))
      else if snapshot_index n > 0 then (snapshot_index n, snapshot_term n)
      else (0, 0))"

definition become_candidate :: "raft_node \<Rightarrow> raft_node" where
  "become_candidate n =
     n\<lparr>current_term := current_term n + 1, role := Candidate, voted_for := Some (node_id n)\<rparr>"

definition become_leader :: "raft_node \<Rightarrow> raft_node" where
  "become_leader n =
     n\<lparr>fencing_token := fencing_token n + 1, role := Leader, next_index := [], match_index := []\<rparr>"

definition init_leader_indices :: "string list \<Rightarrow> raft_node \<Rightarrow> raft_node" where
  "init_leader_indices peers n =
     (let nxt = fst (last_log_position n) + 1
      in fold (\<lambda>p n. n\<lparr>next_index := AList.update p nxt (next_index n),
                        match_index := AList.update p 0 (match_index n)\<rparr>) peers n)"

definition quorum :: "nat \<Rightarrow> nat" where
  "quorum total_nodes = (total_nodes + 1) div 2"

definition replication_count :: "raft_node \<Rightarrow> nat \<Rightarrow> nat" where
  "replication_count n i = 1 + length (filter (\<lambda>pm. snd pm \<ge> i) (match_index n))"

definition record_append_success :: "string \<Rightarrow> nat \<Rightarrow> nat \<Rightarrow> raft_node \<Rightarrow> raft_node" where
  "record_append_success peer peer_match total_nodes n =
     (let n1 = n\<lparr>next_index := AList.update peer (peer_match + 1) (next_index n),
                 match_index := AList.update peer peer_match (match_index n)\<rparr>
      in fold (\<lambda>i n. if replication_count n i \<ge> quorum total_nodes then n\<lparr>commit_index := i\<rparr> else n)
           [commit_index n + 1..<peer_match + 1] n1)"

definition record_append_failure :: "string \<Rightarrow> raft_node \<Rightarrow> raft_node" where
  "record_append_failure peer n =
     (let ni = (case map_of (next_index n) peer of Some i \<Rightarrow> i | None \<Rightarrow> 1)
      in n\<lparr>next_index := AList.update peer (max (ni - 1) 1) (next_index n)\<rparr>)"

definition become_follower :: "nat \<Rightarrow> raft_node \<Rightarrow> raft_node" where
  "become_follower new_term n =
     (let n1 = (if new_term > current_term n then n\<lparr>current_term := new_term, voted_for := None\<rparr> else n)
      in n1\<lparr>role := Follower\<rparr>)"

definition handle_vote_request ::
  "raft_vote_request \<Rightarrow> raft_node \<Rightarrow> raft_vote_response \<times> raft_node" where
  "handle_vote_request req n0 =
     (let n = (if vq_term req > current_term n0 then become_follower (vq_term req) n0 else n0);
          no = (\<lparr>vr_term = current_term n, vote_granted = False\<rparr>, n)
      in if vq_term req < current_term n then no
         else if (case voted_for n of Some v \<Rightarrow> v \<noteq> vq_candidate_id req | None \<Rightarrow> False) then no
         else let (our_last_index, our_last_term) = last_log_position n;
                  log_ok = (vq_last_log_term req > our_last_term \<or>
                            vq_last_log_term req = our_last_term \<and> vq_last_log_index req \<ge> our_last_index)
              in if \<not> log_ok then no
                 else (\<lparr>vr_term = current_term n, vote_granted = True\<rparr>,
                       n\<lparr>voted_for := Some (vq_candidate_id req)\<rparr>))"

text \<open>The loop over the entries of an AppendEntries request, on the in-memory log.\<close>

definition append_entry :: "nat \<Rightarrow> raft_log_entry \<Rightarrow> raft_log_entry list \<Rightarrow> raft_log_entry list" where
  "append_entry snap e lg =
     (if le_index e \<le> snap then lg
      else let phys = le_index e - snap - 1
           in if phys < length lg
              then (if le_term (lg ! phys) \<noteq> le_term e then take phys lg @ [e] else lg)
              else lg @ [e])"

definition append_consistent :: "raft_append_request \<Rightarrow> raft_node \<Rightarrow> bool" where
  "append_consistent req n =
     (prev_log_index req > 0 \<longrightarrow>
        (if prev_log_index req = snapshot_index n then prev_log_term req = snapshot_term n
         else case log_entry_at n (prev_log_index req) of
                Some e \<Rightarrow> le_term e = prev_log_term req
              | None \<Rightarrow> False))"

definition handle_append_entries ::
  "raft_append_request \<Rightarrow> raft_node \<Rightarrow> raft_append_response \<times> raft_node" where
  "handle_append_entries req n0 =
     (if aq_term req < current_term n0
      then (\<lparr>ar_term = current_term n0, ar_success = False, ar_match_index = fst (last_log_position n0)\<rparr>, n0)
      else let n = (become_follower (aq_term req) n0)\<lparr>ticks_since_heartbeat := 0\<rparr>
           in if \<not> append_consistent req n
              then (\<lparr>ar_term = current_term n, ar_success = False, ar_match_index = fst (last_log_position n)\<rparr>, n)
              else let n1 = n\<lparr>raft_log := fold (append_entry (snapshot_index n)) (aq_entries req) (raft_log n)\<rparr>;
                       n2 = (if leader_commit req > commit_index n1
                             then n1\<lparr>commit_index := min (leader_commit req) (fst (last_log_position n1))\<rparr>
                             else n1)
                   in (\<lparr>ar_term = current_term n2, ar_success = True,
                        ar_match_index = fst (last_log_position n2)\<rparr>, n2))"

definition tick :: "raft_node \<Rightarrow> raft_node" where
  "tick n =
     (let n1 = n\<lparr>ticks_since_heartbeat := ticks_since_heartbeat n + 1\<rparr>
      in if role n1 = Follower \<and> ticks_since_heartbeat n1 \<ge> election_timeout_ticks n1
         then (become_candidate n1)\<lparr>ticks_since_heartbeat := 0\<rparr>
         else n1)"

definition append_command :: "string \<Rightarrow> nat \<Rightarrow> raft_node \<Rightarrow> nat \<times> raft_node" where
  "append_command cmd total_peers n =
     (let i = fst (last_log_position n) + 1;
          n1 = n\<lparr>raft_log := raft_log n @ [\<lparr>le_index = i, le_term = current_term n, le_command = cmd\<rparr>]\<rparr>;
          n2 = (if i > last_applied n1 then n1\<lparr>last_applied := i\<rparr> else n1);
          n3 = (if total_peers = 0 \<and> i > commit_index n2 then n2\<lparr>commit_index := i\<rparr> else n2)
      in (i, n3))"

definition append_command_pending :: "string \<Rightarrow> nat \<Rightarrow> raft_node \<Rightarrow> nat \<times> raft_node" where
  "append_command_pending cmd total_peers n =
     (let i = fst (last_log_position n) + 1;
          n1 = n\<lparr>raft_log := raft_log n @ [\<lparr>le_index = i, le_term = current_term n, le_command = cmd\<rparr>]\<rparr>;
          n2 = (if total_peers = 0 \<and> i > commit_index n1 then n1\<lparr>commit_index := i\<rparr> else n1)
      in (i, n2))"

definition handle_install_snapshot ::
  "raft_install_snapshot_request \<Rightarrow> raft_node \<Rightarrow> raft_install_snapshot_response \<times> raft_node" where
  "handle_install_snapshot req n0 =
     (if iq_term req < current_term n0
      then (\<lparr>ir_term = current_term n0, ir_success = False\<rparr>, n0)
      else let n = (become_follower (iq_term req) n0)\<lparr>ticks_since_heartbeat := 0\<rparr>;
               yes = \<lparr>ir_term = current_term n, ir_success = True\<rparr>
           in if iq_snapshot_index req \<le> snapshot_index n then (yes, n)
              else let n1 = n\<lparr>raft_log := filter (\<lambda>e. le_index e > iq_snapshot_index req) (raft_log n),
                              snapshot_index := iq_snapshot_index req,
                              snapshot_term := iq_snapshot_term req\<rparr>;
                       n2 = (if iq_snapshot_index req > commit_index n1
                             then n1\<lparr>commit_index := iq_snapshot_index req\<rparr> else n1);
                       n3 = (if iq_snapshot_index req > last_applied n2
                             then n2\<lparr>last_applied := iq_snapshot_index req\<rparr> else n2)
                   in (yes, n3))"

definition compact_log :: "nat \<Rightarrow> raft_node \<Rightarrow> raft_node" where
  "compact_log up_to n =
     (if up_to \<le> snapshot_index n then n
      else case log_entry_at n up_to of
             Some e \<Rightarrow>
               n\<lparr>snapshot_term := le_term e,
                 raft_log := filter (\<lambda>e. le_index e > up_to) (raft_log n),
                 snapshot_index := up_to\<rparr>
           | None \<Rightarrow>
               if up_to \<ge> fst (last_log_position n)
               then n\<lparr>snapshot_term := snd (last_log_position n), raft_log := [], snapshot_index := up_to\<rparr>
               else n\<lparr>raft_log := filter (\<lambda>e. le_index e > up_to) (raft_log n), snapshot_index := up_to\<rparr>)"

definition durable_from_node :: "raft_node \<Rightarrow> raft_durable_state" where
  "durable_from_node n =
     \<lparr>ds_current_term = current_term n, ds_voted_for = voted_for n,
      ds_snapshot_index = snapshot_index n, ds_snapshot_term = snapshot_term n, ds_log = raft_log n\<rparr>"

definition restore_durable :: "raft_durable_state \<Rightarrow> raft_node \<Rightarrow> raft_node" where
  "restore_durable st n =
     (let n1 = n\<lparr>current_term := ds_current_term st, voted_for := ds_voted_for st,
                 snapshot_index := ds_snapshot_index st, snapshot_term := ds_snapshot_term st,
                 raft_log := ds_log st\<rparr>;
          n2 = (if ds_snapshot_index st > commit_index n1 then n1\<lparr>commit_index := ds_snapshot_index st\<rparr> else n1)
      in if ds_snapshot_index st > last_applied n2 then n2\<lparr>last_applied := ds_snapshot_index st\<rparr> else n2)"

section \<open>Invariants and steps\<close>

text \<open>The entry at position \<open>i\<close> of the in-memory log has the index \<open>snap + 1 + i\<close>.\<close>

definition indexed_from :: "nat \<Rightarrow> raft_log_entry list \<Rightarrow> bool" where
  "indexed_from snap lg \<longleftrightarrow> (\<forall>i < length lg. le_index (lg ! i) = snap + 1 + i)"

definition log_wf :: "raft_node \<Rightarrow> bool" where
  "log_wf n \<longleftrightarrow> indexed_from (snapshot_index n) (raft_log n)"

text \<open>The entries of a request follow its \<^verbatim>\<open>prev_log_index\<close> without a gap.\<close>

definition append_request_wf :: "raft_append_request \<Rightarrow> bool" where
  "append_request_wf req \<longleftrightarrow> indexed_from (prev_log_index req) (aq_entries req)"

text \<open>
  The transitions of one node: clock ticks, the three RPC handlers, winning an election, leader
  bookkeeping, client appends, compaction of applied entries, and advancing \<^verbatim>\<open>last_applied\<close>.
\<close>

inductive raft_step :: "raft_node \<Rightarrow> raft_node \<Rightarrow> bool" where
  step_tick: "raft_step n (tick n)"
| step_reset_timer: "raft_step n (n\<lparr>ticks_since_heartbeat := 0\<rparr>)"
| step_vote: "raft_step n (snd (handle_vote_request req n))"
| step_append: "append_request_wf areq \<Longrightarrow> raft_step n (snd (handle_append_entries areq n))"
| step_install: "raft_step n (snd (handle_install_snapshot ireq n))"
| step_lead: "role n = Candidate \<Longrightarrow> raft_step n (init_leader_indices peers (become_leader n))"
| step_success: "raft_step n (record_append_success peer m total_nodes n)"
| step_failure: "raft_step n (record_append_failure peer n)"
| step_peer_snapshot:
    "raft_step n (n\<lparr>next_index := AList.update peer (i + 1) (next_index n),
                    match_index := AList.update peer i (match_index n)\<rparr>)"
| step_command: "raft_step n (snd (append_command cmd peers_count n))"
| step_command_pending: "raft_step n (snd (append_command_pending cmd peers_count n))"
| step_compact: "raft_step n (compact_log up_to n)"
| step_applied: "raft_step n (n\<lparr>last_applied := i\<rparr>)"

section \<open>Log positions\<close>

lemma indexed_from_Nil [simp]: "indexed_from snap []"
  by (simp add: indexed_from_def)

lemma indexed_from_snoc:
  "indexed_from snap (lg @ [e]) \<longleftrightarrow> indexed_from snap lg \<and> le_index e = snap + 1 + length lg"
  by (auto simp: indexed_from_def nth_append less_Suc_eq)

lemma indexed_from_take: "indexed_from snap lg \<Longrightarrow> indexed_from snap (take k lg)"
  by (simp add: indexed_from_def)

lemma indexed_from_Cons:
  "indexed_from p (e # es) \<longleftrightarrow> le_index e = p + 1 \<and> indexed_from (p + 1) es"
  by (auto simp: indexed_from_def nth_Cons split: nat.splits)

lemma indexed_from_drop:
  "indexed_from snap lg \<Longrightarrow> indexed_from (snap + k) (drop k lg)"
  by (auto simp: indexed_from_def)

lemma indexed_from_gt: "indexed_from snap lg \<Longrightarrow> x \<in> set lg \<Longrightarrow> le_index x > snap"
  by (auto simp: indexed_from_def in_set_conv_nth)

lemma filter_index_drop:
  assumes "indexed_from snap lg" and "snap \<le> i"
  shows "filter (\<lambda>e. le_index e > i) lg = drop (i - snap) lg"
  using assms
proof (induction lg arbitrary: snap)
  case Nil
  then show ?case by simp
next
  case (Cons e lg)
  then have e: "le_index e = snap + 1" and lg: "indexed_from (snap + 1) lg"
    by (simp_all add: indexed_from_Cons)
  show ?case
  proof (cases "snap = i")
    case True
    then have "\<forall>x\<in>set (e # lg). le_index x > i"
      using indexed_from_gt [OF Cons.prems(1)] by blast
    then have "filter (\<lambda>e. le_index e > i) (e # lg) = e # lg" by (simp only: filter_id_conv)
    with True show ?thesis by simp
  next
    case False
    with Cons.prems(2) have "i - snap = Suc (i - (snap + 1))" by simp
    with Cons.IH [OF lg] Cons.prems(2) False e show ?thesis by simp
  qed
qed

lemma last_log_position_wf:
  assumes "log_wf n"
  shows "fst (last_log_position n) = snapshot_index n + length (raft_log n)"
proof (cases "raft_log n" rule: rev_cases)
  case (snoc lg e)
  with assms show ?thesis
    by (simp add: last_log_position_def log_wf_def indexed_from_snoc)
qed (simp add: last_log_position_def)

lemma log_entry_at_wf:
  assumes "log_wf n"
  shows "log_entry_at n i = Some e \<Longrightarrow> le_index e = i \<and> e \<in> set (raft_log n)"
  using assms
  by (auto simp: log_entry_at_def log_wf_def indexed_from_def Let_def split: if_splits)

lemma log_entry_at_Some_iff:
  "(\<exists>e. log_entry_at n i = Some e) \<longleftrightarrow> snapshot_index n < i \<and> i \<le> snapshot_index n + length (raft_log n)"
  by (auto simp: log_entry_at_def Let_def)

section \<open>Appending entries\<close>

lemma append_entry_wf:
  assumes "indexed_from snap lg" and "le_index e = p + 1" and "p \<le> snap + length lg"
  shows "indexed_from snap (append_entry snap e lg)"
    and "p + 1 \<le> snap + length (append_entry snap e lg)"
    and "take (p - snap) (append_entry snap e lg) = take (p - snap) lg"
    and "snap \<le> p \<Longrightarrow> p - snap < length (append_entry snap e lg) \<and>
      le_term (append_entry snap e lg ! (p - snap)) = le_term e"
  using assms
  by (auto simp: append_entry_def Let_def indexed_from_snoc indexed_from_take nth_append min_def)

lemma append_entries_wf:
  assumes "indexed_from snap lg" and "indexed_from p es" and "p \<le> snap + length lg"
  shows "indexed_from snap (fold (append_entry snap) es lg)"
    and "p + length es \<le> snap + length (fold (append_entry snap) es lg)"
    and "take (p - snap) (fold (append_entry snap) es lg) = take (p - snap) lg"
  using assms
proof (induction es arbitrary: p lg)
  case (Cons e es)
  {
    case 1
    then show ?case using Cons.IH(1) append_entry_wf(1,2) by (auto simp: indexed_from_Cons)
  next
    case 2
    then show ?case using Cons.IH(2) [of "append_entry snap e lg" "p + 1"] append_entry_wf(1,2)
      by (auto simp: indexed_from_Cons)
  next
    case 3
    then have e: "le_index e = p + 1" and es: "indexed_from (p + 1) es"
      by (simp_all add: indexed_from_Cons)
    have "take (p + 1 - snap) (fold (append_entry snap) es (append_entry snap e lg)) =
        take (p + 1 - snap) (append_entry snap e lg)"
      using Cons.IH(3) [of "append_entry snap e lg" "p + 1"] append_entry_wf(1,2) [OF 3(1) e 3(3)] es
      by simp
    then have "take (p - snap) (fold (append_entry snap) es (append_entry snap e lg)) =
        take (p - snap) (append_entry snap e lg)"
      by (rule take_eq_mono) simp
    with append_entry_wf(3) [OF 3(1) e 3(3)] show ?case by simp
  }
qed simp_all

lemma append_entries_match:
  assumes "indexed_from snap lg" and "indexed_from p es" and "p \<le> snap + length lg"
    and "i < length es" and "snap \<le> p + i"
  shows "p + i - snap < length (fold (append_entry snap) es lg) \<and>
    le_term (fold (append_entry snap) es lg ! (p + i - snap)) = le_term (es ! i)"
  using assms
proof (induction es arbitrary: p lg i)
  case (Cons e es)
  from Cons.prems have e: "le_index e = p + 1" and es: "indexed_from (p + 1) es"
    by (simp_all add: indexed_from_Cons)
  note step = append_entry_wf [OF Cons.prems(1) e Cons.prems(3)]
  show ?case
  proof (cases i)
    case 0
    let ?res = "fold (append_entry snap) es (append_entry snap e lg)"
    have "take (p + 1 - snap) ?res = take (p + 1 - snap) (append_entry snap e lg)"
      by (rule append_entries_wf(3) [OF step(1) es step(2)])
    moreover have "p - snap < p + 1 - snap" using Cons.prems(5) 0 by simp
    ultimately have "?res ! (p - snap) = append_entry snap e lg ! (p - snap)"
      by (metis nth_take)
    moreover have "p - snap < length ?res"
      using append_entries_wf(2) [OF step(1) es step(2)] Cons.prems(5) 0 by simp
    ultimately show ?thesis using step(4) Cons.prems(5) 0 by simp
  next
    case (Suc j)
    with Cons.IH [OF step(1) es step(2), of j] Cons.prems(4,5) show ?thesis by simp
  qed
qed simp

text \<open>Entries already in the log with the same terms leave it unchanged.\<close>

lemma append_entries_id:
  assumes "indexed_from p es"
    and "\<And>i. i < length es \<Longrightarrow> snap \<le> p + i \<Longrightarrow>
      p + i - snap < length lg \<and> le_term (lg ! (p + i - snap)) = le_term (es ! i)"
  shows "fold (append_entry snap) es lg = lg"
  using assms
proof (induction es arbitrary: p)
  case (Cons e es)
  have "append_entry snap e lg = lg"
    using Cons.prems(1) Cons.prems(2) [of 0]
    by (auto simp: append_entry_def indexed_from_Cons Let_def)
  moreover have "fold (append_entry snap) es lg = lg"
  proof (rule Cons.IH [of "p + 1"])
    show "indexed_from (p + 1) es" using Cons.prems(1) by (simp add: indexed_from_Cons)
  next
    fix i assume "i < length es" and "snap \<le> p + 1 + i"
    then show "p + 1 + i - snap < length lg \<and> le_term (lg ! (p + 1 + i - snap)) = le_term (es ! i)"
      using Cons.prems(2) [of "Suc i"] by simp
  qed
  ultimately show ?case by simp
qed simp

section \<open>Terms, votes and logs under each operation\<close>

text \<open>Terms do not go back, and a vote cast in a term stays as it is for that term.\<close>

definition vote_ext :: "raft_node \<Rightarrow> raft_node \<Rightarrow> bool" where
  "vote_ext n m \<longleftrightarrow>
     node_id m = node_id n \<and> current_term n \<le> current_term m \<and>
     (current_term m = current_term n \<longrightarrow> voted_for n \<noteq> None \<longrightarrow> voted_for m = voted_for n)"

lemma vote_ext_refl [simp]: "vote_ext n n"
  by (simp add: vote_ext_def)

lemma vote_ext_trans: "vote_ext n m \<Longrightarrow> vote_ext m k \<Longrightarrow> vote_ext n k"
  by (auto simp: vote_ext_def)

lemma vote_ext_fields:
  "node_id m = node_id n \<Longrightarrow> current_term m = current_term n \<Longrightarrow> voted_for m = voted_for n \<Longrightarrow> vote_ext n m"
  by (simp add: vote_ext_def)

text \<open>Leader bookkeeping touches neither term, vote, role nor log.\<close>

lemma init_leader_indices_fields [simp]:
  "node_id (init_leader_indices ps n) = node_id n"
  "current_term (init_leader_indices ps n) = current_term n"
  "voted_for (init_leader_indices ps n) = voted_for n"
  "role (init_leader_indices ps n) = role n"
  "raft_log (init_leader_indices ps n) = raft_log n"
  "snapshot_index (init_leader_indices ps n) = snapshot_index n"
  "snapshot_term (init_leader_indices ps n) = snapshot_term n"
  "commit_index (init_leader_indices ps n) = commit_index n"
  "last_applied (init_leader_indices ps n) = last_applied n"
  by (simp_all add: init_leader_indices_def Let_def fold_field)

lemma record_append_success_fields [simp]:
  "node_id (record_append_success p m t n) = node_id n"
  "current_term (record_append_success p m t n) = current_term n"
  "voted_for (record_append_success p m t n) = voted_for n"
  "role (record_append_success p m t n) = role n"
  "raft_log (record_append_success p m t n) = raft_log n"
  "snapshot_index (record_append_success p m t n) = snapshot_index n"
  "snapshot_term (record_append_success p m t n) = snapshot_term n"
  "last_applied (record_append_success p m t n) = last_applied n"
  "match_index (record_append_success p m t n) = AList.update p m (match_index n)"
  by (simp_all add: record_append_success_def Let_def fold_field)

lemma become_follower_fields [simp]:
  "node_id (become_follower t n) = node_id n"
  "raft_log (become_follower t n) = raft_log n"
  "snapshot_index (become_follower t n) = snapshot_index n"
  "snapshot_term (become_follower t n) = snapshot_term n"
  "commit_index (become_follower t n) = commit_index n"
  "last_applied (become_follower t n) = last_applied n"
  "role (become_follower t n) = Follower"
  "current_term (become_follower t n) = max t (current_term n)"
  by (simp_all add: become_follower_def Let_def max_def)

lemma become_follower_vote:
  "voted_for (become_follower t n) = (if t > current_term n then None else voted_for n)"
  by (simp add: become_follower_def Let_def)

lemma last_log_position_cong:
  "raft_log n = raft_log m \<Longrightarrow> snapshot_index n = snapshot_index m \<Longrightarrow>
   snapshot_term n = snapshot_term m \<Longrightarrow> last_log_position n = last_log_position m"
  by (simp add: last_log_position_def)

lemma become_follower_position [simp]: "last_log_position (become_follower t n) = last_log_position n"
  by (rule last_log_position_cong) simp_all

lemma handle_vote_request_fields [simp]:
  "node_id (snd (handle_vote_request req n)) = node_id n"
  "raft_log (snd (handle_vote_request req n)) = raft_log n"
  "snapshot_index (snd (handle_vote_request req n)) = snapshot_index n"
  "current_term (snd (handle_vote_request req n)) = max (vq_term req) (current_term n)"
  by (auto simp: handle_vote_request_def Let_def split_beta)

lemma handle_vote_request_ext: "vote_ext n (snd (handle_vote_request req n))"
  by (auto simp: handle_vote_request_def Let_def split_beta vote_ext_def become_follower_vote
      split: option.splits)

text \<open>
  A granted vote is for the request's term, which is then the node's term, and is recorded; the
  candidate's log was at least as up to date as the voter's.
\<close>

lemma handle_vote_request_granted:
  assumes "handle_vote_request req n = (resp, m)" and "vote_granted resp"
  shows "current_term m = vq_term req \<and> voted_for m = Some (vq_candidate_id req) \<and>
    (vq_last_log_term req > snd (last_log_position n) \<or>
     vq_last_log_term req = snd (last_log_position n) \<and>
     vq_last_log_index req \<ge> fst (last_log_position n))"
  using assms
  by (auto simp: handle_vote_request_def Let_def split_beta max_def split: if_splits option.splits)

lemma handle_vote_request_role:
  "role (snd (handle_vote_request req n)) = (if vq_term req > current_term n then Follower else role n)"
  by (auto simp: handle_vote_request_def Let_def split_beta split: option.splits)

lemma handle_append_entries_fields [simp]:
  "node_id (snd (handle_append_entries req n)) = node_id n"
  "snapshot_index (snd (handle_append_entries req n)) = snapshot_index n"
  "current_term (snd (handle_append_entries req n)) = max (aq_term req) (current_term n)"
  "last_applied (snd (handle_append_entries req n)) = last_applied n"
  by (auto simp: handle_append_entries_def Let_def max_def)

lemma handle_append_entries_ext: "vote_ext n (snd (handle_append_entries req n))"
  by (auto simp: handle_append_entries_def Let_def vote_ext_def become_follower_vote)

lemma handle_install_snapshot_fields [simp]:
  "node_id (snd (handle_install_snapshot req n)) = node_id n"
  "current_term (snd (handle_install_snapshot req n)) = max (iq_term req) (current_term n)"
  by (auto simp: handle_install_snapshot_def Let_def max_def)

lemma handle_install_snapshot_ext: "vote_ext n (snd (handle_install_snapshot req n))"
  by (auto simp: handle_install_snapshot_def Let_def vote_ext_def become_follower_vote)

lemma tick_cases:
  "tick n = n\<lparr>ticks_since_heartbeat := ticks_since_heartbeat n + 1\<rparr> \<and>
     (role n = Follower \<longrightarrow> ticks_since_heartbeat n + 1 < election_timeout_ticks n) \<or>
   tick n = (become_candidate n)\<lparr>ticks_since_heartbeat := 0\<rparr> \<and> role n = Follower"
  by (auto simp: tick_def Let_def become_candidate_def)

lemma compact_log_fields [simp]:
  "node_id (compact_log i n) = node_id n" "current_term (compact_log i n) = current_term n"
  "voted_for (compact_log i n) = voted_for n" "role (compact_log i n) = role n"
  by (simp_all add: compact_log_def split: option.split)

lemma append_command_fields [simp]:
  "node_id (snd (append_command c k n)) = node_id n" "current_term (snd (append_command c k n)) = current_term n"
  "voted_for (snd (append_command c k n)) = voted_for n" "role (snd (append_command c k n)) = role n"
  "node_id (snd (append_command_pending c k n)) = node_id n"
  "current_term (snd (append_command_pending c k n)) = current_term n"
  "voted_for (snd (append_command_pending c k n)) = voted_for n"
  "role (snd (append_command_pending c k n)) = role n"
  by (simp_all add: append_command_def append_command_pending_def Let_def)

lemma become_leader_fields [simp]:
  "node_id (become_leader n) = node_id n" "current_term (become_leader n) = current_term n"
  "voted_for (become_leader n) = voted_for n" "role (become_leader n) = Leader"
  "raft_log (become_leader n) = raft_log n" "snapshot_index (become_leader n) = snapshot_index n"
  "snapshot_term (become_leader n) = snapshot_term n"
  by (simp_all add: become_leader_def)

lemma record_append_failure_fields [simp]:
  "node_id (record_append_failure p n) = node_id n" "current_term (record_append_failure p n) = current_term n"
  "voted_for (record_append_failure p n) = voted_for n" "role (record_append_failure p n) = role n"
  "raft_log (record_append_failure p n) = raft_log n"
  "snapshot_index (record_append_failure p n) = snapshot_index n"
  by (simp_all add: record_append_failure_def Let_def)

lemma raft_step_vote_ext: "raft_step n m \<Longrightarrow> vote_ext n m"
proof (induction rule: raft_step.induct)
  case (step_tick n)
  then show ?case using tick_cases [of n] by (auto simp: vote_ext_def become_candidate_def)
qed (auto intro: handle_vote_request_ext handle_append_entries_ext handle_install_snapshot_ext
    vote_ext_fields)

text \<open>Every transition keeps log positions and indices aligned.\<close>

lemma append_room:
  assumes "log_wf n" and "append_consistent req n"
  shows "prev_log_index req \<le> snapshot_index n + length (raft_log n)"
  using assms log_entry_at_Some_iff [of n "prev_log_index req"]
  by (auto simp: append_consistent_def split: if_splits option.splits)

lemma append_consistent_follower [simp]:
  "append_consistent req ((become_follower t n)\<lparr>ticks_since_heartbeat := k\<rparr>) = append_consistent req n"
  by (simp add: append_consistent_def log_entry_at_def Let_def)

lemma handle_append_entries_log:
  "raft_log (snd (handle_append_entries req n)) =
     (if aq_term req \<ge> current_term n \<and> append_consistent req n
      then fold (append_entry (snapshot_index n)) (aq_entries req) (raft_log n) else raft_log n)"
  by (simp add: handle_append_entries_def Let_def)

lemma handle_append_entries_wf:
  assumes "log_wf n" and "append_request_wf req"
  shows "log_wf (snd (handle_append_entries req n))"
  using assms append_entries_wf(1) [OF _ _ append_room [OF assms(1)]]
  by (auto simp: log_wf_def handle_append_entries_log append_request_wf_def)

lemma handle_install_snapshot_wf:
  assumes "log_wf n"
  shows "log_wf (snd (handle_install_snapshot req n))"
proof -
  have "indexed_from i (filter (\<lambda>e. i < le_index e) (raft_log n))" if "snapshot_index n < i" for i
    using assms that indexed_from_drop [of "snapshot_index n" "raft_log n" "i - snapshot_index n"]
    by (simp add: log_wf_def filter_index_drop)
  then show ?thesis
    using assms by (auto simp: handle_install_snapshot_def Let_def log_wf_def)
qed

lemma compact_log_wf:
  assumes "log_wf n"
  shows "log_wf (compact_log i n)"
proof -
  have "indexed_from i (filter (\<lambda>e. i < le_index e) (raft_log n))" if "snapshot_index n < i"
    using assms that indexed_from_drop [of "snapshot_index n" "raft_log n" "i - snapshot_index n"]
    by (simp add: log_wf_def filter_index_drop)
  then show ?thesis
    using assms by (auto simp: compact_log_def log_wf_def split: option.splits)
qed

lemma append_command_wf:
  assumes "log_wf n"
  shows "log_wf (snd (append_command c k n))" and "log_wf (snd (append_command_pending c k n))"
  using assms last_log_position_wf [OF assms]
  by (auto simp: append_command_def append_command_pending_def log_wf_def Let_def indexed_from_snoc)

lemma log_wf_cong:
  "log_wf n \<Longrightarrow> raft_log m = raft_log n \<Longrightarrow> snapshot_index m = snapshot_index n \<Longrightarrow> log_wf m"
  by (simp add: log_wf_def)

lemma raft_step_log_wf [inv_laws]: "raft_step n m \<Longrightarrow> log_wf n \<Longrightarrow> log_wf m"
proof (induction rule: raft_step.induct)
  case (step_tick n)
  then show ?case using tick_cases [of n] by (auto simp: log_wf_def become_candidate_def)
qed (auto intro: handle_append_entries_wf handle_install_snapshot_wf compact_log_wf
    append_command_wf elim: log_wf_cong)

interpretation raft_inv: invariant_system "\<lambda>n. \<exists>i. n = raft_node_new i" raft_step log_wf
  by unfold_locales (auto simp: log_wf_def raft_node_new_def dest: raft_step_log_wf)

section \<open>Compaction and commit\<close>

lemma drop_log_entry:
  assumes "snapshot_index n \<le> i" and "i < j"
  shows "(let offset = j - i - 1 in
      if offset < length (drop (i - snapshot_index n) (raft_log n))
      then Some (drop (i - snapshot_index n) (raft_log n) ! offset) else None) = log_entry_at n j"
proof -
  have "i - snapshot_index n + (j - i - 1) = j - snapshot_index n - 1" using assms by simp
  then show ?thesis using assms by (auto simp: log_entry_at_def Let_def)
qed

lemma compact_log_wf_cases:
  assumes "log_wf n" and "snapshot_index n < i" and "i \<le> fst (last_log_position n)"
  shows "compact_log i n =
    n\<lparr>snapshot_term := term_at n i, raft_log := drop (i - snapshot_index n) (raft_log n), snapshot_index := i\<rparr>"
proof -
  obtain e where e: "log_entry_at n i = Some e"
    using assms log_entry_at_Some_iff [of n i] by (auto simp: last_log_position_wf)
  moreover have "filter (\<lambda>e. le_index e > i) (raft_log n) = drop (i - snapshot_index n) (raft_log n)"
    using assms by (intro filter_index_drop) (simp_all add: log_wf_def)
  ultimately show ?thesis using assms(2) by (simp add: compact_log_def term_at_def)
qed

lemma record_append_success_commit:
  assumes m_def: "m = record_append_success peer pm total_nodes n"
  shows "commit_index m = commit_index n \<or>
    commit_index n < commit_index m \<and> commit_index m \<le> pm \<and>
    replication_count m (commit_index m) \<ge> quorum total_nodes"
proof -
  let ?f = "\<lambda>i n. if replication_count n i \<ge> quorum total_nodes then n\<lparr>commit_index := i\<rparr> else (n :: raft_node)"
  have "commit_index (fold ?f is k) = commit_index k \<or>
      commit_index (fold ?f is k) \<in> set is \<and>
      replication_count (fold ?f is k) (commit_index (fold ?f is k)) \<ge> quorum total_nodes" for "is" k
  proof (induction "is" rule: rev_induct)
    case (snoc i "is")
    then show ?case by (auto simp: replication_count_def)
  qed simp
  from this [of "[commit_index n + 1..<pm + 1]"
      "n\<lparr>next_index := AList.update peer (pm + 1) (next_index n),
         match_index := AList.update peer pm (match_index n)\<rparr>"]
  show ?thesis
    unfolding m_def record_append_success_def Let_def by (auto simp del: upt_Suc)
qed

lemma append_success_log:
  assumes "log_wf n" and "append_request_wf req"
    and "handle_append_entries req n = (resp, m)" and "ar_success resp"
  shows "(\<forall>i < length (aq_entries req). snapshot_index n \<le> prev_log_index req + i \<longrightarrow>
      (\<exists>e. log_entry_at m (prev_log_index req + 1 + i) = Some e \<and> le_term e = le_term (aq_entries req ! i))) \<and>
    (\<forall>j \<le> prev_log_index req. log_entry_at m j = log_entry_at n j) \<and>
    raft_log (snd (handle_append_entries req m)) = raft_log m"
proof -
  let ?s = "snapshot_index n" and ?p = "prev_log_index req"
  let ?lg = "fold (append_entry ?s) (aq_entries req) (raft_log n)"
  have m: "m = snd (handle_append_entries req n)" using assms(3) by simp
  have acc: "append_consistent req n" "current_term n \<le> aq_term req"
    using assms(3,4) by (auto simp: handle_append_entries_def Let_def split: if_splits)
  have sm: "snapshot_index m = ?s" "raft_log m = ?lg"
    by (simp_all add: m handle_append_entries_log acc)
  note wf = assms(1) [unfolded log_wf_def] assms(2) [unfolded append_request_wf_def]
  note app = append_entries_wf [OF wf append_room [OF assms(1) acc(1)]]
  have at: "\<exists>e. log_entry_at m (?p + 1 + i) = Some e \<and> le_term e = le_term (aq_entries req ! i)"
    and pos: "?p + i - ?s < length ?lg \<and> le_term (?lg ! (?p + i - ?s)) = le_term (aq_entries req ! i)"
    if "i < length (aq_entries req)" "?s \<le> ?p + i" for i
    using append_entries_match [OF wf append_room [OF assms(1) acc(1)] that] that
    by (simp_all add: log_entry_at_def sm Let_def)
  have old: "log_entry_at m j = log_entry_at n j" if "j \<le> ?p" for j
  proof -
    have "length (take (?p - ?s) ?lg) = length (take (?p - ?s) (raft_log n))" by (simp only: app(3))
    moreover have "?lg ! k = raft_log n ! k" if "k < ?p - ?s" for k
      using app(3) that by (metis nth_take)
    ultimately show ?thesis
      using that by (auto simp: log_entry_at_def sm Let_def min_def split: if_splits)
  qed
  have "append_entry ?s = append_entry (snapshot_index m)" by (simp add: sm)
  then have "raft_log (snd (handle_append_entries req m)) = raft_log m"
    using append_entries_id [OF wf(2), of ?s ?lg] pos by (auto simp: handle_append_entries_log sm)
  with at old show ?thesis by blast
qed

section \<open>Properties\<close>

text \<open>
  One vote per term. A node that has granted a vote, and then goes through any number of
  transitions, grants another vote in the same term only to the same candidate.
\<close>

theorem raft_single_vote_per_term:
  assumes "handle_vote_request req1 n = (resp1, n1)" and "vote_granted resp1"
    and "reaches raft_step n1 n2"
    and "handle_vote_request req2 n2 = (resp2, n3)" and "vote_granted resp2"
    and "vq_term req1 = vq_term req2"
  shows "vq_candidate_id req1 = vq_candidate_id req2"
proof -
  have "vote_ext n1 n2"
    using assms(3) by (induction rule: reaches.induct) (auto intro: vote_ext_trans raft_step_vote_ext)
  moreover have "vote_ext n2 n3"
    using handle_vote_request_ext [of n2 req2] assms(4) by simp
  ultimately have "vote_ext n1 n3" by (rule vote_ext_trans)
  then show ?thesis
    using handle_vote_request_granted [OF assms(1,2)] handle_vote_request_granted [OF assms(4,5)] assms(6)
    by (auto simp: vote_ext_def)
qed

theorem raft_single_vote_per_term_witness:
  "\<not> vote_granted (fst (handle_vote_request
      \<lparr>vq_term = 1, vq_candidate_id = ''c'', vq_last_log_index = 0, vq_last_log_term = 0\<rparr>
      (snd (handle_vote_request
        \<lparr>vq_term = 1, vq_candidate_id = ''b'', vq_last_log_index = 0, vq_last_log_term = 0\<rparr>
        (raft_node_new ''a'')))))"
proof
  let ?q = "\<lambda>c. \<lparr>vq_term = 1, vq_candidate_id = c, vq_last_log_index = 0, vq_last_log_term = 0\<rparr>"
  let ?n1 = "snd (handle_vote_request (?q ''b'') (raft_node_new ''a''))"
  assume "vote_granted (fst (handle_vote_request (?q ''c'') ?n1))"
  moreover have "vote_granted (fst (handle_vote_request (?q ''b'') (raft_node_new ''a'')))"
    by (simp add: handle_vote_request_def raft_node_new_def become_follower_def last_log_position_def)
  ultimately show False
    using raft_single_vote_per_term [OF surjective_pairing [of "handle_vote_request (?q ''b'') (raft_node_new ''a'')"]
        _ reaches_refl surjective_pairing [of "handle_vote_request (?q ''c'') ?n1"]] by simp
qed

text \<open>
  Log positions stay aligned. In every state a node reaches, the last log position is the
  snapshot index plus the number of entries kept in memory, and looking up an index finds the entry
  with that index exactly when it lies in that range.
\<close>

theorem raft_log_aligned:
  assumes "reaches raft_step (raft_node_new i) n"
  shows "fst (last_log_position n) = snapshot_index n + length (raft_log n) \<and>
    (\<forall>j. snapshot_index n < j \<and> j \<le> fst (last_log_position n) \<longleftrightarrow>
       (\<exists>e. log_entry_at n j = Some e \<and> le_index e = j))"
proof -
  have wf: "log_wf n" using raft_inv.reachable_inv [OF _ assms] by blast
  show ?thesis
    using last_log_position_wf [OF wf] log_entry_at_wf [OF wf] log_entry_at_Some_iff [of n] by metis
qed

theorem raft_log_aligned_witness:
  "fst (last_log_position (snd (append_command ''x'' 2 (raft_node_new ''a'')))) = 1"
  using raft_log_aligned [OF reaches_single [of raft_step, OF step_command [of "raft_node_new ''a''" "''x''" 2]]]
  by (simp add: append_command_def raft_node_new_def last_log_position_def)

text \<open>
  C25: Log matching after AppendEntries. When a node accepts a gap-free request, its log afterwards
  holds, at the index of every sent entry that is not already compacted, an entry of the sent term;
  everything up to \<^verbatim>\<open>prev_log_index\<close> is as before; and delivering the same request again changes
  nothing in the log.
\<close>

theorem raft_append_log_matching:
  assumes "log_wf n" and "append_request_wf req"
    and "handle_append_entries req n = (resp, m)" and "ar_success resp"
  shows "(\<forall>i < length (aq_entries req). snapshot_index n \<le> prev_log_index req + i \<longrightarrow>
      (\<exists>e. log_entry_at m (prev_log_index req + 1 + i) = Some e \<and> le_term e = le_term (aq_entries req ! i))) \<and>
    (\<forall>j \<le> prev_log_index req. log_entry_at m j = log_entry_at n j) \<and>
    raft_log (snd (handle_append_entries req m)) = raft_log m"
  using append_success_log [OF assms] .

theorem raft_append_log_matching_witness:
  "let req = \<lparr>aq_term = 1, aq_leader_id = ''l'', prev_log_index = 0, prev_log_term = 0,
              aq_entries = [\<lparr>le_index = 1, le_term = 1, le_command = ''x''\<rparr>], leader_commit = 0\<rparr>
   in \<exists>e. log_entry_at (snd (handle_append_entries req (raft_node_new ''a''))) 1 = Some e \<and> le_term e = 1"
proof -
  let ?req = "\<lparr>aq_term = 1, aq_leader_id = ''l'', prev_log_index = 0, prev_log_term = 0,
              aq_entries = [\<lparr>le_index = 1, le_term = 1, le_command = ''x''\<rparr>], leader_commit = 0\<rparr>"
  have "log_wf (raft_node_new ''a'')" "append_request_wf ?req"
    and "ar_success (fst (handle_append_entries ?req (raft_node_new ''a'')))"
    by (simp_all add: log_wf_def raft_node_new_def append_request_wf_def indexed_from_def
        handle_append_entries_def append_consistent_def Let_def)
  from raft_append_log_matching [OF this(1,2) surjective_pairing this(3)]
  show ?thesis by (simp add: raft_node_new_def)
qed

text \<open>
  Commit needs a quorum of acknowledgements. Recording a successful append either leaves the
  commit index alone or moves it forward, not beyond the reported match index, to an index that the
  leader and enough peers together reach the code's quorum for.
\<close>

theorem raft_commit_needs_quorum:
  "let m = record_append_success peer peer_match total_nodes n
   in commit_index m = commit_index n \<or>
      commit_index n < commit_index m \<and> commit_index m \<le> peer_match \<and>
      1 + length (filter (\<lambda>pm. snd pm \<ge> commit_index m) (match_index m)) \<ge> quorum total_nodes"
  using record_append_success_commit [OF HOL.refl, of peer peer_match total_nodes n]
  by (auto simp: replication_count_def Let_def)

text \<open>
  Compacting applied entries is invisible to the protocol. Trimming the log up to an index inside
  it keeps the last log position, the term at every index from the cut on, and every entry beyond it.
\<close>

theorem raft_compaction_transparent:
  assumes "log_wf n" and "snapshot_index n < i" and "i \<le> fst (last_log_position n)"
  shows "log_wf (compact_log i n) \<and>
    last_log_position (compact_log i n) = last_log_position n \<and>
    (\<forall>j \<ge> i. term_at (compact_log i n) j = term_at n j) \<and>
    (\<forall>j > i. log_entry_at (compact_log i n) j = log_entry_at n j)"
proof -
  let ?k = "i - snapshot_index n"
  have c: "snapshot_index (compact_log i n) = i" "raft_log (compact_log i n) = drop ?k (raft_log n)"
    "snapshot_term (compact_log i n) = term_at n i"
    by (simp_all add: compact_log_wf_cases [OF assms])
  have len: "?k \<le> length (raft_log n)" using assms by (simp add: last_log_position_wf)
  have at: "log_entry_at (compact_log i n) j = log_entry_at n j" if "j > i" for j
  proof -
    have "\<not> (j = 0 \<or> j \<le> i)" "snapshot_index n \<le> i" using that assms(2) by simp_all
    then show ?thesis
      unfolding log_entry_at_def [of "compact_log i n"] c
      using drop_log_entry [of n i j] that by (simp only: if_False)
  qed
  have "last_log_position (compact_log i n) = last_log_position n"
  proof (cases "?k = length (raft_log n)")
    case True
    then obtain e where e: "log_entry_at n i = Some e" "e = last (raft_log n)" "raft_log n \<noteq> []"
      using assms(2) by (cases "raft_log n" rule: rev_cases) (auto simp: log_entry_at_def Let_def nth_append)
    then have "le_index e = i" using log_entry_at_wf [OF assms(1)] by blast
    with e True assms(2) show ?thesis by (simp add: c last_log_position_def term_at_def)
  next
    case False
    with len have "drop ?k (raft_log n) \<noteq> []" "raft_log n \<noteq> []" by auto
    then show ?thesis by (simp add: c last_log_position_def)
  qed
  moreover have "term_at (compact_log i n) j = term_at n j" if "j \<ge> i" for j
  proof (cases "j = i")
    case True
    then show ?thesis using assms(2) by (simp add: c term_at_def [of "compact_log i n"])
  next
    case False
    with that at [of j] assms(2) show ?thesis by (simp add: c term_at_def)
  qed
  ultimately show ?thesis using at compact_log_wf [OF assms(1)] by blast
qed

theorem raft_compaction_transparent_witness:
  "last_log_position (compact_log 1 (snd (append_command ''y'' 2 (snd (append_command ''x'' 2 (raft_node_new ''a'')))))) = (2, 0)"
proof -
  let ?n = "snd (append_command ''y'' 2 (snd (append_command ''x'' 2 (raft_node_new ''a''))))"
  have "log_wf ?n" by (intro append_command_wf(1)) (simp add: log_wf_def raft_node_new_def)
  moreover have "snapshot_index ?n < 1" "last_log_position ?n = (2, 0)"
    by (simp_all add: append_command_def raft_node_new_def last_log_position_def Let_def)
  ultimately show ?thesis using raft_compaction_transparent [of ?n 1] by simp
qed

text \<open>
  Restarting from the persisted state brings back term, vote, log and snapshot position exactly,
  as a follower, with the applied pointers at least at the snapshot.
\<close>

theorem raft_restart_roundtrip:
  "let m = restore_durable (durable_from_node n) (raft_node_new (node_id n))
   in durable_from_node m = durable_from_node n \<and> node_id m = node_id n \<and> role m = Follower \<and>
      last_log_position m = last_log_position n \<and> (\<forall>i. term_at m i = term_at n i) \<and>
      commit_index m = snapshot_index n \<and> last_applied m = snapshot_index n"
  by (auto simp: restore_durable_def durable_from_node_def raft_node_new_def Let_def
      last_log_position_def term_at_def log_entry_at_def)

text \<open>
  A candidate that does not win never starts another election: however many ticks pass, it keeps
  its role and its term, because \<^verbatim>\<open>tick\<close> times out followers only.
\<close>

theorem raft_candidate_never_retries:
  assumes "role n = Candidate"
  shows "role ((tick ^^ k) n) = Candidate \<and> current_term ((tick ^^ k) n) = current_term n"
proof (induction k)
  case 0
  show ?case using assms by simp
next
  case (Suc k)
  then show ?case by (simp add: tick_def Let_def)
qed

theorem raft_candidate_never_retries_witness:
  "role ((tick ^^ 1000) (become_candidate (raft_node_new ''a''))) = Candidate"
  using raft_candidate_never_retries [of "become_candidate (raft_node_new ''a'')" 1000]
  by (simp add: become_candidate_def)

text \<open>
  A heartbeat acknowledges entries the leader never checked. A follower that still has a stale
  entry of term 1 at index 2 answers the empty heartbeat of the new leader of term 2 (which verified
  index 1 only) with match index 2; when the leader appends its own entry at index 2 before that
  answer arrives, it commits it in a three-node cluster although no other node holds it.
\<close>

theorem raft_heartbeat_false_commit:
  "let old = (\<lambda>es. \<lparr>aq_term = 1, aq_leader_id = ''o'', prev_log_index = 0, prev_log_term = 0,
                   aq_entries = es, leader_commit = 0\<rparr>);
       e1 = \<lparr>le_index = 1, le_term = 1, le_command = ''x''\<rparr>;
       e2 = \<lparr>le_index = 2, le_term = 1, le_command = ''y''\<rparr>;
       follower = snd (handle_append_entries (old [e1, e2]) (raft_node_new ''f''));
       leader = become_leader (become_candidate
                  (snd (handle_append_entries (old [e1]) (raft_node_new ''l''))));
       heartbeat = \<lparr>aq_term = 2, aq_leader_id = ''l'', prev_log_index = 1, prev_log_term = term_at leader 1,
                    aq_entries = [], leader_commit = 0\<rparr>;
       (answer, follower') = handle_append_entries heartbeat follower;
       (i, leader') = append_command_pending ''z'' 2 leader;
       leader'' = record_append_success ''f'' (ar_match_index answer) 3 leader'
   in ar_success answer \<and> i = 2 \<and> commit_index leader'' = 2 \<and>
      term_at leader'' 2 = 2 \<and> term_at follower' 2 = 1"
  by (simp add: handle_append_entries_def append_command_pending_def record_append_success_def
      append_consistent_def append_entry_def log_entry_at_def last_log_position_def term_at_def
      become_follower_def become_candidate_def become_leader_def raft_node_new_def
      replication_count_def quorum_def Let_def upt_rec)

end
