(* ===== verification/Raft_Loop.thy ===== *)
theory Raft_Loop
  imports Raft Mvcc Vng_Text
begin

text \<open>
  The loop that drives a Raft node, \<^verbatim>\<open>services/voltnuerongridd/src/helpers/raft_loop.rs\<close>, the RPC
  endpoints of \<^verbatim>\<open>handlers/raft.rs\<close> and the batch command format of \<^verbatim>\<open>main.rs\<close>: planning the request
  for each peer, ending an election, processing the answers of a heartbeat round, applying committed
  entries to the row store, compaction, and installing a leader's snapshot.

  Network calls are not modelled; a function that sends a request is split into what it sends and
  what it does with an answer. The SQL extractors (\<^verbatim>\<open>extract_all_insert_rows\<close>,
  \<^verbatim>\<open>extract_update_row_from_sql\<close>, \<^verbatim>\<open>extract_delete_key_from_sql\<close>) are arguments collected in the record
  \<open>dml_parser\<close>, so the results hold whatever they extract. The calls of \<^verbatim>\<open>store_row\<close> on the durability
  engine are recorded in order.
\<close>

section \<open>Planning the requests of a leader\<close>

record peer_plan =
  pp_peer :: string
  pp_prev_log_index :: nat
  pp_prev_log_term :: nat
  pp_entries :: "raft_log_entry list"
  pp_needs_snapshot :: bool

definition plan_next_index :: "raft_node \<Rightarrow> string \<Rightarrow> nat" where
  "plan_next_index n peer =
     (case map_of (next_index n) peer of Some i \<Rightarrow> i | None \<Rightarrow> commit_index n + 1)"

definition plan_peer :: "raft_node \<Rightarrow> string \<Rightarrow> peer_plan" where
  "plan_peer n peer =
     (let ni = plan_next_index n peer;
          needs_snapshot = (ni \<le> snapshot_index n \<and> snapshot_index n > 0);
          prev_log_idx = ni - 1
      in \<lparr>pp_peer = peer, pp_prev_log_index = prev_log_idx, pp_prev_log_term = term_at n prev_log_idx,
          pp_entries = (if needs_snapshot then [] else filter (\<lambda>e. le_index e \<ge> ni) (raft_log n)),
          pp_needs_snapshot = needs_snapshot\<rparr>)"

text \<open>The AppendEntries and InstallSnapshot requests of \<^verbatim>\<open>fanout_heartbeat\<close>.\<close>

definition plan_append_request :: "raft_node \<Rightarrow> peer_plan \<Rightarrow> raft_append_request" where
  "plan_append_request n pl =
     \<lparr>aq_term = current_term n, aq_leader_id = node_id n, prev_log_index = pp_prev_log_index pl,
      prev_log_term = pp_prev_log_term pl, aq_entries = pp_entries pl, leader_commit = commit_index n\<rparr>"

definition plan_snapshot_request ::
  "raft_node \<Rightarrow> (string \<times> row_data) list \<Rightarrow> raft_install_snapshot_request" where
  "plan_snapshot_request n rows =
     \<lparr>iq_term = current_term n, iq_leader_id = node_id n, iq_snapshot_index = snapshot_index n,
      iq_snapshot_term = snapshot_term n, iq_rows = rows\<rparr>"

section \<open>Elections\<close>

definition election_request :: "raft_node \<Rightarrow> raft_vote_request" where
  "election_request n =
     \<lparr>vq_term = current_term n, vq_candidate_id = node_id n,
      vq_last_log_index = length (raft_log n),
      vq_last_log_term = (if raft_log n = [] then 0 else le_term (last (raft_log n)))\<rparr>"

text \<open>The end of \<^verbatim>\<open>run_election\<close>: the answers that granted a vote are in, one per peer.\<close>

definition finish_election :: "string list \<Rightarrow> nat \<Rightarrow> nat \<Rightarrow> raft_node \<Rightarrow> raft_node" where
  "finish_election peers granted trm n =
     (let total_nodes = length peers + 1; votes_granted = 1 + granted
      in if votes_granted \<ge> quorum total_nodes \<and> role n = Candidate \<and> current_term n = trm
         then init_leader_indices peers (become_leader n) else n)"

section \<open>Heartbeat answers\<close>

text \<open>An answer is \<open>None\<close> when the call failed. The loop stops once the node has lost its leadership.\<close>

fun process_append_answers ::
  "nat \<Rightarrow> nat \<Rightarrow> (string \<times> raft_append_response option) list \<Rightarrow> raft_node \<Rightarrow> raft_node" where
  "process_append_answers trm total_nodes [] n = n"
| "process_append_answers trm total_nodes ((peer, ans) # rest) n =
     (if role n \<noteq> Leader \<or> current_term n \<noteq> trm then n
      else process_append_answers trm total_nodes rest
        (case ans of
           Some resp \<Rightarrow>
             if ar_success resp then record_append_success peer (ar_match_index resp) total_nodes n
             else record_append_failure peer n
         | None \<Rightarrow> n))"

fun process_snapshot_answers ::
  "nat \<Rightarrow> nat \<Rightarrow> (string \<times> raft_install_snapshot_response option) list \<Rightarrow> raft_node \<Rightarrow> raft_node" where
  "process_snapshot_answers trm snap [] n = n"
| "process_snapshot_answers trm snap ((peer, ans) # rest) n =
     (if role n \<noteq> Leader \<or> current_term n \<noteq> trm then n
      else process_snapshot_answers trm snap rest
        (case ans of
           Some resp \<Rightarrow>
             if ir_success resp
             then n\<lparr>next_index := AList.update peer (snap + 1) (next_index n),
                    match_index := AList.update peer snap (match_index n)\<rparr>
             else n
         | None \<Rightarrow> n))"

section \<open>Applying committed entries\<close>

record dml_parser =
  insert_rows_of :: "string \<Rightarrow> (string \<times> row_data) list"
  update_row_of :: "string \<Rightarrow> (string \<times> row_data) option"
  delete_key_of :: "string \<Rightarrow> string option"

record apply_state =
  rows :: paged_row_store
  stored :: "(string \<times> string \<times> xid \<times> row_data option) list"

definition apply_upsert ::
  "string \<Rightarrow> xid \<Rightarrow> string \<times> row_data \<Rightarrow> apply_state \<Rightarrow> apply_state option" where
  "apply_upsert db x kd st =
     (case kd of (k, d) \<Rightarrow>
       (let rs = snd (begin_write_intent (rows st) x k)
        in case store_insert rs x k d of
             Some rs' \<Rightarrow> Some \<lparr>rows = rs', stored = stored st @ [(db, k, x, Some d)]\<rparr>
           | None \<Rightarrow> None))"

definition apply_delete :: "string \<Rightarrow> xid \<Rightarrow> string \<Rightarrow> apply_state \<Rightarrow> apply_state" where
  "apply_delete db x k st =
     (let rs = snd (begin_write_intent (rows st) x k)
      in \<lparr>rows = snd (store_delete rs x k), stored = stored st @ [(db, k, x, None)]\<rparr>)"

definition apply_single_dml ::
  "dml_parser \<Rightarrow> string \<Rightarrow> string \<Rightarrow> xid \<Rightarrow> apply_state \<Rightarrow> apply_state option" where
  "apply_single_dml P db sql x st =
     (let upper = to_uppercase (trim_start sql)
      in if starts_with upper ''INSERT'' then fold_opt (apply_upsert db x) (insert_rows_of P sql) st
         else if starts_with upper ''UPDATE'' then
           (case update_row_of P sql of Some kd \<Rightarrow> apply_upsert db x kd st | None \<Rightarrow> Some st)
         else if starts_with upper ''DELETE'' then
           (case delete_key_of P sql of Some k \<Rightarrow> Some (apply_delete db x k st) | None \<Rightarrow> Some st)
         else Some st)"

definition raft_batch_prefix :: string where
  "raft_batch_prefix = ''__vng_batch:''"

definition raft_batch_stmt_sep :: string where
  "raft_batch_stmt_sep = newline # ''__vng_stmt__'' @ [newline]"

definition is_dml :: "string \<Rightarrow> bool" where
  "is_dml s = (let u = to_uppercase s
               in starts_with u ''INSERT'' \<or> starts_with u ''UPDATE'' \<or> starts_with u ''DELETE'')"

definition encode_raft_batch_command :: "string \<Rightarrow> string list \<Rightarrow> string option" where
  "encode_raft_batch_command db statements =
     (let dml = filter is_dml (map trim statements)
      in if dml = [] then None
         else Some (raft_batch_prefix @ db @ [newline] @ join raft_batch_stmt_sep dml))"

text \<open>\<^verbatim>\<open>rest.find('\n')\<close> and the two slices around it.\<close>

definition split_line :: "string \<Rightarrow> (string \<times> string) option" where
  "split_line s =
     (case dropWhile (\<lambda>c. c \<noteq> newline) s of
        [] \<Rightarrow> None
      | _ # body \<Rightarrow> Some (takeWhile (\<lambda>c. c \<noteq> newline) s, body))"

definition apply_dml_command ::
  "dml_parser \<Rightarrow> string \<Rightarrow> xid \<Rightarrow> apply_state \<Rightarrow> apply_state option" where
  "apply_dml_command P command x st =
     (case strip_prefix raft_batch_prefix command of
        Some rest \<Rightarrow>
          (let (db, body) = (case split_line rest of Some db_body \<Rightarrow> db_body | None \<Rightarrow> ([], []))
           in fold_opt (\<lambda>stmt st. let stmt = trim stmt
                                   in if stmt \<noteq> [] then apply_single_dml P db stmt x st else Some st)
                (split_str raft_batch_stmt_sep body) st)
      | None \<Rightarrow>
          (let (db, sql) = (case strip_prefix ''__vng_db:'' command of
                              Some rest \<Rightarrow> (case split_line rest of
                                              Some db_sql \<Rightarrow> db_sql | None \<Rightarrow> ([], command))
                            | None \<Rightarrow> ([], command))
           in apply_single_dml P db sql x st))"

definition entries_to_apply :: "raft_node \<Rightarrow> raft_log_entry list" where
  "entries_to_apply n =
     (if last_applied n + 1 > commit_index n then []
      else filter (\<lambda>e. le_index e \<ge> last_applied n + 1 \<and> le_index e \<le> commit_index n) (raft_log n))"

definition apply_committed_entries ::
  "dml_parser \<Rightarrow> raft_node \<times> apply_state \<Rightarrow> (raft_node \<times> apply_state) option" where
  "apply_committed_entries P ns =
     (case ns of (n, st) \<Rightarrow>
       (let es = entries_to_apply n
        in if es = [] then Some (n, st)
           else let (x, rs) = begin_xid (rows st)
                in case fold_opt (\<lambda>e. apply_dml_command P (le_command e) x) es (st\<lparr>rows := rs\<rparr>) of
                     None \<Rightarrow> None
                   | Some st' \<Rightarrow>
                       Some (if le_index (last es) > last_applied n
                             then n\<lparr>last_applied := le_index (last es)\<rparr> else n,
                             st'\<lparr>rows := release_write_intents (rows st') x\<rparr>)))"

section \<open>Compaction and snapshot installation\<close>

definition compact_log_threshold :: nat where
  "compact_log_threshold = 500"

definition compact_if_needed :: "raft_node \<Rightarrow> raft_node" where
  "compact_if_needed n =
     (if length (raft_log n) < compact_log_threshold then n
      else if last_applied n > snapshot_index n then compact_log (last_applied n) n else n)"

text \<open>The InstallSnapshot endpoint: the node first, then the row store when the answer is a success.\<close>

definition raft_install_snapshot ::
  "raft_install_snapshot_request \<Rightarrow> raft_node \<times> paged_row_store \<Rightarrow>
   (raft_install_snapshot_response \<times> raft_node \<times> paged_row_store) option" where
  "raft_install_snapshot req ns =
     (case ns of (n, rs) \<Rightarrow>
       (let (resp, n') = handle_install_snapshot req n
        in if ir_success resp
           then (case replace_all rs (iq_rows req) of Some rs' \<Rightarrow> Some (resp, n', rs') | None \<Rightarrow> None)
           else Some (resp, n', rs)))"

section \<open>Requests of a leader\<close>

lemma plan_entries:
  assumes "log_wf n" and "1 \<le> plan_next_index n peer" and "\<not> pp_needs_snapshot (plan_peer n peer)"
  shows "snapshot_index n \<le> plan_next_index n peer - 1"
    and "pp_entries (plan_peer n peer) = drop (plan_next_index n peer - 1 - snapshot_index n) (raft_log n)"
proof -
  let ?ni = "plan_next_index n peer"
  show le: "snapshot_index n \<le> ?ni - 1"
    using assms(2,3) by (auto simp: plan_peer_def Let_def)
  have "filter (\<lambda>e. ?ni \<le> le_index e) (raft_log n) = filter (\<lambda>e. ?ni - 1 < le_index e) (raft_log n)"
    using assms(2) by (intro filter_cong) auto
  then show "pp_entries (plan_peer n peer) = drop (?ni - 1 - snapshot_index n) (raft_log n)"
    using filter_index_drop [OF assms(1) [unfolded log_wf_def] le] assms(3)
    by (auto simp: plan_peer_def Let_def)
qed

lemma plan_request_wf:
  assumes "log_wf n" and "1 \<le> plan_next_index n peer" and "\<not> pp_needs_snapshot (plan_peer n peer)"
  shows "append_request_wf (plan_append_request n (plan_peer n peer))"
proof -
  let ?k = "plan_next_index n peer - 1 - snapshot_index n"
  have "indexed_from (snapshot_index n + ?k) (pp_entries (plan_peer n peer))"
    unfolding plan_entries(2) [OF assms] by (rule indexed_from_drop [OF assms(1) [unfolded log_wf_def]])
  moreover have "snapshot_index n + ?k = pp_prev_log_index (plan_peer n peer)"
    using plan_entries(1) [OF assms] by (simp add: plan_peer_def Let_def)
  ultimately show ?thesis by (simp add: append_request_wf_def plan_append_request_def)
qed

lemma term_at_log:
  assumes "snapshot_index n < j" and "j \<le> snapshot_index n + length (raft_log n)"
  shows "term_at n j = le_term (raft_log n ! (j - snapshot_index n - 1))"
  using assms by (auto simp: term_at_def log_entry_at_def Let_def)

text \<open>Repeated failures walk \<^verbatim>\<open>next_index\<close> back to one.\<close>

lemma record_append_failure_iter:
  assumes "map_of (next_index n) peer = Some ni"
  shows "map_of (next_index ((record_append_failure peer ^^ k) n)) peer =
      Some (if k = 0 then ni else max 1 (ni - k)) \<and>
    raft_log ((record_append_failure peer ^^ k) n) = raft_log n \<and>
    snapshot_index ((record_append_failure peer ^^ k) n) = snapshot_index n \<and>
    current_term ((record_append_failure peer ^^ k) n) = current_term n"
proof (induction k)
  case 0
  then show ?case using assms by simp
next
  case (Suc k)
  then show ?case by (auto simp: record_append_failure_def Let_def max_def)
qed

section \<open>Applying entries\<close>

lemma begin_write_intent_wf: "store_wf s \<Longrightarrow> store_wf (snd (begin_write_intent s x k))"
  by (rule store_wf_cong [of s]) (auto simp: begin_write_intent_def store_wf_def split: option.splits)

lemma apply_upsert_wf:
  assumes "store_wf (rows st)"
  shows "\<exists>st'. apply_upsert db x kd st = Some st' \<and> store_wf (rows st')"
proof -
  obtain k d where kd: "kd = (k, d)" by fastforce
  obtain rs where "store_insert (snd (begin_write_intent (rows st) x k)) x k d = Some rs" "store_wf rs"
    using store_insert_total [OF begin_write_intent_wf [OF assms]] by blast
  then show ?thesis by (simp add: apply_upsert_def kd Let_def)
qed

lemma apply_delete_wf: "store_wf (rows st) \<Longrightarrow> store_wf (rows (apply_delete db x k st))"
  using store_delete_law [OF begin_write_intent_wf [of "rows st" x k], of x k]
  by (cases "store_delete (snd (begin_write_intent (rows st) x k)) x k")
    (auto simp: apply_delete_def Let_def)

lemma apply_single_dml_wf:
  assumes "store_wf (rows st)"
  shows "\<exists>st'. apply_single_dml P db sql x st = Some st' \<and> store_wf (rows st')"
proof -
  have "\<exists>t. fold_opt (apply_upsert db x) kds st = Some t \<and> store_wf (rows t)" for kds
    by (rule fold_opt_total [where I = "\<lambda>s. store_wf (rows s)", OF apply_upsert_wf assms])
  then show ?thesis
    using assms apply_upsert_wf [OF assms] apply_delete_wf [OF assms]
    by (simp add: apply_single_dml_def Let_def split: option.split)
qed

lemma apply_dml_command_wf:
  assumes "store_wf (rows st)"
  shows "\<exists>st'. apply_dml_command P command x st = Some st' \<and> store_wf (rows st')"
proof -
  have "\<exists>t. fold_opt (\<lambda>stmt st. let stmt = trim stmt
              in if stmt \<noteq> [] then apply_single_dml P db stmt x st else Some st) ss st = Some t \<and>
            store_wf (rows t)" for db ss
    by (rule fold_opt_total [where I = "\<lambda>s. store_wf (rows s)", OF _ assms])
      (auto simp: Let_def apply_single_dml_wf)
  then show ?thesis
    using apply_single_dml_wf [OF assms]
    by (simp add: apply_dml_command_def split_beta Let_def split: option.split)
qed

text \<open>The entries to apply are the slice of the log after \<^verbatim>\<open>last_applied\<close> up to the commit index.\<close>

lemma entries_to_apply_slice:
  assumes "log_wf n" and "snapshot_index n \<le> last_applied n"
  shows "entries_to_apply n =
    drop (last_applied n - snapshot_index n) (take (commit_index n - snapshot_index n) (raft_log n))"
proof (cases "last_applied n < commit_index n")
  case False
  then show ?thesis by (simp add: entries_to_apply_def)
next
  case True
  let ?s = "snapshot_index n"
  have wf: "indexed_from ?s (raft_log n)" using assms(1) by (simp add: log_wf_def)
  have low: "filter (\<lambda>e. last_applied n + 1 \<le> le_index e) (raft_log n) = drop (last_applied n - ?s) (raft_log n)"
    using filter_index_drop [OF wf assms(2)] by (simp add: Suc_le_eq)
  have wf': "indexed_from (last_applied n) (drop (last_applied n - ?s) (raft_log n))"
    using indexed_from_drop [OF wf, of "last_applied n - ?s"] assms(2) by simp
  have high: "filter (\<lambda>e. le_index e \<le> i) lg = take (i - p) lg" if "indexed_from p lg" for i p lg
    using that
  proof (induction lg arbitrary: p)
    case (Cons e lg)
    then have e: "le_index e = p + 1" and lg: "indexed_from (p + 1) lg"
      by (simp_all add: indexed_from_Cons)
    show ?case
    proof (cases "p < i")
      case True
      then have "i - p = Suc (i - (p + 1))" by simp
      with Cons.IH [OF lg] True e show ?thesis by simp
    next
      case False
      with Cons.IH [OF lg] e show ?thesis by simp
    qed
  qed simp
  have "entries_to_apply n =
      filter (\<lambda>e. le_index e \<le> commit_index n) (filter (\<lambda>e. last_applied n + 1 \<le> le_index e) (raft_log n))"
    using True by (simp add: entries_to_apply_def conj_commute)
  also have "\<dots> = take (commit_index n - last_applied n) (drop (last_applied n - ?s) (raft_log n))"
    unfolding low by (rule high [OF wf'])
  finally show ?thesis
    using assms(2) True by (simp add: drop_take)
qed

lemma entries_to_apply_last:
  assumes "log_wf n" and "snapshot_index n \<le> last_applied n" and "last_applied n < commit_index n"
    and "commit_index n \<le> fst (last_log_position n)"
  shows "entries_to_apply n \<noteq> []" and "le_index (last (entries_to_apply n)) = commit_index n"
proof -
  let ?s = "snapshot_index n" and ?lg = "raft_log n"
  have len: "commit_index n - ?s \<le> length ?lg" using assms(1,4) by (simp add: last_log_position_wf)
  then have lt: "last_applied n - ?s < length (take (commit_index n - ?s) ?lg)"
    using assms(2,3) by simp
  then show "entries_to_apply n \<noteq> []"
    unfolding entries_to_apply_slice [OF assms(1,2)] by (metis drop_eq_Nil leD)
  have "last (entries_to_apply n) = ?lg ! (commit_index n - ?s - 1)"
    using lt len assms(2,3)
    by (simp add: entries_to_apply_slice [OF assms(1,2)] last_conv_nth min_def)
  moreover have "commit_index n - ?s - 1 < length ?lg" using len assms(2,3) by simp
  ultimately show "le_index (last (entries_to_apply n)) = commit_index n"
    using assms(1-3) by (simp add: log_wf_def indexed_from_def)
qed

section \<open>Batches\<close>

lemma sep_newline_positions:
  assumes "0 < i" and "i < 13"
  shows "raft_batch_stmt_sep ! i \<noteq> newline"
proof -
  have "raft_batch_stmt_sep ! i = ''__vng_stmt__'' ! (i - 1)"
    using assms unfolding raft_batch_stmt_sep_def by (simp add: nth_Cons' nth_append)
  moreover have "''__vng_stmt__'' ! (i - 1) \<in> set ''__vng_stmt__''"
    using assms by (intro nth_mem) simp
  moreover have "newline \<notin> set ''__vng_stmt__''" by simp
  ultimately show ?thesis by metis
qed

text \<open>
  A statement that does not contain the separator's text after a line break can be followed by the
  separator without creating an earlier occurrence of it.
\<close>

definition batch_safe :: "string \<Rightarrow> bool" where
  "batch_safe x \<longleftrightarrow> (\<forall>i < length x. \<not> starts_with (drop i x) (newline # ''__vng_stmt__''))"

lemma batch_safe_sep: "batch_safe x \<Longrightarrow> sep_safe raft_batch_stmt_sep x"
  unfolding sep_safe_def
proof (intro allI impI notI)
  fix i
  assume safe: "batch_safe x" and i: "i < length x"
    and occ: "starts_with (drop i x @ raft_batch_stmt_sep) raft_batch_stmt_sep"
  let ?y = "drop i x" and ?sep = "raft_batch_stmt_sep"
  have len: "length ?sep = 14" and hd: "?sep ! 0 = newline" and pre: "take 13 ?sep = newline # ''__vng_stmt__''"
    by (simp_all add: raft_batch_stmt_sep_def)
  have eq: "take 14 (?y @ ?sep) = ?sep" using occ by (simp add: starts_with_def len)
  show False
  proof (cases "length ?y \<ge> 13")
    case True
    then have "take 13 ?y = take 13 (take 14 (?y @ ?sep))" by (simp add: min_def)
    then have "take 13 ?y = newline # ''__vng_stmt__''" by (simp only: eq pre)
    moreover have "length (newline # ''__vng_stmt__'') = 13" by simp
    ultimately have "starts_with ?y (newline # ''__vng_stmt__'')"
      unfolding starts_with_def by (simp only:)
    with safe i show False by (simp add: batch_safe_def)
  next
    case False
    have "?sep ! length ?y = take 14 (?y @ ?sep) ! length ?y" by (simp only: eq)
    also have "\<dots> = ?sep ! 0" using False by (simp add: nth_append)
    finally have "?sep ! length ?y = newline" by (simp only: hd)
    moreover have "0 < length ?y" using i by simp
    ultimately show False using sep_newline_positions [of "length ?y"] False by simp
  qed
qed

lemma is_dml_nonempty: "is_dml s \<Longrightarrow> s \<noteq> []"
  by (auto simp: is_dml_def to_uppercase_def starts_with_def)

lemma split_line_newline: "newline \<notin> set db \<Longrightarrow> split_line (db @ newline # body) = Some (db, body)"
  by (simp add: split_line_def)

section \<open>Properties\<close>

text \<open>An extractor for the witnesses: the key of a \<^verbatim>\<open>DELETE\<close> is the text after the keyword.\<close>

definition demo_parser :: dml_parser where
  "demo_parser = \<lparr>insert_rows_of = (\<lambda>_. []), update_row_of = (\<lambda>_. None), delete_key_of = (\<lambda>s. Some (drop 7 s))\<rparr>"

text \<open>
  C24: One replication round. The request a leader plans for a peer that needs no snapshot has no gap;
  when the follower accepts it, the follower's log has the leader's term at every index from the
  peer's next index to the leader's last entry (beyond the follower's own snapshot).
\<close>

theorem raft_replication_round:
  assumes "log_wf leader" and "log_wf follower"
    and "1 \<le> plan_next_index leader peer" and "\<not> pp_needs_snapshot (plan_peer leader peer)"
    and "handle_append_entries (plan_append_request leader (plan_peer leader peer)) follower = (resp, follower')"
    and "ar_success resp"
  shows "append_request_wf (plan_append_request leader (plan_peer leader peer)) \<and>
    (\<forall>j. plan_next_index leader peer \<le> j \<longrightarrow> j \<le> fst (last_log_position leader) \<longrightarrow>
       snapshot_index follower < j \<longrightarrow> term_at follower' j = term_at leader j)"
proof -
  let ?ni = "plan_next_index leader peer" and ?s = "snapshot_index leader"
  let ?req = "plan_append_request leader (plan_peer leader peer)"
  note pl = plan_entries [OF assms(1,3,4)] and wf = plan_request_wf [OF assms(1,3,4)]
  have req: "prev_log_index ?req = ?ni - 1" "aq_entries ?req = drop (?ni - 1 - ?s) (raft_log leader)"
    using pl(2) by (simp_all add: plan_append_request_def plan_peer_def Let_def)
  have "term_at follower' j = term_at leader j"
    if j: "?ni \<le> j" "j \<le> fst (last_log_position leader)" "snapshot_index follower < j" for j
  proof -
    let ?i = "j - ?ni"
    have i: "?i < length (aq_entries ?req)" and at: "?ni - 1 - ?s + ?i = j - ?s - 1"
      using j pl(1) assms(3) by (simp_all add: req last_log_position_wf [OF assms(1)])
    have "snapshot_index follower \<le> prev_log_index ?req + ?i" "prev_log_index ?req + 1 + ?i = j"
      using j assms(3) by (simp_all add: req)
    with append_success_log [OF assms(2) wf assms(5,6)] i obtain e
      where e: "log_entry_at follower' j = Some e" "le_term e = le_term (aq_entries ?req ! ?i)"
      by metis
    have "snapshot_index follower' = snapshot_index follower" using assms(5) by (metis handle_append_entries_fields(2) snd_conv)
    with e j have "term_at follower' j = le_term e" by (simp add: term_at_def)
    moreover have "aq_entries ?req ! ?i = raft_log leader ! (j - ?s - 1)"
      using i at by (simp add: req)
    moreover have "term_at leader j = le_term (raft_log leader ! (j - ?s - 1))"
      using j pl(1) assms(3) by (intro term_at_log) (simp_all add: last_log_position_wf [OF assms(1)])
    ultimately show ?thesis using e(2) by simp
  qed
  with wf show ?thesis by blast
qed

theorem raft_replication_round_witness:
  "let leader = snd (append_command ''x'' 2 (raft_node_new ''l''));
       follower = raft_node_new ''f'';
       follower' = snd (handle_append_entries (plan_append_request leader (plan_peer leader ''f'')) follower)
   in term_at follower' 1 = term_at leader 1"
proof -
  let ?l = "snd (append_command ''x'' 2 (raft_node_new ''l''))"
  let ?h = "handle_append_entries (plan_append_request ?l (plan_peer ?l ''f'')) (raft_node_new ''f'')"
  have "log_wf (raft_node_new i)" for i by (simp add: log_wf_def raft_node_new_def)
  moreover from this have "log_wf ?l" by (intro append_command_wf(1))
  moreover have "1 \<le> plan_next_index ?l ''f''" "\<not> pp_needs_snapshot (plan_peer ?l ''f'')" "ar_success (fst ?h)"
    by (simp_all add: plan_next_index_def plan_peer_def plan_append_request_def append_command_def
        raft_node_new_def handle_append_entries_def append_consistent_def last_log_position_def Let_def)
  ultimately have "term_at (snd ?h) j = term_at ?l j"
    if "plan_next_index ?l ''f'' \<le> j" "j \<le> fst (last_log_position ?l)" "snapshot_index (raft_node_new ''f'') < j" for j
    using raft_replication_round [of ?l "raft_node_new ''f''" "''f''" "fst ?h" "snd ?h"] that by simp
  then show ?thesis
    by (simp add: plan_next_index_def append_command_def raft_node_new_def last_log_position_def Let_def)
qed

text \<open>
  The back-off finds agreement. While a follower of a lower or equal term rejects, each rejection
  lowers \<^verbatim>\<open>next_index\<close>; after at most as many rejections as its start value the leader (whose log is
  not compacted) sends a request the follower accepts.
\<close>

theorem raft_backoff_converges:
  assumes "map_of (next_index n) peer = Some ni" and "snapshot_index n = 0"
    and "current_term follower \<le> current_term n"
  shows "\<exists>k \<le> ni. let m = (record_append_failure peer ^^ k) n
    in \<not> pp_needs_snapshot (plan_peer m peer) \<and>
       ar_success (fst (handle_append_entries (plan_append_request m (plan_peer m peer)) follower))"
proof (intro exI [of _ ni] conjI order_refl)
  let ?m = "(record_append_failure peer ^^ ni) n"
  note m = record_append_failure_iter [OF assms(1), of ni]
  then have "plan_next_index ?m peer - 1 = 0"
    by (simp add: plan_next_index_def split: if_splits)
  with m assms(2,3) show "let m = ?m in \<not> pp_needs_snapshot (plan_peer m peer) \<and>
      ar_success (fst (handle_append_entries (plan_append_request m (plan_peer m peer)) follower))"
    by (simp add: plan_peer_def plan_append_request_def handle_append_entries_def append_consistent_def Let_def)
qed

theorem raft_backoff_converges_witness:
  "\<exists>k \<le> 5. let m = (record_append_failure ''p'' ^^ k) ((raft_node_new ''l'')\<lparr>next_index := [(''p'', 5)]\<rparr>)
    in \<not> pp_needs_snapshot (plan_peer m ''p'') \<and>
       ar_success (fst (handle_append_entries (plan_append_request m (plan_peer m ''p'')) (raft_node_new ''p'')))"
  by (rule raft_backoff_converges) (simp_all add: raft_node_new_def)

text \<open>
  C22: Committed entries are applied exactly once and in log order. On a node whose commit index lies
  inside its log and whose row store is well formed, the apply step does not panic; it runs the
  commands of the entries after \<^verbatim>\<open>last_applied\<close> up to the commit index, in index order, under one
  fresh transaction id, moves \<^verbatim>\<open>last_applied\<close> to the commit index, and a second apply step does
  nothing.
\<close>

theorem raft_apply_exactly_once:
  assumes "log_wf n" and "store_wf (rows st)"
    and "snapshot_index n \<le> last_applied n" and "last_applied n < commit_index n"
    and "commit_index n \<le> fst (last_log_position n)"
  shows "\<exists>n' st' mid.
    apply_committed_entries P (n, st) = Some (n', st') \<and>
    fold_opt (\<lambda>e. apply_dml_command P (le_command e) (next_xid (rows st)))
      (drop (last_applied n - snapshot_index n) (take (commit_index n - snapshot_index n) (raft_log n)))
      (st\<lparr>rows := snd (begin_xid (rows st))\<rparr>) = Some mid \<and>
    st' = mid\<lparr>rows := release_write_intents (rows mid) (next_xid (rows st))\<rparr> \<and>
    n' = n\<lparr>last_applied := commit_index n\<rparr> \<and>
    apply_committed_entries P (n', st') = Some (n', st')"
proof -
  let ?x = "next_xid (rows st)" and ?st = "st\<lparr>rows := snd (begin_xid (rows st))\<rparr>"
  note last = entries_to_apply_last [OF assms(1,3,4,5)]
  have "store_wf (rows ?st)"
    using assms(2) by (auto simp: begin_xid_def intro: store_wf_cong)
  then obtain mid where mid: "fold_opt (\<lambda>e. apply_dml_command P (le_command e) ?x) (entries_to_apply n) ?st = Some mid"
    using fold_opt_total [where I = "\<lambda>s. store_wf (rows s)" and f = "\<lambda>e. apply_dml_command P (le_command e) ?x"
        and xs = "entries_to_apply n", OF apply_dml_command_wf] by blast
  have "entries_to_apply (n\<lparr>last_applied := commit_index n\<rparr>) = []"
    by (simp add: entries_to_apply_def)
  with mid last assms(4) show ?thesis
    by (simp add: apply_committed_entries_def begin_xid_def entries_to_apply_slice [OF assms(1,3)])
qed

theorem raft_apply_exactly_once_witness:
  "\<exists>n' st'. apply_committed_entries demo_parser (snd (append_command_pending ''SELECT 1'' 0 (raft_node_new ''a'')),
      \<lparr>rows = fresh_store, stored = []\<rparr>) = Some (n', st') \<and> last_applied n' = 1"
proof -
  let ?n = "snd (append_command_pending ''SELECT 1'' 0 (raft_node_new ''a''))"
  have "log_wf ?n" by (rule append_command_wf(2)) (simp add: log_wf_def raft_node_new_def)
  moreover have "snapshot_index ?n = 0" "last_applied ?n = 0" "commit_index ?n = 1" "fst (last_log_position ?n) = 1"
    by (simp_all add: append_command_pending_def raft_node_new_def last_log_position_def Let_def)
  ultimately show ?thesis
    using raft_apply_exactly_once [of ?n "\<lparr>rows = fresh_store, stored = []\<rparr>" demo_parser] by auto
qed

text \<open>
  A transaction's batch reaches the followers as written. Applying the batch command encoded from
  a list of statements is the same as applying its trimmed DML statements one after the other under
  the batch's database and one transaction id, provided the database name has no line break and no
  statement contains the separator's text at the start of a line.
\<close>

theorem raft_batch_roundtrip:
  assumes "encode_raft_batch_command db statements = Some command"
    and "newline \<notin> set db" and "\<forall>s\<in>set statements. batch_safe (trim s)"
  shows "apply_dml_command P command x st =
    fold_opt (\<lambda>s. apply_single_dml P db s x) (filter is_dml (map trim statements)) st"
proof -
  let ?dml = "filter is_dml (map trim statements)"
  have cmd: "command = raft_batch_prefix @ db @ newline # join raft_batch_stmt_sep ?dml" and ne: "?dml \<noteq> []"
    using assms(1) by (auto simp: encode_raft_batch_command_def Let_def split: if_splits)
  have "split_str raft_batch_stmt_sep (join raft_batch_stmt_sep ?dml) = ?dml"
  proof (rule split_str_join [OF _ ne])
    show "raft_batch_stmt_sep \<noteq> []" by (simp add: raft_batch_stmt_sep_def)
    show "\<forall>x\<in>set ?dml. sep_safe raft_batch_stmt_sep x" using assms(3) by (auto intro: batch_safe_sep)
  qed
  moreover have "strip_prefix raft_batch_prefix command = Some (db @ newline # join raft_batch_stmt_sep ?dml)"
    by (simp add: cmd strip_prefix_def starts_with_append)
  ultimately have "apply_dml_command P command x st =
      fold_opt (\<lambda>stmt st. let stmt = trim stmt
                           in if stmt \<noteq> [] then apply_single_dml P db stmt x st else Some st) ?dml st"
    by (simp only: apply_dml_command_def split_line_newline [OF assms(2)] option.case prod.case Let_def)
  also have "\<dots> = fold_opt (\<lambda>s. apply_single_dml P db s x) ?dml st"
  proof (rule fold_opt_cong)
    fix s st
    assume "s \<in> set ?dml"
    then have "trim s = s" "s \<noteq> []" by (auto simp: trim_trim dest: is_dml_nonempty)
    then show "(let stmt = trim s in if stmt \<noteq> [] then apply_single_dml P db stmt x st else Some st) =
        apply_single_dml P db s x st" by simp
  qed
  finally show ?thesis .
qed

lemma batch_safe_no_newline: "newline \<notin> set s \<Longrightarrow> batch_safe s"
  by (auto simp: batch_safe_def starts_with_def dest: in_set_dropD)
    (metis in_set_dropD in_set_takeD list.set_intros(1))

theorem raft_batch_roundtrip_witness:
  "apply_dml_command demo_parser (the (encode_raft_batch_command ''db'' [''DELETE a'', ''SELECT 1''])) 7
       \<lparr>rows = fresh_store, stored = []\<rparr> =
     Some \<lparr>rows = snd (begin_write_intent fresh_store 7 ''a''), stored = [(''db'', ''a'', 7, None)]\<rparr>"
proof -
  let ?ss = "[''DELETE a'', ''SELECT 1'']"
  have t: "trim ''DELETE a'' = ''DELETE a''" "trim ''SELECT 1'' = ''SELECT 1''"
    by (rule trim_id; simp add: is_whitespace_def)+
  have d: "is_dml ''DELETE a''" "\<not> is_dml ''SELECT 1''"
    by (simp_all add: is_dml_def to_uppercase_def ascii_upper_def starts_with_def)
  have "encode_raft_batch_command ''db'' ?ss = Some (the (encode_raft_batch_command ''db'' ?ss))"
    by (simp add: encode_raft_batch_command_def t d)
  from raft_batch_roundtrip [OF this, of demo_parser 7 "\<lparr>rows = fresh_store, stored = []\<rparr>"]
  have "apply_dml_command demo_parser (the (encode_raft_batch_command ''db'' ?ss)) 7
      \<lparr>rows = fresh_store, stored = []\<rparr> =
    apply_single_dml demo_parser ''db'' ''DELETE a'' 7 \<lparr>rows = fresh_store, stored = []\<rparr>"
    by (simp add: t d batch_safe_no_newline split: option.split)
  also have "\<dots> = Some \<lparr>rows = snd (begin_write_intent fresh_store 7 ''a''), stored = [(''db'', ''a'', 7, None)]\<rparr>"
    by (simp add: apply_single_dml_def trim_id to_uppercase_def ascii_upper_def starts_with_def
        is_whitespace_def demo_parser_def apply_delete_def store_delete_def fresh_store_def
        begin_write_intent_def find_row_mut_def Let_def)
  finally show ?thesis .
qed



text \<open>
  A stale snapshot rolls the rows back. For a snapshot that is not ahead of the follower's own the
  node changes nothing but still answers with success, and the endpoint then replaces the whole row
  store by the snapshot's rows: the applied position stays, the rows do not.
\<close>

theorem raft_stale_snapshot_overwrites_rows:
  assumes "store_wf rs" and "max_rows_cap rs = 0"
    and "current_term n \<le> iq_term req" and "iq_snapshot_index req \<le> snapshot_index n"
    and "distinct (map fst (iq_rows req))"
  shows "\<exists>resp n' rs'. raft_install_snapshot req (n, rs) = Some (resp, n', rs') \<and>
    ir_success resp \<and> last_applied n' = last_applied n \<and> snapshot_index n' = snapshot_index n \<and>
    raft_log n' = raft_log n \<and> (\<forall>k. read_latest rs' k = map_of (iq_rows req) k)"
proof -
  obtain rs' where rs': "replace_all rs (iq_rows req) = Some rs'" "next_xid rs' = next_xid rs + 1"
    using replace_all_wf [OF assms(1)] by blast
  then have "read_latest rs' k = map_of (iq_rows req) k" for k
    using replace_all_history [OF assms(1,2,5) rs'(1), of k]
    by (auto simp: read_latest_def read_at_snapshot_history chain_visible_def split: option.splits)
  with rs' assms(3,4) show ?thesis
    by (simp add: raft_install_snapshot_def handle_install_snapshot_def Let_def)
qed

theorem raft_stale_snapshot_overwrites_rows_witness:
  "\<exists>resp n' rs'. raft_install_snapshot
      \<lparr>iq_term = 1, iq_leader_id = ''l'', iq_snapshot_index = 2, iq_snapshot_term = 1, iq_rows = []\<rparr>
      ((raft_node_new ''f'')\<lparr>snapshot_index := 5, last_applied := 9\<rparr>, fresh_store) = Some (resp, n', rs') \<and>
    last_applied n' = 9 \<and> read_latest rs' ''k'' = None"
  using raft_stale_snapshot_overwrites_rows [of fresh_store "(raft_node_new ''f'')\<lparr>snapshot_index := 5, last_applied := 9\<rparr>"
      "\<lparr>iq_term = 1, iq_leader_id = ''l'', iq_snapshot_index = 2, iq_snapshot_term = 1, iq_rows = []\<rparr>"]
  by (auto simp: raft_node_new_def)

text \<open>
  After compaction a candidate understates its log. The vote request carries the number of entries
  left in memory and the term of the last of them, so once a candidate has compacted its log, every
  voter whose log ends at the same position refuses the vote.
\<close>

theorem raft_compacted_candidate_rejected:
  assumes "log_wf n" and "0 < snapshot_index n" and "last_log_position voter = last_log_position n"
  shows "\<not> vote_granted (fst (handle_vote_request (election_request n) voter))"
proof
  assume "vote_granted (fst (handle_vote_request (election_request n) voter))"
  from handle_vote_request_granted [OF surjective_pairing this] assms(3)
  have "vq_last_log_term (election_request n) > snd (last_log_position n) \<or>
      vq_last_log_term (election_request n) = snd (last_log_position n) \<and>
      vq_last_log_index (election_request n) \<ge> fst (last_log_position n)"
    by simp
  then show False
    using assms(2) last_log_position_wf [OF assms(1)]
    by (auto simp: election_request_def last_log_position_def split: if_splits)
qed

theorem raft_compacted_candidate_rejected_witness:
  "let n = compact_log 1 (snd (append_command ''x'' 2 (raft_node_new ''a'')))
   in \<not> vote_granted (fst (handle_vote_request (election_request (become_candidate n)) n))"
proof -
  let ?n = "compact_log 1 (snd (append_command ''x'' 2 (raft_node_new ''a'')))"
  have "log_wf ?n" by (intro compact_log_wf append_command_wf(1)) (simp add: log_wf_def raft_node_new_def)
  then have "log_wf (become_candidate ?n)" by (simp add: log_wf_def become_candidate_def)
  moreover have "0 < snapshot_index (become_candidate ?n)"
    by (simp add: become_candidate_def compact_log_def append_command_def raft_node_new_def
        log_entry_at_def last_log_position_def Let_def)
  moreover have "last_log_position ?n = last_log_position (become_candidate ?n)"
    by (rule last_log_position_cong) (simp_all add: become_candidate_def)
  ultimately show ?thesis using raft_compacted_candidate_rejected by metis
qed

end
