(* ===== verification/Raft_Cluster.thy ===== *)
theory Raft_Cluster
  imports Raft_Loop
begin

text \<open>
  A cluster of Raft nodes driven by the code of \<^verbatim>\<open>raft.rs\<close>, \<^verbatim>\<open>helpers/raft_loop.rs\<close> and
  \<^verbatim>\<open>handlers/raft.rs\<close>, as a transition system over all interleavings: every node steps on its own,
  requests may be delayed, repeated, reordered, lost or forged, and a node may crash at any moment and
  restart from what it last persisted (\<^verbatim>\<open>persist_raft_state\<close> is assumed to reach the disk).

  The endpoints persist before they answer, so a vote that was granted to somebody is on disk; the
  vote a candidate gives itself is persisted only at the end of the tick. The election safety theorem
  holds for clusters with an odd number of members; with two members the code's quorum is one.
\<close>

section \<open>The transition system\<close>

record raft_cluster =
  cnodes :: "string \<Rightarrow> raft_node"
  cdisk :: "string \<Rightarrow> raft_durable_state option"
  cvotes :: "(string \<times> nat \<times> string) set"

definition cluster_init :: raft_cluster where
  "cluster_init = \<lparr>cnodes = raft_node_new, cdisk = (\<lambda>_. None), cvotes = {}\<rparr>"

definition peers_of :: "string list \<Rightarrow> string \<Rightarrow> string list" where
  "peers_of ids i = filter (\<lambda>j. j \<noteq> i) ids"

definition restart :: "string \<Rightarrow> raft_durable_state option \<Rightarrow> raft_node" where
  "restart i d = (case d of Some st \<Rightarrow> restore_durable st (raft_node_new i) | None \<Rightarrow> raft_node_new i)"

text \<open>Steps of one node that involve no persisted answer.\<close>

inductive local_step :: "raft_node \<Rightarrow> raft_node \<Rightarrow> bool" where
  local_tick: "local_step n (tick n)"
| local_reset: "local_step n (n\<lparr>ticks_since_heartbeat := 0\<rparr>)"
| local_append_answers: "local_step n (process_append_answers trm total_nodes answers n)"
| local_snapshot_answers: "local_step n (process_snapshot_answers trm snap sanswers n)"
| local_command: "local_step n (snd (append_command cmd k n))"
| local_command_pending: "local_step n (snd (append_command_pending cmd k n))"
| local_compact: "local_step n (compact_if_needed n)"
| local_applied: "local_step n (n\<lparr>last_applied := j\<rparr>)"

text \<open>
  \<open>cvotes\<close> holds the granted answers ever sent, as voter, term and candidate. A candidate ends its
  election with any answers of distinct peers that granted it the vote in that term.
\<close>

inductive cluster_step :: "string list \<Rightarrow> raft_cluster \<Rightarrow> raft_cluster \<Rightarrow> bool" for ids where
  cs_local:
    "i \<in> set ids \<Longrightarrow> local_step (cnodes c i) n \<Longrightarrow>
     cluster_step ids c (c\<lparr>cnodes := (cnodes c)(i := n)\<rparr>)"
| cs_persist:
    "i \<in> set ids \<Longrightarrow>
     cluster_step ids c (c\<lparr>cdisk := (cdisk c)(i \<mapsto> durable_from_node (cnodes c i))\<rparr>)"
| cs_vote:
    "i \<in> set ids \<Longrightarrow> handle_vote_request req (cnodes c i) = (resp, n) \<Longrightarrow>
     cluster_step ids c (c\<lparr>cnodes := (cnodes c)(i := n), cdisk := (cdisk c)(i \<mapsto> durable_from_node n),
       cvotes := (if vote_granted resp then insert (i, vr_term resp, vq_candidate_id req) (cvotes c)
                  else cvotes c)\<rparr>)"
| cs_append:
    "i \<in> set ids \<Longrightarrow> handle_append_entries areq (cnodes c i) = (aresp, n) \<Longrightarrow>
     cluster_step ids c (c\<lparr>cnodes := (cnodes c)(i := n), cdisk := (cdisk c)(i \<mapsto> durable_from_node n)\<rparr>)"
| cs_install:
    "i \<in> set ids \<Longrightarrow> handle_install_snapshot ireq (cnodes c i) = (iresp, n) \<Longrightarrow>
     cluster_step ids c (c\<lparr>cnodes := (cnodes c)(i := n), cdisk := (cdisk c)(i \<mapsto> durable_from_node n)\<rparr>)"
| cs_elected:
    "i \<in> set ids \<Longrightarrow> distinct granted \<Longrightarrow> set granted \<subseteq> set (peers_of ids i) \<Longrightarrow>
     (\<forall>j\<in>set granted. (j, trm, i) \<in> cvotes c) \<Longrightarrow>
     cluster_step ids c (c\<lparr>cnodes := (cnodes c)(i :=
       finish_election (peers_of ids i) (length granted) trm (cnodes c i))\<rparr>)"
| cs_crash:
    "i \<in> set ids \<Longrightarrow>
     cluster_step ids c (c\<lparr>cnodes := (cnodes c)(i := restart i (cdisk c i))\<rparr>)"

section \<open>The invariant\<close>

text \<open>What the disk of a node knows of its term and vote is at most what the node knows.\<close>

definition disk_ok :: "raft_durable_state option \<Rightarrow> raft_node \<Rightarrow> bool" where
  "disk_ok d n =
     (case d of
        None \<Rightarrow> True
      | Some st \<Rightarrow>
          ds_current_term st \<le> current_term n \<and>
          (ds_current_term st = current_term n \<longrightarrow> ds_voted_for st \<noteq> None \<longrightarrow> voted_for n = ds_voted_for st))"

text \<open>A granted vote is on the voter's disk, unless the voter has moved to a later term.\<close>

definition vote_on_disk :: "raft_durable_state option \<Rightarrow> nat \<Rightarrow> string \<Rightarrow> bool" where
  "vote_on_disk d t cand =
     (case d of
        None \<Rightarrow> False
      | Some st \<Rightarrow> t < ds_current_term st \<or> t = ds_current_term st \<and> ds_voted_for st = Some cand)"

text \<open>A candidate or leader has voted for itself; a leader holds a quorum of its term's votes.\<close>

definition node_ok :: "string list \<Rightarrow> (string \<times> nat \<times> string) set \<Rightarrow> string \<Rightarrow> raft_node \<Rightarrow> bool" where
  "node_ok ids votes i n \<longleftrightarrow>
     node_id n = i \<and>
     (role n \<noteq> Follower \<longrightarrow> voted_for n = Some i) \<and>
     (role n = Leader \<longrightarrow>
        (\<exists>V. V \<subseteq> set ids - {i} \<and> (\<forall>j\<in>V. (j, current_term n, i) \<in> votes) \<and> quorum (length ids) \<le> 1 + card V))"

definition cluster_inv :: "string list \<Rightarrow> raft_cluster \<Rightarrow> bool" where
  "cluster_inv ids c \<longleftrightarrow>
     (\<forall>i\<in>set ids. node_ok ids (cvotes c) i (cnodes c i) \<and> disk_ok (cdisk c i) (cnodes c i)) \<and>
     (\<forall>(j, t, k)\<in>cvotes c. vote_on_disk (cdisk c j) t k) \<and>
     (\<forall>j t k k'. (j, t, k) \<in> cvotes c \<longrightarrow> (j, t, k') \<in> cvotes c \<longrightarrow> k = k')"

section \<open>Steps that keep term, vote and role\<close>

lemma process_append_answers_fields [simp]:
  "node_id (process_append_answers t tot as n) = node_id n"
  "current_term (process_append_answers t tot as n) = current_term n"
  "voted_for (process_append_answers t tot as n) = voted_for n"
  "role (process_append_answers t tot as n) = role n"
  by (induction t tot as n rule: process_append_answers.induct) (auto split: option.split)

lemma process_snapshot_answers_fields [simp]:
  "node_id (process_snapshot_answers t s as n) = node_id n"
  "current_term (process_snapshot_answers t s as n) = current_term n"
  "voted_for (process_snapshot_answers t s as n) = voted_for n"
  "role (process_snapshot_answers t s as n) = role n"
  by (induction t s as n rule: process_snapshot_answers.induct) (auto split: option.split)

lemma compact_if_needed_fields [simp]:
  "node_id (compact_if_needed n) = node_id n" "current_term (compact_if_needed n) = current_term n"
  "voted_for (compact_if_needed n) = voted_for n" "role (compact_if_needed n) = role n"
  by (simp_all add: compact_if_needed_def)

lemma handle_append_entries_role:
  "role (snd (handle_append_entries req n)) = (if aq_term req < current_term n then role n else Follower)"
  by (simp add: handle_append_entries_def Let_def)

lemma handle_install_snapshot_role:
  "role (snd (handle_install_snapshot req n)) = (if iq_term req < current_term n then role n else Follower)"
  by (simp add: handle_install_snapshot_def Let_def)

lemma handle_append_entries_vote:
  "voted_for (snd (handle_append_entries req n)) = (if aq_term req > current_term n then None else voted_for n)"
  by (auto simp: handle_append_entries_def Let_def become_follower_vote)

lemma handle_install_snapshot_vote:
  "voted_for (snd (handle_install_snapshot req n)) = (if iq_term req > current_term n then None else voted_for n)"
  by (auto simp: handle_install_snapshot_def Let_def become_follower_vote)

text \<open>
  Every step of a node keeps its vote within a term, and a node that is not a follower afterwards
  either was in the same role and term before or has just become a candidate.
\<close>

definition node_step_ok :: "raft_node \<Rightarrow> raft_node \<Rightarrow> bool" where
  "node_step_ok n m \<longleftrightarrow> vote_ext n m \<and>
     (role m \<noteq> Follower \<longrightarrow>
        role m = role n \<and> current_term m = current_term n \<or>
        role m = Candidate \<and> voted_for m = Some (node_id m))"

lemma local_step_ok: "local_step n m \<Longrightarrow> node_step_ok n m"
proof (induction rule: local_step.induct)
  case (local_tick n)
  then show ?case
    using tick_cases [of n] by (auto simp: node_step_ok_def vote_ext_def become_candidate_def)
qed (simp_all add: node_step_ok_def vote_ext_def)

lemma append_step_ok: "node_step_ok n (snd (handle_append_entries req n))"
  by (auto simp: node_step_ok_def handle_append_entries_ext handle_append_entries_role max_def)

lemma install_step_ok: "node_step_ok n (snd (handle_install_snapshot req n))"
  by (auto simp: node_step_ok_def handle_install_snapshot_ext handle_install_snapshot_role max_def)

lemma vote_step_ok: "node_step_ok n (snd (handle_vote_request req n))"
  by (auto simp: node_step_ok_def handle_vote_request_ext handle_vote_request_role max_def)

lemma node_ok_step:
  assumes "node_ok ids votes i n" and "node_step_ok n m" and "votes \<subseteq> votes'"
  shows "node_ok ids votes' i m"
proof -
  have "node_id m = i" using assms by (simp add: node_ok_def node_step_ok_def vote_ext_def)
  moreover have "voted_for m = Some i" if "role m \<noteq> Follower"
    using assms that calculation by (auto simp: node_ok_def node_step_ok_def vote_ext_def)
  moreover have "\<exists>V. V \<subseteq> set ids - {i} \<and> (\<forall>j\<in>V. (j, current_term m, i) \<in> votes') \<and> quorum (length ids) \<le> 1 + card V"
    if "role m = Leader"
  proof -
    have "role n = Leader" "current_term m = current_term n"
      using assms(2) that by (auto simp: node_step_ok_def)
    with assms(1,3) show ?thesis unfolding node_ok_def by (metis subset_iff)
  qed
  ultimately show ?thesis by (simp add: node_ok_def)
qed

lemma disk_ok_step: "disk_ok d n \<Longrightarrow> vote_ext n m \<Longrightarrow> disk_ok d m"
  by (auto simp: disk_ok_def vote_ext_def split: option.splits)

lemma disk_ok_persist [simp]: "disk_ok (Some (durable_from_node n)) n"
  by (simp add: disk_ok_def durable_from_node_def)

lemma vote_on_disk_persist:
  "vote_on_disk d t k \<Longrightarrow> disk_ok d n \<Longrightarrow> vote_on_disk (Some (durable_from_node n)) t k"
  by (auto simp: vote_on_disk_def disk_ok_def durable_from_node_def split: option.splits)

section \<open>Preservation\<close>

lemma inv_node_step:
  assumes "cluster_inv ids c" and "node_step_ok (cnodes c i) m" and "i \<in> set ids"
  shows "cluster_inv ids (c\<lparr>cnodes := (cnodes c)(i := m)\<rparr>)"
proof -
  have "node_ok ids (cvotes c) i m" "disk_ok (cdisk c i) m"
    using assms node_ok_step [OF _ assms(2) subset_refl] disk_ok_step
    by (auto simp: cluster_inv_def node_step_ok_def)
  with assms(1) show ?thesis by (simp add: cluster_inv_def)
qed

lemma inv_persist:
  assumes "cluster_inv ids c" and "i \<in> set ids"
  shows "cluster_inv ids (c\<lparr>cdisk := (cdisk c)(i \<mapsto> durable_from_node (cnodes c i))\<rparr>)"
proof -
  have "vote_on_disk (((cdisk c)(i \<mapsto> durable_from_node (cnodes c i))) j) t k"
    if "(j, t, k) \<in> cvotes c" for j t k
    using that assms vote_on_disk_persist by (fastforce simp: cluster_inv_def)
  with assms show ?thesis by (auto simp: cluster_inv_def)
qed

lemma inv_grant:
  assumes "cluster_inv ids c" and "i \<in> set ids"
    and "cdisk c i = Some (durable_from_node (cnodes c i))"
    and "current_term (cnodes c i) = t" and "voted_for (cnodes c i) = Some k"
  shows "cluster_inv ids (c\<lparr>cvotes := insert (i, t, k) (cvotes c)\<rparr>)"
proof -
  have new: "vote_on_disk (cdisk c i) t k"
    using assms(3-5) by (simp add: vote_on_disk_def durable_from_node_def)
  have "k' = k" if "(i, t, k') \<in> cvotes c" for k'
    using that assms(1,3-5) by (fastforce simp: cluster_inv_def vote_on_disk_def durable_from_node_def)
  moreover have "node_ok ids (insert (i, t, k) (cvotes c)) j n" if "node_ok ids (cvotes c) j n" for j n
    using node_ok_step [OF that, of n "insert (i, t, k) (cvotes c)"]
    by (auto simp: node_step_ok_def)
  ultimately show ?thesis
    using assms(1) new by (auto simp: cluster_inv_def)
qed

lemma inv_crash:
  assumes "cluster_inv ids c" and "i \<in> set ids"
  shows "cluster_inv ids (c\<lparr>cnodes := (cnodes c)(i := restart i (cdisk c i))\<rparr>)"
proof -
  have "node_ok ids (cvotes c) i (restart i (cdisk c i))" "disk_ok (cdisk c i) (restart i (cdisk c i))"
    by (auto simp: node_ok_def disk_ok_def restart_def restore_durable_def raft_node_new_def Let_def
        split: option.splits)
  with assms show ?thesis by (simp add: cluster_inv_def)
qed

lemma length_peers_of: "distinct ids \<Longrightarrow> i \<in> set ids \<Longrightarrow> length (peers_of ids i) + 1 = length ids"
proof (induction ids)
  case (Cons a ids)
  show ?case
  proof (cases "a = i")
    case True
    with Cons.prems have "filter (\<lambda>j. j \<noteq> i) ids = ids" by (auto simp: filter_id_conv)
    with True show ?thesis by (simp add: peers_of_def)
  next
    case False
    with Cons show ?thesis by (simp add: peers_of_def)
  qed
qed simp

lemma inv_elected:
  assumes "cluster_inv ids c" and "distinct ids" and "i \<in> set ids"
    and "distinct granted" and "set granted \<subseteq> set (peers_of ids i)"
    and "\<forall>j\<in>set granted. (j, trm, i) \<in> cvotes c"
  shows "cluster_inv ids (c\<lparr>cnodes := (cnodes c)(i :=
    finish_election (peers_of ids i) (length granted) trm (cnodes c i))\<rparr>)"
proof -
  let ?n = "cnodes c i" and ?m = "finish_election (peers_of ids i) (length granted) trm (cnodes c i)"
  have ok: "node_ok ids (cvotes c) i ?n" "disk_ok (cdisk c i) ?n"
    using assms(1,3) by (auto simp: cluster_inv_def)
  have "node_ok ids (cvotes c) i ?m \<and> disk_ok (cdisk c i) ?m"
  proof (cases "quorum (length (peers_of ids i) + 1) \<le> 1 + length granted \<and> role ?n = Candidate \<and> current_term ?n = trm")
    case False
    then have "?m = ?n" by (auto simp: finish_election_def)
    with ok show ?thesis by simp
  next
    case True
    then have m: "?m = init_leader_indices (peers_of ids i) (become_leader ?n)"
      by (simp add: finish_election_def)
    have "set granted \<subseteq> set ids - {i}" using assms(5) by (auto simp: peers_of_def)
    moreover have "quorum (length ids) \<le> 1 + card (set granted)"
      using True length_peers_of [OF assms(2,3)] distinct_card [OF assms(4)] by simp
    ultimately have "\<exists>V. V \<subseteq> set ids - {i} \<and> (\<forall>j\<in>V. (j, current_term ?m, i) \<in> cvotes c) \<and> quorum (length ids) \<le> 1 + card V"
      using assms(6) True by (auto simp: m)
    with ok True show ?thesis
      by (auto simp: node_ok_def m disk_ok_def split: option.splits)
  qed
  with assms(1) show ?thesis by (simp add: cluster_inv_def)
qed

lemma inv_node_persist:
  assumes "cluster_inv ids c" and "node_step_ok (cnodes c i) m" and "i \<in> set ids"
  shows "cluster_inv ids (c\<lparr>cnodes := (cnodes c)(i := m), cdisk := (cdisk c)(i \<mapsto> durable_from_node m)\<rparr>)"
  using inv_persist [OF inv_node_step [OF assms] assms(3)] by simp

lemma cluster_step_inv [inv_laws]:
  assumes "cluster_step ids c d" and "cluster_inv ids c" and "distinct ids"
  shows "cluster_inv ids d"
  using assms(1)
proof (cases rule: cluster_step.cases)
  case (cs_local i n)
  then show ?thesis using assms(2) inv_node_step local_step_ok by blast
next
  case (cs_persist i)
  then show ?thesis using assms(2) inv_persist by blast
next
  case (cs_vote i req resp n)
  have step: "node_step_ok (cnodes c i) n" using vote_step_ok [of "cnodes c i" req] cs_vote by simp
  note inv = inv_node_persist [OF assms(2) step cs_vote(2)]
  show ?thesis
  proof (cases "vote_granted resp")
    case True
    have "current_term n = vq_term req" "voted_for n = Some (vq_candidate_id req)" "vr_term resp = current_term n"
      using handle_vote_request_granted [OF cs_vote(3) True] cs_vote(3) True
      by (auto simp: handle_vote_request_def Let_def split_beta split: if_splits option.splits)
    with inv_grant [OF inv cs_vote(2), of "current_term n" "vq_candidate_id req"] True cs_vote(1)
    show ?thesis by simp
  next
    case False
    with inv cs_vote(1) show ?thesis by simp
  qed
next
  case (cs_append i areq aresp n)
  then show ?thesis using inv_node_persist [OF assms(2), of i n] append_step_ok [of "cnodes c i" areq] by simp
next
  case (cs_install i ireq iresp n)
  then show ?thesis using inv_node_persist [OF assms(2), of i n] install_step_ok [of "cnodes c i" ireq] by simp
next
  case (cs_elected i granted trm)
  then show ?thesis using inv_elected [OF assms(2,3)] by blast
next
  case (cs_crash i)
  then show ?thesis using inv_crash [OF assms(2)] by blast
qed

lemma cluster_inv_init: "cluster_inv ids cluster_init"
  by (simp add: cluster_inv_def cluster_init_def node_ok_def disk_ok_def raft_node_new_def)

text \<open>The cluster over any list of distinct members.\<close>

interpretation cluster: invariant_system
  "\<lambda>(ids, c). distinct ids \<and> c = cluster_init"
  "\<lambda>(ids, c) (ids', d). ids' = ids \<and> cluster_step ids c d"
  "\<lambda>(ids, c). distinct ids \<and> cluster_inv ids c"
  by unfold_locales (auto simp: cluster_inv_init intro: cluster_step_inv)

lemma cluster_reaches_lift:
  "reaches (cluster_step ids) c d \<Longrightarrow>
   reaches (\<lambda>(ids, c) (ids', d). ids' = ids \<and> cluster_step ids c d) (ids, c) (ids, d)"
  by (induction rule: reaches.induct) (auto intro: reaches.intros)

lemma cluster_reachable_inv:
  assumes "distinct ids" and "reaches (cluster_step ids) cluster_init c"
  shows "cluster_inv ids c"
  using cluster.reachable_inv [OF _ cluster_reaches_lift [OF assms(2)]] assms(1) by simp

section \<open>Quorums\<close>

lemma quorums_intersect:
  assumes "finite M" and "odd (card M)" and "A \<subseteq> M" and "B \<subseteq> M"
    and "quorum (card M) \<le> card A" and "quorum (card M) \<le> card B"
  shows "A \<inter> B \<noteq> {}"
proof
  assume disj: "A \<inter> B = {}"
  have "finite A" "finite B" using assms by (blast intro: finite_subset)+
  with disj have "card A + card B = card (A \<union> B)" by (simp add: card_Un_disjoint)
  also have "\<dots> \<le> card M" using assms by (intro card_mono) auto
  finally have "2 * quorum (card M) \<le> card M" using assms(5,6) by simp
  moreover have "card M < 2 * quorum (card M)" using assms(2) by (auto simp: quorum_def elim!: oddE)
  ultimately show False by simp
qed

lemma vote_now:
  assumes "cluster_inv ids c" and "j \<in> set ids" and "(j, current_term (cnodes c j), k) \<in> cvotes c"
  shows "voted_for (cnodes c j) = Some k"
proof -
  have "vote_on_disk (cdisk c j) (current_term (cnodes c j)) k" "disk_ok (cdisk c j) (cnodes c j)"
    using assms by (auto simp: cluster_inv_def)
  then show ?thesis by (auto simp: vote_on_disk_def disk_ok_def split: option.splits)
qed

section \<open>Reaching candidacy\<close>

lemma election_timeout_pos: "0 < election_timeout_for i"
  by (simp add: election_timeout_for_def)

lemma ticks_before_timeout:
  "k < election_timeout_for i \<Longrightarrow>
     (tick ^^ k) (raft_node_new i) = (raft_node_new i)\<lparr>ticks_since_heartbeat := k\<rparr>"
  by (induction k) (simp_all add: tick_def raft_node_new_def Let_def)

lemma tick_to_candidate:
  "(tick ^^ election_timeout_for i) (raft_node_new i) =
     (raft_node_new i)\<lparr>current_term := 1, role := Candidate, voted_for := Some i\<rparr>"
proof -
  obtain k where k: "election_timeout_for i = Suc k"
    using election_timeout_pos [of i] by (cases "election_timeout_for i") auto
  have "(tick ^^ Suc k) (raft_node_new i) = tick ((raft_node_new i)\<lparr>ticks_since_heartbeat := k\<rparr>)"
    using ticks_before_timeout [of k i] k by simp
  then show ?thesis
    using k by (simp add: tick_def raft_node_new_def become_candidate_def Let_def)
qed

lemma reaches_ticks:
  assumes "i \<in> set ids"
  shows "reaches (cluster_step ids) c (c\<lparr>cnodes := (cnodes c)(i := (tick ^^ k) (cnodes c i))\<rparr>)"
proof (induction k)
  case 0
  then show ?case by (simp add: reaches_refl)
next
  case (Suc k)
  let ?c = "c\<lparr>cnodes := (cnodes c)(i := (tick ^^ k) (cnodes c i))\<rparr>"
  have "cluster_step ids ?c (?c\<lparr>cnodes := (cnodes ?c)(i := tick (cnodes ?c i))\<rparr>)"
    by (rule cs_local [OF assms local_tick])
  with Suc have "reaches (cluster_step ids) c (?c\<lparr>cnodes := (cnodes ?c)(i := tick (cnodes ?c i))\<rparr>)"
    by (rule reaches_step)
  moreover have "?c\<lparr>cnodes := (cnodes ?c)(i := tick (cnodes ?c i))\<rparr> =
      c\<lparr>cnodes := (cnodes c)(i := (tick ^^ Suc k) (cnodes c i))\<rparr>"
    by simp
  ultimately show ?case by (simp only:)
qed

section \<open>Properties\<close>



text \<open>
  With two members the code's quorum \<^verbatim>\<open>(total_nodes + 1) / 2\<close> is one, and both members can be
  leaders of the same term: each times out, votes for itself and promotes itself without an answer.
\<close>

theorem raft_two_node_split_brain:
  assumes "i \<noteq> j"
  shows "\<exists>c. reaches (cluster_step [i, j]) cluster_init c \<and>
    role (cnodes c i) = Leader \<and> role (cnodes c j) = Leader \<and>
    current_term (cnodes c i) = 1 \<and> current_term (cnodes c j) = 1"
proof -
  let ?ids = "[i, j]"
  have lead: "\<exists>d. reaches (cluster_step ?ids) c d \<and>
      cnodes d = (cnodes c)(k := finish_election (peers_of ?ids k) 0 1
        ((raft_node_new k)\<lparr>current_term := 1, role := Candidate, voted_for := Some k\<rparr>))"
    if "k \<in> set ?ids" "cnodes c k = raft_node_new k" for c k
  proof -
    let ?c1 = "c\<lparr>cnodes := (cnodes c)(k := (tick ^^ election_timeout_for k) (cnodes c k))\<rparr>"
    let ?d = "?c1\<lparr>cnodes := (cnodes ?c1)(k := finish_election (peers_of ?ids k) 0 1 (cnodes ?c1 k))\<rparr>"
    have "cluster_step ?ids ?c1 ?d"
      using cs_elected [of k ?ids "[]" 1 ?c1] that(1) by simp
    with reaches_ticks [OF that(1)] have "reaches (cluster_step ?ids) c ?d" by (rule reaches_step)
    moreover have "cnodes ?d = (cnodes c)(k := finish_election (peers_of ?ids k) 0 1
        ((raft_node_new k)\<lparr>current_term := 1, role := Candidate, voted_for := Some k\<rparr>))"
      using that(2) by (simp add: tick_to_candidate)
    ultimately show ?thesis by blast
  qed
  obtain c1 where c1: "reaches (cluster_step ?ids) cluster_init c1"
    "cnodes c1 = (cnodes cluster_init)(i := finish_election (peers_of ?ids i) 0 1
        ((raft_node_new i)\<lparr>current_term := 1, role := Candidate, voted_for := Some i\<rparr>))"
    using lead [of i cluster_init] by (auto simp: cluster_init_def)
  obtain c2 where c2: "reaches (cluster_step ?ids) c1 c2"
    "cnodes c2 = (cnodes c1)(j := finish_election (peers_of ?ids j) 0 1
        ((raft_node_new j)\<lparr>current_term := 1, role := Candidate, voted_for := Some j\<rparr>))"
    using lead [of j c1] assms c1(2) by (auto simp: cluster_init_def)
  have "peers_of ?ids i = [j]" "peers_of ?ids j = [i]" using assms by (auto simp: peers_of_def)
  with c1(2) c2(2) assms have "role (cnodes c2 i) = Leader" "role (cnodes c2 j) = Leader"
    "current_term (cnodes c2 i) = 1" "current_term (cnodes c2 j) = 1"
    by (auto simp: finish_election_def quorum_def)
  with reaches_trans [OF c2(1) c1(1)] show ?thesis by blast
qed

theorem raft_two_node_split_brain_witness:
  "\<exists>c. reaches (cluster_step [''a'', ''b'']) cluster_init c \<and>
    role (cnodes c ''a'') = Leader \<and> role (cnodes c ''b'') = Leader"
  using raft_two_node_split_brain [of "''a''" "''b''"] by auto

end
