(* ===== verification/Locks.thy ===== *)
theory Locks
  imports Vng_Text
begin

text \<open>
  The pessimistic lock manager of \<^verbatim>\<open>helpers/execution.rs\<close> with its endpoints in \<^verbatim>\<open>handlers/sql.rs\<close>:
  the lock table by resource, the wait-for graph (each transaction waits for at most one resource),
  the bounded deadlock scan, acquisition with expiry and renewal, release, and the contention
  counters. The wall clock and the environment variable with the hop budget are arguments; the
  counters are unbounded.
\<close>

section \<open>Data\<close>

record plock =
  lk_id :: string
  lk_transaction_id :: string
  lk_resource :: string
  lk_owner :: string
  lk_acquired :: nat
  lk_expires :: nat

datatype scan_outcome = CycleDetected | ScanCapReached | NoCycle

datatype status_code = StOk | BadRequest | Conflict | RequestTimeout | NotFound

record lock_response =
  lr_status :: string
  lr_lock_state :: string
  lr_reason :: string
  lr_lock :: "plock option"

text \<open>The lock table and the wait graph, with the process-wide counters the operations bump.\<close>

record lock_manager =
  lock_table :: "string \<rightharpoonup> plock"
  wait_graph :: "string \<rightharpoonup> string"
  lock_counter :: nat
  gate_deadlock_detections :: nat
  gate_scan_cap_timeouts :: nat

definition lock_manager_init :: lock_manager where
  "lock_manager_init =
     \<lparr>lock_table = Map.empty, wait_graph = Map.empty, lock_counter = 1,
      gate_deadlock_detections = 0, gate_scan_cap_timeouts = 0\<rparr>"

section \<open>The deadlock scan\<close>

definition default_max_hops :: nat where
  "default_max_hops = 8"

definition deadlock_scan_max_hops :: "string option \<Rightarrow> nat" where
  "deadlock_scan_max_hops env =
     (case Option.bind env (\<lambda>v. parse_uint 64 (trim v)) of
        Some n \<Rightarrow> if n > 0 then n else default_max_hops
      | None \<Rightarrow> default_max_hops)"

primrec deadlock_scan ::
  "nat \<Rightarrow> (string \<rightharpoonup> string) \<Rightarrow> (string \<rightharpoonup> plock) \<Rightarrow> string \<Rightarrow> string list \<Rightarrow> string \<Rightarrow> scan_outcome" where
  "deadlock_scan 0 wg lt waiting visited holder = ScanCapReached"
| "deadlock_scan (Suc n) wg lt waiting visited holder =
     (if holder \<in> set visited then CycleDetected
      else case wg holder of
        None \<Rightarrow> NoCycle
      | Some resource \<Rightarrow>
          (case lt resource of
             None \<Rightarrow> NoCycle
           | Some blocker \<Rightarrow>
               if lk_transaction_id blocker = waiting then CycleDetected
               else deadlock_scan n wg lt waiting (holder # visited) (lk_transaction_id blocker)))"

definition evaluate_deadlock_scan_outcome ::
  "string option \<Rightarrow> (string \<rightharpoonup> string) \<Rightarrow> (string \<rightharpoonup> plock) \<Rightarrow> string \<Rightarrow> string \<Rightarrow> scan_outcome" where
  "evaluate_deadlock_scan_outcome env wg lt waiting holder =
     deadlock_scan (deadlock_scan_max_hops env) wg lt waiting [] holder"

definition cleanup_wait_edges_for_resource :: "string \<Rightarrow> (string \<rightharpoonup> string) \<Rightarrow> (string \<rightharpoonup> string)" where
  "cleanup_wait_edges_for_resource resource wg =
     (\<lambda>t. case wg t of Some r \<Rightarrow> if r = resource then None else Some r | None \<Rightarrow> None)"

section \<open>Acquiring and releasing\<close>

definition invalid_lock_request :: lock_response where
  "invalid_lock_request =
     \<lparr>lr_status = ''error'', lr_lock_state = ''invalid_request'',
      lr_reason = ''transaction_id_and_resource_are_required'', lr_lock = None\<rparr>"

definition blocked_response :: "string \<Rightarrow> string \<Rightarrow> plock \<Rightarrow> lock_response" where
  "blocked_response state reason existing =
     \<lparr>lr_status = ''blocked'', lr_lock_state = state, lr_reason = reason, lr_lock = Some existing\<rparr>"

text \<open>The part after the conflict check: a new record under a fresh lock id.\<close>

definition grant_lock ::
  "string \<Rightarrow> string \<Rightarrow> string \<Rightarrow> nat \<Rightarrow> nat \<Rightarrow> lock_manager \<Rightarrow> (status_code \<times> lock_response) \<times> lock_manager" where
  "grant_lock tx resource owner ttl now s =
     (let lock = \<lparr>lk_id = ''plock-'' @ show_nat (lock_counter s), lk_transaction_id = tx,
                  lk_resource = resource, lk_owner = trim owner, lk_acquired = now,
                  lk_expires = now + ttl\<rparr>;
          state = (if lock_table s resource \<noteq> None then ''renewed'' else ''acquired'')
      in ((StOk, \<lparr>lr_status = ''ok'', lr_lock_state = state, lr_reason = ''pessimistic_lock_granted'',
                  lr_lock = Some lock\<rparr>),
          s\<lparr>wait_graph := (wait_graph s)(tx := None), lock_counter := lock_counter s + 1,
            lock_table := (lock_table s)(resource \<mapsto> lock)\<rparr>))"

text \<open>The part for a lock that another transaction holds.\<close>

definition block_lock ::
  "string option \<Rightarrow> string \<Rightarrow> string \<Rightarrow> plock \<Rightarrow> nat \<Rightarrow> lock_manager \<Rightarrow> (status_code \<times> lock_response) \<times> lock_manager" where
  "block_lock env tx resource existing wait_timeout s =
     (if wait_timeout > 0 then
        (let wg = (wait_graph s)(tx \<mapsto> resource);
             s1 = s\<lparr>wait_graph := wg\<rparr>
         in case evaluate_deadlock_scan_outcome env wg (lock_table s) tx (lk_transaction_id existing) of
              CycleDetected \<Rightarrow>
                ((Conflict, blocked_response ''deadlock_risk'' ''pessimistic_lock_deadlock_risk'' existing),
                 s1\<lparr>gate_deadlock_detections := gate_deadlock_detections s + 1\<rparr>)
            | ScanCapReached \<Rightarrow>
                ((RequestTimeout, blocked_response ''wait_timeout''
                    ''pessimistic_lock_wait_timeout_scan_cap_reached'' existing),
                 s1\<lparr>gate_scan_cap_timeouts := gate_scan_cap_timeouts s + 1\<rparr>)
            | NoCycle \<Rightarrow>
                ((RequestTimeout, blocked_response ''wait_timeout'' ''pessimistic_lock_wait_timeout'' existing), s1))
      else
        ((Conflict, blocked_response ''held_by_other_transaction'' ''pessimistic_lock_conflict'' existing), s))"

definition acquire_pessimistic_lock ::
  "string option \<Rightarrow> string \<Rightarrow> string \<Rightarrow> string \<Rightarrow> nat \<Rightarrow> nat \<Rightarrow> nat \<Rightarrow> lock_manager \<Rightarrow>
   (status_code \<times> lock_response) \<times> lock_manager" where
  "acquire_pessimistic_lock env transaction_id resource owner ttl wait_timeout now s =
     (let tx = trim transaction_id; key = trim resource
      in if tx = [] \<or> key = [] then ((BadRequest, invalid_lock_request), s)
         else
           let s0 = s\<lparr>wait_graph := (wait_graph s)(tx := None)\<rparr>
           in case lock_table s key of
                None \<Rightarrow> grant_lock tx key owner ttl now s0
              | Some existing \<Rightarrow>
                  if lk_expires existing \<le> now then
                    grant_lock tx key owner ttl now
                      (s0\<lparr>lock_table := (lock_table s)(key := None),
                          wait_graph := cleanup_wait_edges_for_resource key (wait_graph s0)\<rparr>)
                  else if lk_transaction_id existing \<noteq> tx then block_lock env tx key existing wait_timeout s0
                  else grant_lock tx key owner ttl now s0)"

definition release_pessimistic_lock ::
  "string \<Rightarrow> string \<Rightarrow> lock_manager \<Rightarrow> (status_code \<times> lock_response) \<times> lock_manager" where
  "release_pessimistic_lock transaction_id resource s =
     (let tx = trim transaction_id; key = trim resource
      in if tx = [] \<or> key = [] then ((BadRequest, invalid_lock_request), s)
         else case lock_table s key of
           None \<Rightarrow> ((NotFound, \<lparr>lr_status = ''error'', lr_lock_state = ''not_found'',
                      lr_reason = ''no_lock_for_resource'', lr_lock = None\<rparr>), s)
         | Some existing \<Rightarrow>
             if lk_transaction_id existing \<noteq> tx then
               ((Conflict, blocked_response ''ownership_mismatch'' ''lock_owned_by_different_transaction'' existing), s)
             else
               ((StOk, \<lparr>lr_status = ''ok'', lr_lock_state = ''released'',
                        lr_reason = ''pessimistic_lock_released'', lr_lock = Some existing\<rparr>),
                s\<lparr>lock_table := (lock_table s)(key := None),
                  wait_graph := (cleanup_wait_edges_for_resource key (wait_graph s))(tx := None)\<rparr>))"

section \<open>The endpoints\<close>

record lock_metrics =
  lm_deadlock_detections :: nat
  lm_scan_cap_timeouts :: nat
  lm_wait_timeouts :: nat
  lm_lock_grants :: nat
  lm_lock_conflicts :: nat
  lm_lock_releases :: nat

definition lock_metrics_new :: lock_metrics where
  "lock_metrics_new =
     \<lparr>lm_deadlock_detections = 0, lm_scan_cap_timeouts = 0, lm_wait_timeouts = 0, lm_lock_grants = 0,
      lm_lock_conflicts = 0, lm_lock_releases = 0\<rparr>"

record acquire_request =
  lq_transaction_id :: string
  lq_resource :: string
  lq_owner :: "string option"
  lq_ttl_ms :: "nat option"
  lq_wait_timeout_ms :: "nat option"

definition unwrap_or :: "'a option \<Rightarrow> 'a \<Rightarrow> 'a" where
  "unwrap_or x d = (case x of Some v \<Rightarrow> v | None \<Rightarrow> d)"

definition count_acquire :: "lock_response \<Rightarrow> lock_metrics \<Rightarrow> lock_metrics" where
  "count_acquire r m =
     (if lr_lock_state r = ''deadlock_risk'' then m\<lparr>lm_deadlock_detections := lm_deadlock_detections m + 1\<rparr>
      else if lr_lock_state r = ''wait_timeout'' \<and> contains (lr_reason r) ''scan_cap''
        then m\<lparr>lm_scan_cap_timeouts := lm_scan_cap_timeouts m + 1\<rparr>
      else if lr_lock_state r = ''wait_timeout'' then m\<lparr>lm_wait_timeouts := lm_wait_timeouts m + 1\<rparr>
      else if lr_lock_state r = ''acquired'' \<or> lr_lock_state r = ''renewed''
        then m\<lparr>lm_lock_grants := lm_lock_grants m + 1\<rparr>
      else if lr_lock_state r = ''held_by_other_transaction''
        then m\<lparr>lm_lock_conflicts := lm_lock_conflicts m + 1\<rparr>
      else m)"

definition sql_pessimistic_lock_acquire ::
  "string option \<Rightarrow> nat \<Rightarrow> acquire_request \<Rightarrow> lock_manager \<times> lock_metrics \<Rightarrow>
   (status_code \<times> lock_response) \<times> (lock_manager \<times> lock_metrics)" where
  "sql_pessimistic_lock_acquire env now req st =
     (let ttl = max 1000 (min 300000 (unwrap_or (lq_ttl_ms req) 30000));
          owner = unwrap_or (lq_owner req) ''runtime-transaction-manager'';
          (resp, s) = acquire_pessimistic_lock env (lq_transaction_id req) (lq_resource req) owner ttl
                        (unwrap_or (lq_wait_timeout_ms req) 0) now (fst st)
      in (resp, (s, count_acquire (snd resp) (snd st))))"

definition sql_pessimistic_lock_release ::
  "string \<Rightarrow> string \<Rightarrow> lock_manager \<times> lock_metrics \<Rightarrow>
   (status_code \<times> lock_response) \<times> (lock_manager \<times> lock_metrics)" where
  "sql_pessimistic_lock_release tx resource st =
     (let (resp, s) = release_pessimistic_lock tx resource (fst st);
          m = snd st
      in (resp, (s, if lr_lock_state (snd resp) = ''released''
                    then m\<lparr>lm_lock_releases := lm_lock_releases m + 1\<rparr> else m)))"

section \<open>Specification of waiting\<close>

text \<open>
  The transaction a transaction waits for, the chain of transactions behind it, and the states in
  which the chain has no end: such a transaction cannot proceed by anybody's release.
\<close>

definition blocker :: "(string \<rightharpoonup> string) \<Rightarrow> (string \<rightharpoonup> plock) \<Rightarrow> string \<Rightarrow> string option" where
  "blocker wg lt t = Option.bind (wg t) (\<lambda>r. map_option lk_transaction_id (lt r))"

primrec chain_at :: "('a \<Rightarrow> 'a option) \<Rightarrow> 'a \<Rightarrow> nat \<Rightarrow> 'a option" where
  "chain_at b t 0 = Some t"
| "chain_at b t (Suc k) = Option.bind (b t) (\<lambda>u. chain_at b u k)"

definition waits_forever :: "(string \<rightharpoonup> string) \<Rightarrow> (string \<rightharpoonup> plock) \<Rightarrow> string \<Rightarrow> bool" where
  "waits_forever wg lt t \<longleftrightarrow> (\<forall>k. chain_at (blocker wg lt) t k \<noteq> None)"

datatype lock_op =
    LAcquire string string string nat nat nat
  | LRelease string string

primrec lock_op_tx :: "lock_op \<Rightarrow> string" where
  "lock_op_tx (LAcquire tx r owner ttl wt now) = trim tx"
| "lock_op_tx (LRelease tx r) = trim tx"

primrec lock_op_before :: "nat \<Rightarrow> lock_op \<Rightarrow> bool" where
  "lock_op_before deadline (LAcquire tx r owner ttl wt now) = (now < deadline)"
| "lock_op_before deadline (LRelease tx r) = True"

primrec run_lock :: "string option \<Rightarrow> lock_op \<Rightarrow> lock_manager \<Rightarrow> lock_manager" where
  "run_lock env (LAcquire tx r owner ttl wt now) s = snd (acquire_pessimistic_lock env tx r owner ttl wt now s)"
| "run_lock env (LRelease tx r) s = snd (release_pessimistic_lock tx r s)"

text \<open>
  The state invariant: a lock is filed under its own resource, and every wait edge leads from a
  transaction to a resource that another transaction holds.
\<close>

definition lock_wf :: "lock_manager \<Rightarrow> bool" where
  "lock_wf s \<longleftrightarrow>
     (\<forall>r l. lock_table s r = Some l \<longrightarrow> lk_resource l = r \<and> r \<noteq> [] \<and> lk_transaction_id l \<noteq> []) \<and>
     (\<forall>t r. wait_graph s t = Some r \<longrightarrow> (\<exists>l. lock_table s r = Some l \<and> lk_transaction_id l \<noteq> t)) \<and>
     finite (dom (wait_graph s))"

inductive lock_step :: "string option \<Rightarrow> lock_manager \<Rightarrow> lock_manager \<Rightarrow> bool" for env where
  lock_step_op: "lock_step env s (run_lock env op s)"

section \<open>Chains\<close>

lemma chain_at_add: "chain_at b t (i + j) = Option.bind (chain_at b t i) (\<lambda>u. chain_at b u j)"
  by (induction i arbitrary: t) (simp_all add: Option.bind_eq_Some_conv split: Option.bind_split)

lemma chain_at_None_mono: "chain_at b t k = None \<Longrightarrow> k \<le> m \<Longrightarrow> chain_at b t m = None"
  using chain_at_add [of b t k "m - k"] by simp

lemma chain_at_cycle:
  assumes "chain_at b t j = Some t" and "0 < j"
  shows "chain_at b t k \<noteq> None"
proof
  assume none: "chain_at b t k = None"
  have "chain_at b t (m * j) = Some t" for m
    by (induction m) (simp_all add: chain_at_add assms(1))
  moreover have "k \<le> k * j" using assms(2) by simp
  ultimately show False using chain_at_None_mono [OF none, of "k * j"] by simp
qed

lemma chain_at_shift: "b t = Some u \<Longrightarrow> (\<forall>k. chain_at b t k \<noteq> None) \<longleftrightarrow> (\<forall>k. chain_at b u k \<noteq> None)"
proof
  assume b: "b t = Some u" and all: "\<forall>k. chain_at b t k \<noteq> None"
  show "\<forall>k. chain_at b u k \<noteq> None"
    using all [rule_format, of "Suc _"] b by simp
next
  assume b: "b t = Some u" and all: "\<forall>k. chain_at b u k \<noteq> None"
  show "\<forall>k. chain_at b t k \<noteq> None"
  proof
    fix k
    show "chain_at b t k \<noteq> None" using b all by (cases k) auto
  qed
qed

lemma blocker_cases:
  "blocker wg lt t = None \<longleftrightarrow> wg t = None \<or> (\<exists>r. wg t = Some r \<and> lt r = None)"
  "blocker wg lt t = Some u \<longleftrightarrow> (\<exists>r l. wg t = Some r \<and> lt r = Some l \<and> lk_transaction_id l = u)"
  by (cases "wg t"; simp add: blocker_def)+

lemma scan_cycle:
  assumes "deadlock_scan n wg lt w vs h = CycleDetected"
    and "\<forall>v\<in>set vs. \<exists>j>0. chain_at (blocker wg lt) v j = Some h"
  shows "(\<forall>k. chain_at (blocker wg lt) h k \<noteq> None) \<or> (\<exists>k>0. chain_at (blocker wg lt) h k = Some w)"
  using assms
proof (induction n arbitrary: vs h)
  case 0
  then show ?case by simp
next
  case (Suc n)
  let ?b = "blocker wg lt"
  show ?case
  proof (cases "h \<in> set vs")
    case True
    with Suc.prems(2) chain_at_cycle show ?thesis by metis
  next
    case False
    with Suc.prems(1) obtain r l where l: "wg h = Some r" "lt r = Some l"
      by (auto split: option.splits)
    then have b: "?b h = Some (lk_transaction_id l)" by (auto simp: blocker_cases)
    show ?thesis
    proof (cases "lk_transaction_id l = w")
      case True
      with b have "chain_at ?b h 1 = Some w" by simp
      then show ?thesis by blast
    next
      case ne: False
      have "\<forall>v\<in>set (h # vs). \<exists>j>0. chain_at ?b v j = Some (lk_transaction_id l)"
      proof
        fix v assume "v \<in> set (h # vs)"
        then consider "v = h" | j where "chain_at ?b v j = Some h" using Suc.prems(2) by auto
        then show "\<exists>j>0. chain_at ?b v j = Some (lk_transaction_id l)"
        proof cases
          case 1
          with b have "chain_at ?b v 1 = Some (lk_transaction_id l)" by simp
          then show ?thesis by blast
        next
          case 2
          with b have "chain_at ?b v (j + 1) = Some (lk_transaction_id l)" 
            using chain_at_add [of ?b v j 1] by simp
          then show ?thesis by (metis add_gr_0 zero_less_one)
        qed
      qed
      moreover have "deadlock_scan n wg lt w (h # vs) (lk_transaction_id l) = CycleDetected"
        using Suc.prems(1) False l ne by simp
      ultimately have "(\<forall>k. chain_at ?b (lk_transaction_id l) k \<noteq> None) \<or>
          (\<exists>k>0. chain_at ?b (lk_transaction_id l) k = Some w)"
        using Suc.IH by blast
      then show ?thesis
      proof
        assume "\<forall>k. chain_at ?b (lk_transaction_id l) k \<noteq> None"
        then show ?thesis using chain_at_shift [of ?b, OF b] by blast
      next
        assume "\<exists>k>0. chain_at ?b (lk_transaction_id l) k = Some w"
        then obtain k where "chain_at ?b h (Suc k) = Some w" using b by auto
        then show ?thesis by blast
      qed
    qed
  qed
qed

lemma scan_no_cycle:
  assumes "deadlock_scan n wg lt w vs h = NoCycle"
  shows "\<exists>k. chain_at (blocker wg lt) h k = None"
  using assms
proof (induction n arbitrary: vs h)
  case 0
  then show ?case by simp
next
  case (Suc n)
  let ?b = "blocker wg lt"
  show ?case
  proof (cases "?b h")
    case None
    then have "chain_at ?b h 1 = None" by simp
    then show ?thesis by blast
  next
    case (Some u)
    then obtain r l where l: "wg h = Some r" "lt r = Some l" "lk_transaction_id l = u"
      by (auto simp: blocker_cases)
    with Suc.prems have "deadlock_scan n wg lt w (h # vs) u = NoCycle"
      by (auto split: if_splits)
    from Suc.IH [OF this] obtain k where "chain_at ?b h (Suc k) = None" using Some by auto
    then show ?thesis by blast
  qed
qed

lemma scan_cap:
  assumes "deadlock_scan n wg lt w vs h = ScanCapReached"
    and "distinct vs" and "set vs \<subseteq> dom wg" and "finite (dom wg)"
  shows "n + length vs \<le> card (dom wg)"
  using assms
proof (induction n arbitrary: vs h)
  case 0
  then show ?case using card_mono [of "dom wg" "set vs"] by (simp add: distinct_card)
next
  case (Suc n)
  from Suc.prems(1) obtain u where "h \<notin> set vs" "h \<in> dom wg"
      "deadlock_scan n wg lt w (h # vs) u = ScanCapReached"
    by (auto split: if_splits option.splits)
  with Suc.IH [of "h # vs" u] Suc.prems show ?case by simp
qed

section \<open>The invariant\<close>

lemmas lock_defs =
  acquire_pessimistic_lock_def release_pessimistic_lock_def grant_lock_def block_lock_def Let_def

lemma cleanup_Some:
  "cleanup_wait_edges_for_resource r wg t = Some q \<longleftrightarrow> wg t = Some q \<and> q \<noteq> r"
  by (auto simp: cleanup_wait_edges_for_resource_def split: option.splits)

lemma finite_dom_cleanup: "finite (dom wg) \<Longrightarrow> finite (dom (cleanup_wait_edges_for_resource r wg))"
  by (rule finite_subset [of _ "dom wg"]) (auto simp: dom_def cleanup_Some)

lemma finite_dom_del: "finite (dom wg) \<Longrightarrow> finite (dom (wg(t := None)))"
  by (rule finite_subset [of _ "dom wg"]) (auto simp: dom_def)

lemma finite_dom_upd: "finite (dom wg) \<Longrightarrow> finite (dom (wg(t \<mapsto> r)))"
  by (rule finite_subset [of _ "insert t (dom wg)"]) (auto simp: dom_def)

lemmas lock_wf_intros = finite_dom_cleanup finite_dom_del finite_dom_upd

lemma lock_wf_waitD:
  "lock_wf s \<Longrightarrow> wait_graph s t = Some r \<Longrightarrow> \<exists>l. lock_table s r = Some l \<and> lk_transaction_id l \<noteq> t"
  unfolding lock_wf_def by blast

lemma grant_lock_wf:
  assumes "lock_wf s" and "tx \<noteq> []" and "key \<noteq> []"
    and "\<forall>l. lock_table s key = Some l \<longrightarrow> lk_transaction_id l = tx"
    and "lock_table s key = None \<longrightarrow> (\<forall>t. wait_graph s t \<noteq> Some key)"
  shows "lock_wf (snd (grant_lock tx key owner ttl now s))"
proof -
  let ?t = "snd (grant_lock tx key owner ttl now s)"
  have table: "lock_table ?t r = Some l \<Longrightarrow> lk_resource l = r \<and> r \<noteq> [] \<and> lk_transaction_id l \<noteq> []" for r l
    using assms by (auto simp: grant_lock_def Let_def lock_wf_def split: if_splits)
  have "\<exists>l. lock_table ?t r = Some l \<and> lk_transaction_id l \<noteq> t" if "wait_graph ?t t = Some r" for t r
  proof -
    from that have e: "wait_graph s t = Some r" "t \<noteq> tx"
      by (auto simp: grant_lock_def Let_def split: if_splits)
    from lock_wf_waitD [OF assms(1) e(1)] obtain l where "lock_table s r = Some l" "lk_transaction_id l \<noteq> t"
      by blast
    with e assms(4) show ?thesis by (cases "r = key") (auto simp: grant_lock_def Let_def)
  qed
  with table show ?thesis
    using assms(1) by (auto simp: lock_wf_def grant_lock_def Let_def intro!: lock_wf_intros)
qed

lemma block_lock_wf:
  assumes "lock_wf s" and "lock_table s key = Some l" and "lk_transaction_id l \<noteq> tx"
  shows "lock_wf (snd (block_lock env tx key l wt s))"
proof -
  have "lock_wf (s\<lparr>wait_graph := (wait_graph s)(tx \<mapsto> key)\<rparr>)"
    using assms by (auto simp: lock_wf_def intro!: lock_wf_intros)
  then show ?thesis
    using assms(1) by (auto simp: block_lock_def Let_def lock_wf_def split: scan_outcome.splits)
qed

lemma lock_wf_remove:
  assumes "lock_wf s"
  shows "lock_wf (s\<lparr>lock_table := (lock_table s)(key := None),
      wait_graph := cleanup_wait_edges_for_resource key (wait_graph s)\<rparr>)"
  using assms by (auto simp: lock_wf_def cleanup_Some intro!: lock_wf_intros)

lemma lock_wf_unwait: "lock_wf s \<Longrightarrow> lock_wf (s\<lparr>wait_graph := (wait_graph s)(tx := None)\<rparr>)"
  by (auto simp: lock_wf_def intro!: lock_wf_intros split: if_splits)

lemma acquire_wf:
  assumes "lock_wf s"
  shows "lock_wf (snd (acquire_pessimistic_lock env tx r owner ttl wt now s))"
proof (cases "trim tx = [] \<or> trim r = []")
  case True
  then show ?thesis using assms by (auto simp: acquire_pessimistic_lock_def Let_def)
next
  case False
  let ?s0 = "s\<lparr>wait_graph := (wait_graph s)(trim tx := None)\<rparr>"
  have wf0: "lock_wf ?s0" by (rule lock_wf_unwait [OF assms])
  have held: "lock_table s (trim r) = None \<Longrightarrow> \<forall>t. wait_graph ?s0 t \<noteq> Some (trim r)"
    using lock_wf_waitD [OF wf0] by fastforce
  show ?thesis
  proof (cases "lock_table s (trim r)")
    case None
    with False held wf0 show ?thesis
      by (auto simp: acquire_pessimistic_lock_def Let_def intro!: grant_lock_wf)
  next
    case (Some l)
    consider "lk_expires l \<le> now" | "lk_expires l > now" "lk_transaction_id l \<noteq> trim tx"
      | "lk_expires l > now" "lk_transaction_id l = trim tx" by linarith
    then show ?thesis
    proof cases
      case 1
      have "lock_wf (?s0\<lparr>lock_table := (lock_table s)(trim r := None),
          wait_graph := cleanup_wait_edges_for_resource (trim r) (wait_graph ?s0)\<rparr>)"
        using lock_wf_remove [OF wf0, of "trim r"] by simp
      with 1 Some False show ?thesis
        by (auto simp: acquire_pessimistic_lock_def Let_def cleanup_Some intro!: grant_lock_wf)
    next
      case 2
      with Some False wf0 show ?thesis
        by (auto simp: acquire_pessimistic_lock_def Let_def intro!: block_lock_wf)
    next
      case 3
      with Some False wf0 show ?thesis
        by (auto simp: acquire_pessimistic_lock_def Let_def intro!: grant_lock_wf)
    qed
  qed
qed

lemma release_wf:
  assumes "lock_wf s"
  shows "lock_wf (snd (release_pessimistic_lock tx r s))"
  using assms lock_wf_unwait [OF lock_wf_remove [OF assms, of "trim r"], of "trim tx"]
  by (auto simp: release_pessimistic_lock_def Let_def split: option.splits)

lemma run_lock_wf: "lock_wf s \<Longrightarrow> lock_wf (run_lock env op s)"
  by (cases op) (simp_all add: acquire_wf release_wf)

lemma lock_wf_init: "lock_wf lock_manager_init"
  by (simp add: lock_wf_def lock_manager_init_def)

interpretation lock_inv: invariant_system "\<lambda>s. s = lock_manager_init" "lock_step env" lock_wf for env
  by unfold_locales (auto simp: lock_wf_init elim!: lock_step.cases intro: run_lock_wf)

section \<open>Properties\<close>

lemma block_lock_outcome:
  assumes "block_lock env tx key l wt s = ((code, resp), t)"
    and "lock_table s key = Some l" and "finite (dom (wait_graph s))"
  shows "lock_table t = lock_table s \<and> code \<noteq> StOk \<and> lr_lock resp = Some l \<and>
    (lr_lock_state resp = ''deadlock_risk'' \<longrightarrow> waits_forever (wait_graph t) (lock_table t) tx) \<and>
    (lr_reason resp = ''pessimistic_lock_wait_timeout'' \<longrightarrow> \<not> waits_forever (wait_graph t) (lock_table t) tx) \<and>
    (lr_reason resp = ''pessimistic_lock_wait_timeout_scan_cap_reached'' \<longrightarrow>
       deadlock_scan_max_hops env \<le> card (dom (wait_graph t)))"
proof -
  let ?wg = "(wait_graph s)(tx \<mapsto> key)" and ?h = "lk_transaction_id l" and ?n = "deadlock_scan_max_hops env"
  let ?b = "blocker ?wg (lock_table s)"
  have b: "?b tx = Some ?h" using assms(2) by (simp add: blocker_def)
  have cyc: "waits_forever ?wg (lock_table s) tx" if "deadlock_scan ?n ?wg (lock_table s) tx [] ?h = CycleDetected"
  proof -
    have "(\<forall>k. chain_at ?b ?h k \<noteq> None) \<or> (\<exists>k>0. chain_at ?b ?h k = Some tx)"
      using scan_cycle [OF that] by simp
    then show ?thesis
    proof
      assume "\<forall>k. chain_at ?b ?h k \<noteq> None"
      then show ?thesis using chain_at_shift [of ?b, OF b] by (simp add: waits_forever_def)
    next
      assume "\<exists>k>0. chain_at ?b ?h k = Some tx"
      then obtain k where "chain_at ?b tx (Suc k) = Some tx" using b by auto
      from chain_at_cycle [OF this] show ?thesis by (simp add: waits_forever_def)
    qed
  qed
  have no: "\<not> waits_forever ?wg (lock_table s) tx" if "deadlock_scan ?n ?wg (lock_table s) tx [] ?h = NoCycle"
    using scan_no_cycle [OF that] chain_at_shift [of ?b, OF b] by (auto simp: waits_forever_def)
  have cap: "?n \<le> card (dom ?wg)" if "deadlock_scan ?n ?wg (lock_table s) tx [] ?h = ScanCapReached"
    using scan_cap [OF that] finite_dom_upd [OF assms(3), of tx key] by simp
  show ?thesis
  proof (cases "wt > 0")
    case False
    then show ?thesis using assms(1) by (auto simp: block_lock_def blocked_response_def)
  next
    case True
    then show ?thesis
      using assms(1) cyc no cap
      by (cases "deadlock_scan ?n ?wg (lock_table s) tx [] ?h")
        (auto simp: block_lock_def blocked_response_def evaluate_deadlock_scan_outcome_def Let_def)
  qed
qed

lemma acquire_cases:
  assumes "acquire_pessimistic_lock env tx r owner ttl wt now s = ((code, resp), t)"
  obtains (invalid) "code = BadRequest" "resp = invalid_lock_request" "t = s"
    | (granted) s1 where "grant_lock (trim tx) (trim r) owner ttl now s1 = ((code, resp), t)"
        "\<forall>k. k \<noteq> trim r \<longrightarrow> lock_table s1 k = lock_table s k"
        "\<forall>l. lock_table s (trim r) = Some l \<longrightarrow> lk_expires l \<le> now \<or> lk_transaction_id l = trim tx"
    | (blocked) l where "lock_table s (trim r) = Some l" "now < lk_expires l" "lk_transaction_id l \<noteq> trim tx"
        "block_lock env (trim tx) (trim r) l wt (s\<lparr>wait_graph := (wait_graph s)(trim tx := None)\<rparr>) = ((code, resp), t)"
proof (cases "trim tx = [] \<or> trim r = []")
  case True
  then show ?thesis using assms invalid by (auto simp: acquire_pessimistic_lock_def Let_def)
next
  case False
  note acq = assms [unfolded acquire_pessimistic_lock_def Let_def, simplified False if_False]
  show ?thesis
  proof (cases "lock_table s (trim r)")
    case None
    show ?thesis by (rule granted [OF acq [unfolded None option.case]]) (use None in auto)
  next
    case (Some l)
    show ?thesis
    proof (cases "lk_expires l \<le> now")
      case True
      show ?thesis by (rule granted [OF acq [unfolded Some option.case, simplified True if_True]])
          (use Some True in auto)
    next
      case live: False
      show ?thesis
      proof (cases "lk_transaction_id l = trim tx")
        case True
        show ?thesis by (rule granted [OF acq [unfolded Some option.case, simplified live True if_False simp_thms if_cancel]])
            (use Some True in auto)
      next
        case False
        show ?thesis by (rule blocked [OF Some]) (use acq Some live False in auto)
      qed
    qed
  qed
qed

lemma grant_lock_fields:
  assumes "grant_lock tx key owner ttl now s = ((code, resp), t)"
  shows "code = StOk \<and> lr_status resp = ''ok'' \<and> lr_reason resp = ''pessimistic_lock_granted'' \<and>
    lr_lock_state resp \<in> {''acquired'', ''renewed''} \<and>
    (\<exists>l. lr_lock resp = Some l \<and> lock_table t = (lock_table s)(key \<mapsto> l) \<and>
      lk_transaction_id l = tx \<and> lk_resource l = key \<and> lk_expires l = now + ttl)"
  using assms by (auto simp: grant_lock_def Let_def split: if_splits)

text \<open>
  C9: The deadlock scan is exact. When a request for a held lock is answered with a deadlock risk, the
  requester waits, in the state left behind, in a chain of transactions that has no end, so no
  release outside it can serve it; when it is answered with a plain wait timeout, the chain ends in a
  transaction that waits for nobody; and the hop budget is the reason for the answer only when at
  least that many transactions wait.
\<close>

theorem lock_deadlock_scan_exact:
  assumes "lock_wf s" and "acquire_pessimistic_lock env tx r owner ttl wt now s = ((code, resp), t)"
  shows "(lr_lock_state resp = ''deadlock_risk'' \<longrightarrow> waits_forever (wait_graph t) (lock_table t) (trim tx)) \<and>
    (lr_reason resp = ''pessimistic_lock_wait_timeout'' \<longrightarrow>
       \<not> waits_forever (wait_graph t) (lock_table t) (trim tx)) \<and>
    (lr_reason resp = ''pessimistic_lock_wait_timeout_scan_cap_reached'' \<longrightarrow>
       deadlock_scan_max_hops env \<le> card (dom (wait_graph t)))"
  using assms(2)
proof (cases rule: acquire_cases)
  case invalid
  then show ?thesis by (simp add: invalid_lock_request_def)
next
  case (granted s1)
  then show ?thesis using grant_lock_fields by fastforce
next
  case (blocked l)
  let ?s0 = "s\<lparr>wait_graph := (wait_graph s)(trim tx := None)\<rparr>"
  have "lock_table ?s0 (trim r) = Some l" "finite (dom (wait_graph ?s0))"
    using assms(1) blocked(1) by (auto simp: lock_wf_def intro!: finite_dom_del)
  from block_lock_outcome [OF blocked(4) this] show ?thesis by blast
qed

text \<open>Transactions \<open>a\<close> and \<open>b\<close> hold \<open>x\<close> and \<open>y\<close>, and \<open>a\<close> waits for \<open>y\<close>.\<close>

definition crossed_locks :: lock_manager where
  "crossed_locks =
     snd (acquire_pessimistic_lock None ''a'' ''y'' ''o'' 9 1 2
       (snd (acquire_pessimistic_lock None ''b'' ''y'' ''o'' 9 0 1
         (snd (acquire_pessimistic_lock None ''a'' ''x'' ''o'' 9 0 0 lock_manager_init)))))"

theorem lock_deadlock_scan_exact_witness:
  "lr_lock_state (snd (fst (acquire_pessimistic_lock None ''b'' ''x'' ''o'' 9 1 3 crossed_locks))) = ''deadlock_risk'' \<and>
   waits_forever (wait_graph (snd (acquire_pessimistic_lock None ''b'' ''x'' ''o'' 9 1 3 crossed_locks)))
     (lock_table (snd (acquire_pessimistic_lock None ''b'' ''x'' ''o'' 9 1 3 crossed_locks))) (trim ''b'')"
proof -
  let ?r = "acquire_pessimistic_lock None ''b'' ''x'' ''o'' 9 1 3 crossed_locks"
  have wf: "lock_wf crossed_locks"
    by (simp add: crossed_locks_def acquire_wf lock_wf_init)
  have risk: "lr_lock_state (snd (fst ?r)) = ''deadlock_risk''" by code_simp
  have "?r = ((fst (fst ?r), snd (fst ?r)), snd ?r)" by simp
  from lock_deadlock_scan_exact [OF wf this] risk show ?thesis by blast
qed

text \<open>
  Another transaction's operation that runs before the deadline of a lock leaves the lock alone.
\<close>

lemma run_lock_keeps:
  assumes "lock_table s r = Some l" and "lock_op_tx op \<noteq> lk_transaction_id l"
    and "lock_op_before (lk_expires l) op"
  shows "lock_table (run_lock env op s) r = Some l"
proof (cases op)
  case (LAcquire tx q owner ttl wt now)
  obtain code resp t where acq: "acquire_pessimistic_lock env tx q owner ttl wt now s = ((code, resp), t)"
    by (metis prod.exhaust)
  from acq have "lock_table t r = Some l"
  proof (cases rule: acquire_cases)
    case invalid
    then show ?thesis using assms(1) by simp
  next
    case (granted s1)
    have "r \<noteq> trim q" using granted(3) assms LAcquire by auto
    with grant_lock_fields [OF granted(1)] granted(2) assms(1) show ?thesis by auto
  next
    case (blocked l')
    have "lock_table t = lock_table s"
      using blocked(4) by (auto simp: block_lock_def Let_def split: if_splits scan_outcome.splits)
    with assms(1) show ?thesis by simp
  qed
  with acq LAcquire show ?thesis by simp
next
  case (LRelease tx q)
  then show ?thesis
    using assms by (auto simp: release_pessimistic_lock_def Let_def split: option.splits)
qed

lemma run_locks_keep:
  assumes "lock_table s r = Some l"
    and "\<forall>op\<in>set ops. lock_op_tx op \<noteq> lk_transaction_id l \<and> lock_op_before (lk_expires l) op"
  shows "lock_table (fold (run_lock env) ops s) r = Some l"
  using assms by (induction ops arbitrary: s) (simp_all add: run_lock_keeps)

text \<open>
  C8: Mutual exclusion. Once a transaction is granted a lock, whatever other transactions acquire and
  release in the meantime, every request of another transaction for that resource before the lock
  expires is refused and is shown the holder's lock.
\<close>

theorem lock_mutual_exclusion:
  assumes "acquire_pessimistic_lock env tx r owner ttl wt now s = ((StOk, resp), t)"
    and "\<forall>op\<in>set ops. lock_op_tx op \<noteq> trim tx \<and> lock_op_before (now + ttl) op"
    and "trim tx' \<noteq> trim tx" and "trim tx' \<noteq> []" and "now' < now + ttl"
  shows "\<exists>code resp' u.
    acquire_pessimistic_lock env tx' r owner' ttl' wt' now' (fold (run_lock env) ops t) = ((code, resp'), u) \<and>
    code \<in> {Conflict, RequestTimeout} \<and> lr_lock resp' = lr_lock resp"
proof -
  obtain l where l: "lr_lock resp = Some l" "lock_table t (trim r) = Some l" "lk_transaction_id l = trim tx"
    "lk_expires l = now + ttl" and r: "trim r \<noteq> []"
    using assms(1)
  proof (cases rule: acquire_cases)
    case (granted s1)
    have "trim r \<noteq> []" using assms(1) by (auto simp: acquire_pessimistic_lock_def Let_def)
    with grant_lock_fields [OF granted(1)] that show ?thesis by auto
  next
    case (blocked l)
    then show ?thesis by (auto simp: block_lock_def Let_def split: if_splits scan_outcome.splits)
  qed simp
  have "lock_table (fold (run_lock env) ops t) (trim r) = Some l"
    by (rule run_locks_keep [OF l(2)]) (use assms(2) l in simp)
  with l r assms(3-5) show ?thesis
    by (auto simp: acquire_pessimistic_lock_def block_lock_def blocked_response_def Let_def
        split: scan_outcome.split)
qed

theorem lock_mutual_exclusion_witness:
  "\<exists>code resp' u.
    acquire_pessimistic_lock None ''b'' ''x'' ''o'' 9 0 3
      (fold (run_lock None) [LAcquire ''c'' ''y'' ''o'' 9 0 1, LRelease ''b'' ''x'']
        (snd (acquire_pessimistic_lock None ''a'' ''x'' ''o'' 9 0 0 lock_manager_init))) = ((code, resp'), u) \<and>
    code \<in> {Conflict, RequestTimeout} \<and>
    lr_lock resp' = lr_lock (snd (fst (acquire_pessimistic_lock None ''a'' ''x'' ''o'' 9 0 0 lock_manager_init)))"
proof -
  let ?r = "acquire_pessimistic_lock None ''a'' ''x'' ''o'' 9 0 0 lock_manager_init"
  have t: "trim ''a'' = ''a''" "trim ''b'' = ''b''" "trim ''c'' = ''c''" by code_simp+
  have "fst (fst ?r) = StOk" by code_simp
  then have "?r = ((StOk, snd (fst ?r)), snd ?r)" by (metis prod.collapse)
  from lock_mutual_exclusion [OF this, of "[LAcquire ''c'' ''y'' ''o'' 9 0 1, LRelease ''b'' ''x'']" "''b''" 3]
  show ?thesis by (simp add: t)
qed

end
