(* ===== verification/Sql_Analyzer.thy ===== *)
theory Sql_Analyzer
  imports Vng_Text
begin

text \<open>
  Statement classification and the function registry of \<^verbatim>\<open>voltnuerongrid-sql/src/lib.rs\<close>: comment
  stripping, the statement kinds by leading keywords, splitting of a batch at semicolons, the
  transaction and catalog flags, and the registry with the built-in catalog. Texts are ASCII, with
  the byte order mark as its three UTF-8 bytes; the registry lists its functions in the order of the
  association list, which stands for the iteration order of the hash map.
\<close>

section \<open>Statement kinds\<close>

datatype sql_statement_kind =
    SkSelect | SkInsert | SkUpdate | SkDelete | SkCreateTable | SkCreateView
  | SkCreateMaterializedView | SkCreateFunction | SkCreateTrigger | SkCreateEvent | SkAlterTable | SkCreateIndex
  | SkDropIndex | SkDropTable | SkDropView | SkDropFunction | SkDropTrigger | SkDropEvent
  | SkBegin | SkCommit | SkRollback | SkSavepoint | SkReleaseSavepoint | SkRollbackToSavepoint
  | SkGrant | SkRevoke | SkCreateRole | SkDropRole | SkCreateDatabase | SkDropDatabase
  | SkCreateSchema | SkDropSchema | SkUnknown

record sql_statement =
  st_raw :: string
  st_kind :: sql_statement_kind

record analysis_result =
  an_kind :: sql_statement_kind
  an_requires_transaction :: bool
  an_touches_catalog :: bool

definition bom :: string where
  "bom = [CHR 0xEF, CHR 0xBB, CHR 0xBF]"

fun trim_bom :: "string \<Rightarrow> string" where
  "trim_bom (a # b # c # s) = (if [a, b, c] = bom then trim_bom s else a # b # c # s)"
| "trim_bom s = s"

text \<open>The part of a line before the first \<^verbatim>\<open>--\<close>.\<close>

fun before_comment :: "string \<Rightarrow> string" where
  "before_comment (a # b # s) = (if a = CHR ''-'' \<and> b = CHR ''-'' then [] else a # before_comment (b # s))"
| "before_comment s = s"

definition normalize_line :: "string \<Rightarrow> string" where
  "normalize_line l = (let content = before_comment l in if trim content \<noteq> [] then content @ '' '' else [])"

definition normalize_sql_for_match :: "string \<Rightarrow> string" where
  "normalize_sql_for_match sql =
     to_uppercase (trim (concat (map normalize_line (buf_lines (trim (trim_bom sql))))))"

definition nth_opt :: "'a list \<Rightarrow> nat \<Rightarrow> 'a option" where
  "nth_opt xs i = (if i < length xs then Some (xs ! i) else None)"

definition classify_tokens :: "string option \<Rightarrow> string option \<Rightarrow> string option \<Rightarrow> sql_statement_kind" where
  "classify_tokens a b c =
     (if a = Some ''SELECT'' then SkSelect
     else if a = Some ''INSERT'' then SkInsert
     else if a = Some ''UPDATE'' then SkUpdate
     else if a = Some ''DELETE'' then SkDelete
     else if a = Some ''CREATE'' \<and> b = Some ''TABLE'' then SkCreateTable
     else if a = Some ''CREATE'' \<and> b = Some ''VIEW'' then SkCreateView
     else if a = Some ''CREATE'' \<and> b = Some ''MATERIALIZED'' \<and> c = Some ''VIEW'' then SkCreateMaterializedView
     else if a = Some ''CREATE'' \<and> b = Some ''FUNCTION'' then SkCreateFunction
     else if a = Some ''CREATE'' \<and> b = Some ''TRIGGER'' then SkCreateTrigger
     else if a = Some ''CREATE'' \<and> b = Some ''EVENT'' then SkCreateEvent
     else if a = Some ''ALTER'' \<and> b = Some ''TABLE'' then SkAlterTable
     else if a = Some ''CREATE'' \<and> b = Some ''INDEX'' then SkCreateIndex
     else if a = Some ''CREATE'' \<and> b = Some ''UNIQUE'' then SkCreateIndex
     else if a = Some ''DROP'' \<and> b = Some ''INDEX'' then SkDropIndex
     else if a = Some ''DROP'' \<and> b = Some ''TABLE'' then SkDropTable
     else if a = Some ''DROP'' \<and> b = Some ''VIEW'' then SkDropView
     else if a = Some ''DROP'' \<and> b = Some ''FUNCTION'' then SkDropFunction
     else if a = Some ''DROP'' \<and> b = Some ''TRIGGER'' then SkDropTrigger
     else if a = Some ''DROP'' \<and> b = Some ''EVENT'' then SkDropEvent
     else if a = Some ''BEGIN'' then SkBegin
     else if a = Some ''COMMIT'' then SkCommit
     else if a = Some ''ROLLBACK'' \<and> b = Some ''TO'' then SkRollbackToSavepoint
     else if a = Some ''ROLLBACK'' then SkRollback
     else if a = Some ''SAVEPOINT'' then SkSavepoint
     else if a = Some ''RELEASE'' \<and> b = Some ''SAVEPOINT'' then SkReleaseSavepoint
     else if a = Some ''GRANT'' then SkGrant
     else if a = Some ''REVOKE'' then SkRevoke
     else if a = Some ''CREATE'' \<and> b = Some ''ROLE'' then SkCreateRole
     else if a = Some ''DROP'' \<and> b = Some ''ROLE'' then SkDropRole
     else if a = Some ''CREATE'' \<and> b = Some ''DATABASE'' then SkCreateDatabase
     else if a = Some ''DROP'' \<and> b = Some ''DATABASE'' then SkDropDatabase
     else if a = Some ''CREATE'' \<and> b = Some ''SCHEMA'' then SkCreateSchema
     else if a = Some ''DROP'' \<and> b = Some ''SCHEMA'' then SkDropSchema
     else SkUnknown)"

definition classify_statement :: "string \<Rightarrow> sql_statement_kind" where
  "classify_statement sql =
     (let tokens = split_whitespace (normalize_sql_for_match sql)
      in if tokens = [] then SkUnknown
         else classify_tokens (nth_opt tokens 0) (nth_opt tokens 1) (nth_opt tokens 2))"

definition parse_batch :: "string \<Rightarrow> sql_statement list" where
  "parse_batch batch =
     map (\<lambda>s. \<lparr>st_raw = s, st_kind = classify_statement s\<rparr>)
       (filter (\<lambda>s. normalize_sql_for_match s \<noteq> [])
         (filter (\<lambda>s. s \<noteq> []) (map trim (split_str '';'' batch))))"

definition requires_transaction_kinds :: "sql_statement_kind list" where
  "requires_transaction_kinds =
  [SkInsert, SkUpdate, SkDelete, SkCreateTable, SkCreateView, SkCreateMaterializedView,
   SkCreateFunction, SkCreateTrigger, SkCreateEvent, SkAlterTable, SkCreateIndex, SkDropIndex,
   SkDropTable, SkDropView, SkDropFunction, SkDropTrigger, SkDropEvent, SkGrant, SkRevoke,
   SkCreateRole, SkDropRole, SkCreateDatabase, SkDropDatabase, SkCreateSchema, SkDropSchema]"

definition touches_catalog_kinds :: "sql_statement_kind list" where
  "touches_catalog_kinds =
  [SkCreateTable, SkCreateView, SkCreateMaterializedView, SkCreateFunction, SkCreateTrigger,
   SkCreateEvent, SkAlterTable, SkCreateIndex, SkDropIndex, SkDropTable, SkDropView,
   SkDropFunction, SkDropTrigger, SkDropEvent, SkGrant, SkRevoke, SkCreateRole, SkDropRole,
   SkCreateDatabase, SkDropDatabase, SkCreateSchema, SkDropSchema]"

definition analyze_statement :: "string \<Rightarrow> analysis_result" where
  "analyze_statement sql =
     (let kind = classify_statement sql
      in \<lparr>an_kind = kind, an_requires_transaction = kind \<in> set requires_transaction_kinds,
          an_touches_catalog = kind \<in> set touches_catalog_kinds\<rparr>)"

section \<open>The function registry\<close>

datatype function_language = Builtin | Rust | JavaScript | Python

record registered_function =
  rf_name :: string
  rf_language :: function_language
  rf_deterministic :: bool
  rf_description :: string

type_synonym function_registry = "(string \<times> registered_function) list"

definition normalize_ident :: "string \<Rightarrow> string" where
  "normalize_ident v = to_lowercase (trim v)"

definition register :: "registered_function \<Rightarrow> function_registry \<Rightarrow> bool \<times> function_registry" where
  "register f reg =
     (let key = normalize_ident (rf_name f) in (map_of reg key = None, AList.update key f reg))"

definition registry_contains :: "function_registry \<Rightarrow> string \<Rightarrow> bool" where
  "registry_contains reg name = (map_of reg (normalize_ident name) \<noteq> None)"

definition registry_get :: "function_registry \<Rightarrow> string \<Rightarrow> registered_function option" where
  "registry_get reg name = map_of reg (normalize_ident name)"

definition registry_list :: "function_registry \<Rightarrow> registered_function list" where
  "registry_list reg = sort_key rf_name (map snd reg)"

definition builtin :: "string \<Rightarrow> bool \<Rightarrow> string \<Rightarrow> registered_function" where
  "builtin name det desc =
     \<lparr>rf_name = name, rf_language = Builtin, rf_deterministic = det, rf_description = desc\<rparr>"

definition builtin_function_catalog :: "registered_function list" where
  "builtin_function_catalog =
  [
    builtin ''COUNT'' True
      ''Returns the number of rows or non-NULL values'',
    builtin ''SUM'' True
      ''Returns the sum of a numeric expression'',
    builtin ''AVG'' True
      ''Returns the arithmetic mean of a numeric expression'',
    builtin ''MIN'' True
      ''Returns the minimum value'',
    builtin ''MAX'' True
      ''Returns the maximum value'',
    builtin ''STRING_AGG'' False
      ''Concatenates string values with a delimiter'',
    builtin ''ARRAY_AGG'' False
      ''Aggregates values into an array'',
    builtin ''JSON_AGG'' False
      ''Aggregates values into a JSON array'',
    builtin ''ANY_VALUE'' True
      ''Returns an arbitrary value from the group'',
    builtin ''APPROX_COUNT_DISTINCT'' True
      ''Returns an approximate distinct-count estimate'',
    builtin ''LISTAGG'' False
      ''Concatenates ordered string values with a delimiter'',
    builtin ''COALESCE'' True
      ''Returns the first non-NULL argument'',
    builtin ''NULLIF'' True
      ''Returns NULL if two arguments are equal'',
    builtin ''GREATEST'' True
      ''Returns the largest of the supplied values'',
    builtin ''LEAST'' True
      ''Returns the smallest of the supplied values'',
    builtin ''IFNULL'' True
      ''MySQL alias for COALESCE(x, y)'',
    builtin ''NVL'' True
      ''Oracle alias for COALESCE(x, y)'',
    builtin ''NVL2'' True
      ''Oracle conditional null-handling function'',
    builtin ''IFF'' True
      ''Snowflake conditional function'',
    builtin ''DECODE'' True
      ''Oracle conditional lookup function'',
    builtin ''ZEROIFNULL'' True
      ''Returns zero when input is NULL'',
    builtin ''NULLIFZERO'' True
      ''Returns NULL when input is zero'',
    builtin ''DATE_TRUNC'' True
      ''Truncates a timestamp to the specified precision'',
    builtin ''DATE_PART'' True
      ''Extracts a subfield from a date/time value'',
    builtin ''DATEDIFF'' True
      ''Returns the difference between two date/time values'',
    builtin ''DATEADD'' True
      ''Adds an interval to a date/time value'',
    builtin ''NOW'' False
      ''Returns the current date and time'',
    builtin ''CURRENT_TIMESTAMP'' False
      ''Returns the current date and time'',
    builtin ''CURRENT_DATE'' False
      ''Returns the current date'',
    builtin ''CURRENT_TIME'' False
      ''Returns the current time'',
    builtin ''TO_CHAR'' True
      ''Formats a value as text'',
    builtin ''TO_DATE'' True
      ''Converts a string to a date'',
    builtin ''TO_TIMESTAMP'' True
      ''Converts a string to a timestamp'',
    builtin ''TO_TIMESTAMP_NTZ'' True
      ''Converts a string to a timestamp without time zone'',
    builtin ''TO_TIMESTAMP_TZ'' True
      ''Converts a string to a timestamp with time zone'',
    builtin ''TO_NUMBER'' True
      ''Converts a value to a numeric type'',
    builtin ''TO_VARCHAR'' True
      ''Converts a value to a string'',
    builtin ''LOWER'' True
      ''Converts a string to lower case'',
    builtin ''UPPER'' True
      ''Converts a string to upper case'',
    builtin ''TRIM'' True
      ''Removes leading and trailing whitespace (or specified characters)'',
    builtin ''LTRIM'' True
      ''Removes leading whitespace or specified characters'',
    builtin ''RTRIM'' True
      ''Removes trailing whitespace or specified characters'',
    builtin ''SUBSTR'' True
      ''Extracts a substring'',
    builtin ''SUBSTRING'' True
      ''Extracts a substring (SQL-standard alias for SUBSTR)'',
    builtin ''INSTR'' True
      ''Returns the position of a substring inside a string'',
    builtin ''POSITION'' True
      ''Returns the position of a substring inside a string'',
    builtin ''LENGTH'' True
      ''Returns the length of a string'',
    builtin ''CONCAT'' True
      ''Concatenates strings'',
    builtin ''CONCAT_WS'' True
      ''Concatenates strings with a separator'',
    builtin ''REPLACE'' True
      ''Replaces occurrences of a substring'',
    builtin ''SPLIT_PART'' True
      ''Splits a string on a delimiter and returns the nth part'',
    builtin ''LPAD'' True
      ''Pads a string on the left to a given length'',
    builtin ''RPAD'' True
      ''Pads a string on the right to a given length'',
    builtin ''REVERSE'' True
      ''Reverses a string'',
    builtin ''REGEXP_MATCH'' True
      ''Matches a string against a regular expression'',
    builtin ''REGEXP_REPLACE'' True
      ''Replaces matches of a regular expression'',
    builtin ''REGEXP_SUBSTR'' True
      ''Extracts a substring using a regular expression'',
    builtin ''REGEXP_INSTR'' True
      ''Returns the position of a regex match'',
    builtin ''REGEXP_COUNT'' True
      ''Counts regex matches in a string'',
    builtin ''CAST'' True
      ''Converts a value to the specified data type'',
    builtin ''TRY_CAST'' True
      ''Converts a value; returns NULL instead of raising on failure'',
    builtin ''ABS'' True
      ''Absolute value'',
    builtin ''CEIL'' True
      ''Ceiling (smallest integer >= argument)'',
    builtin ''CEILING'' True
      ''Alias for CEIL'',
    builtin ''FLOOR'' True
      ''Floor (largest integer <= argument)'',
    builtin ''ROUND'' True
      ''Rounds to the nearest integer or given number of decimals'',
    builtin ''POWER'' True
      ''Raises a value to the given power'',
    builtin ''SQRT'' True
      ''Square root'',
    builtin ''MOD'' True
      ''Remainder of division'',
    builtin ''SIGN'' True
      ''Sign of a number (-1, 0, or 1)'',
    builtin ''JSON_EXTRACT'' True
      ''Extracts a value from a JSON document by path'',
    builtin ''JSON_OBJECT'' True
      ''Constructs a JSON object from key/value pairs'',
    builtin ''JSON_ARRAY'' True
      ''Constructs a JSON array'',
    builtin ''JSONB_EXTRACT_PATH'' True
      ''Extracts a sub-object from a JSONB value'',
    builtin ''OBJECT_CONSTRUCT'' True
      ''Constructs a Snowflake-style object'',
    builtin ''OBJECT_AGG'' False
      ''Aggregates key/value pairs into an object'',
    builtin ''ARRAY_CONSTRUCT'' True
      ''Constructs a Snowflake-style array'',
    builtin ''MAP_CONSTRUCT'' True
      ''Constructs a map from key/value arguments'',
    builtin ''ARRAY_TO_STRING'' True
      ''Concatenates array elements into a string'',
    builtin ''STRING_TO_ARRAY'' True
      ''Splits a string into an array'',
    builtin ''ROW_NUMBER'' True
      ''Assigns a sequential integer to each row in the partition'',
    builtin ''RANK'' True
      ''Assigns a rank with gaps for ties'',
    builtin ''DENSE_RANK'' True
      ''Assigns a rank without gaps for ties'',
    builtin ''LAG'' True
      ''Returns a value from a prior row in the partition'',
    builtin ''LEAD'' True
      ''Returns a value from a subsequent row in the partition'']"

definition with_builtins :: function_registry where
  "with_builtins = fold (\<lambda>f reg. snd (register f reg)) builtin_function_catalog []"

definition register_missing_builtins :: "function_registry \<Rightarrow> function_registry" where
  "register_missing_builtins reg =
     fold (\<lambda>f reg. if registry_contains reg (rf_name f) then reg else snd (register f reg))
       builtin_function_catalog reg"

section \<open>Letter case\<close>

lemma ascii_upper_code:
  assumes "97 \<le> (of_char c :: nat) \<and> (of_char c :: nat) \<le> 122"
  shows "(of_char (ascii_upper c) :: nat) = of_char c - 32"
proof -
  have "(of_char c :: nat) - 32 < 256" using assms by linarith
  then show ?thesis using assms by (simp add: ascii_upper_def Let_def)
qed

lemma ascii_upper_ascii_upper [simp]: "ascii_upper (ascii_upper c) = ascii_upper c"
proof (cases "97 \<le> (of_char c :: nat) \<and> (of_char c :: nat) \<le> 122")
  case True
  with ascii_upper_code [OF True] have "\<not> 97 \<le> (of_char (ascii_upper c) :: nat)" by linarith
  then show ?thesis by (subst ascii_upper_def) (simp add: Let_def)
next
  case False
  then show ?thesis by (auto simp: ascii_upper_def Let_def)
qed

lemma to_uppercase_idem [simp]: "to_uppercase (to_uppercase s) = to_uppercase s"
  by (simp add: to_uppercase_def)

text \<open>
  Characters outside the lower-case letters are what they were before the mapping, and only they
  map to them.
\<close>

lemma ascii_upper_eq_iff:
  assumes "\<not> (65 \<le> (of_char d :: nat) \<and> (of_char d :: nat) \<le> 90)"
    and "\<not> (97 \<le> (of_char d :: nat) \<and> (of_char d :: nat) \<le> 122)"
  shows "ascii_upper c = d \<longleftrightarrow> c = d"
proof
  assume e: "ascii_upper c = d"
  show "c = d"
  proof (cases "97 \<le> (of_char c :: nat) \<and> (of_char c :: nat) \<le> 122")
    case True
    from ascii_upper_code [OF this] e have "(of_char d :: nat) = of_char c - 32" by simp
    with assms(1) True have False by linarith
    then show ?thesis ..
  next
    case False
    with e show ?thesis by (auto simp: ascii_upper_def Let_def split: if_splits)
  qed
next
  assume "c = d"
  with assms(2) show "ascii_upper c = d" by (auto simp: ascii_upper_def Let_def)
qed

lemma is_whitespace_upper [simp]: "is_whitespace (ascii_upper c) = is_whitespace c"
proof (cases "97 \<le> (of_char c :: nat) \<and> (of_char c :: nat) \<le> 122")
  case True
  with ascii_upper_code [OF True] have "\<not> (of_char (ascii_upper c) :: nat) \<le> 32" "\<not> (of_char c :: nat) \<le> 32" by linarith+
  then show ?thesis by (auto simp: is_whitespace_def)
next
  case False
  then show ?thesis by (auto simp: ascii_upper_def Let_def)
qed

lemma upper_special [simp]:
  "ascii_upper c = CHR ''-'' \<longleftrightarrow> c = CHR ''-''" "ascii_upper c = newline \<longleftrightarrow> c = newline"
  "ascii_upper c = carriage_return \<longleftrightarrow> c = carriage_return"
  "ascii_upper c = CHR 0xEF \<longleftrightarrow> c = CHR 0xEF" "ascii_upper c = CHR 0xBB \<longleftrightarrow> c = CHR 0xBB"
  "ascii_upper c = CHR 0xBF \<longleftrightarrow> c = CHR 0xBF"
  by (rule ascii_upper_eq_iff; simp)+

lemma trim_upper: "trim (to_uppercase s) = to_uppercase (trim s)"
  by (simp add: trim_def trim_start_def to_uppercase_def dropWhile_map rev_map comp_def)

lemma trim_bom_upper: "trim_bom (to_uppercase s) = to_uppercase (trim_bom s)"
  by (induction s rule: trim_bom.induct) (auto simp: to_uppercase_def bom_def)

lemma before_comment_upper: "before_comment (to_uppercase s) = to_uppercase (before_comment s)"
  by (induction s rule: before_comment.induct) (auto simp: to_uppercase_def)

lemma strip_cr_upper: "strip_cr (to_uppercase s) = to_uppercase (strip_cr s)"
  by (auto simp: strip_cr_def to_uppercase_def last_map map_butlast)

lemma buf_lines_upper: "buf_lines (to_uppercase s) = map to_uppercase (buf_lines s)"
proof (induction s rule: buf_lines.induct)
  case (1 s)
  show ?case
  proof (cases "s = []")
    case True
    then show ?thesis by (simp add: to_uppercase_def)
  next
    case False
    have d: "dropWhile (\<lambda>x. x \<noteq> newline) (to_uppercase s) = to_uppercase (dropWhile (\<lambda>x. x \<noteq> newline) s)"
      "takeWhile (\<lambda>x. x \<noteq> newline) (to_uppercase s) = to_uppercase (takeWhile (\<lambda>x. x \<noteq> newline) s)"
      by (simp_all add: to_uppercase_def dropWhile_map takeWhile_map comp_def)
    show ?thesis
    proof (cases "dropWhile (\<lambda>x. x \<noteq> newline) s")
      case Nil
      show ?thesis
        unfolding buf_lines.simps [of "to_uppercase s"] buf_lines.simps [of s] d Nil
        using False by (simp add: to_uppercase_def)
    next
      case (Cons c rest)
      have "to_uppercase (dropWhile (\<lambda>x. x \<noteq> newline) s) = ascii_upper c # to_uppercase rest"
        unfolding Cons by (simp add: to_uppercase_def)
      moreover have "to_uppercase s \<noteq> []" using False by (simp add: to_uppercase_def)
      ultimately show ?thesis
        unfolding buf_lines.simps [of "to_uppercase s"] buf_lines.simps [of s] d strip_cr_upper
        using False 1 [OF False Cons] by (simp add: Cons)
    qed
  qed
qed

lemma to_uppercase_simps [simp]:
  "to_uppercase [] = []" "to_uppercase (a @ b) = to_uppercase a @ to_uppercase b"
  "to_uppercase '' '' = '' ''" "to_uppercase s = [] \<longleftrightarrow> s = []"
  by (simp_all add: to_uppercase_def ascii_upper_def)

lemma normalize_line_upper: "normalize_line (to_uppercase l) = to_uppercase (normalize_line l)"
  unfolding normalize_line_def before_comment_upper trim_upper Let_def
  by (cases "trim (before_comment l) = []") simp_all

lemma normalize_upper: "normalize_sql_for_match (to_uppercase s) = normalize_sql_for_match s"
proof -
  have "concat (map normalize_line (map to_uppercase ls)) = to_uppercase (concat (map normalize_line ls))" for ls
    by (induction ls) (simp_all add: normalize_line_upper)
  then show ?thesis
    unfolding normalize_sql_for_match_def trim_bom_upper trim_upper buf_lines_upper
    by (simp only: trim_upper to_uppercase_idem)
qed

section \<open>Properties\<close>

text \<open>
  Classification ignores letter case, and a batch comes apart as it was put together: joining
  statements that are trimmed, free of semicolons and not only comments by semicolons and parsing the
  batch gives back exactly these statements, in order, each with its own classification.
\<close>

theorem sql_parse_batch_roundtrip:
  assumes "statements \<noteq> []"
    and "\<forall>s\<in>set statements. trim s = s \<and> CHR '';'' \<notin> set s \<and> normalize_sql_for_match s \<noteq> []"
  shows "parse_batch (join '';'' statements) =
      map (\<lambda>s. \<lparr>st_raw = s, st_kind = classify_statement s\<rparr>) statements \<and>
    (\<forall>s\<in>set statements. classify_statement (to_uppercase s) = classify_statement s)"
proof
  have safe: "\<forall>s\<in>set statements. sep_safe '';'' s"
  proof
    fix s assume "s \<in> set statements"
    with assms(2) have no: "CHR '';'' \<notin> set s" by blast
    have "\<not> starts_with (drop i s @ '';'') '';''" if "i < length s" for i
    proof -
      from that have "drop i s = s ! i # drop (Suc i) s" by (rule Cons_nth_drop_Suc [symmetric])
      moreover have "s ! i \<noteq> CHR '';''" using no that by (metis nth_mem)
      ultimately show ?thesis by (simp add: starts_with_def)
    qed
    then show "sep_safe '';'' s" by (simp add: sep_safe_def)
  qed
  have "map trim statements = statements" using assms(2) by (simp add: map_idI)
  moreover have "filter (\<lambda>s. s \<noteq> []) statements = statements"
    using assms(2) by (auto intro!: filter_True simp: normalize_sql_for_match_def trim_def trim_start_def)
  moreover have "filter (\<lambda>s. normalize_sql_for_match s \<noteq> []) statements = statements"
    using assms(2) by (auto intro!: filter_True)
  ultimately show "parse_batch (join '';'' statements) =
      map (\<lambda>s. \<lparr>st_raw = s, st_kind = classify_statement s\<rparr>) statements"
    using split_str_join [OF _ assms(1) safe] by (simp add: parse_batch_def)
qed (simp add: classify_statement_def normalize_upper)

theorem sql_parse_batch_roundtrip_witness:
  "parse_batch (join '';'' [''BEGIN'', ''Commit'']) =
     [\<lparr>st_raw = ''BEGIN'', st_kind = SkBegin\<rparr>, \<lparr>st_raw = ''Commit'', st_kind = SkCommit\<rparr>]"
proof -
  have "trim ''BEGIN'' = ''BEGIN''" "trim ''Commit'' = ''Commit''"
    "normalize_sql_for_match ''BEGIN'' = ''BEGIN''" "normalize_sql_for_match ''Commit'' = ''COMMIT''"
    "classify_statement ''BEGIN'' = SkBegin" "classify_statement ''Commit'' = SkCommit" by code_simp+
  with sql_parse_batch_roundtrip [of "[''BEGIN'', ''Commit'']"] show ?thesis by simp
qed

text \<open>A semicolon inside a string literal splits the statement.\<close>

lemma sql_batch_splits_literals:
  "map st_raw (parse_batch ''SELECT 'a;b' x'') = [''SELECT 'a'', ''b' x'']"
  by code_simp

text \<open>The registry as a map on normalised names.\<close>

lemma registry_get_register:
  "registry_get (snd (register f reg)) name =
     (if normalize_ident name = normalize_ident (rf_name f) then Some f else registry_get reg name)"
  by (simp add: registry_get_def register_def Let_def)

lemma missing_builtins_step:
  "registry_get (fold (\<lambda>f reg. if registry_contains reg (rf_name f) then reg else snd (register f reg)) fs reg) name =
     (case registry_get reg name of
        Some f \<Rightarrow> Some f
      | None \<Rightarrow> find (\<lambda>f. normalize_ident (rf_name f) = normalize_ident name) fs)"
proof (induction fs arbitrary: reg)
  case Nil
  then show ?case by (simp split: option.split)
next
  case (Cons f fs)
  show ?case
  proof (cases "registry_contains reg (rf_name f)")
    case True
    then show ?thesis
      using Cons by (auto simp: registry_contains_def registry_get_def split: option.splits)
  next
    case False
    then show ?thesis
      by (auto simp: Cons registry_get_register)
        (auto simp: registry_contains_def registry_get_def split: option.splits)
  qed
qed

text \<open>
  Seeding the built-ins is safe. It never replaces a function that is already registered under
  the same name (up to letter case and surrounding blanks), and afterwards every built-in name
  resolves, to the registered function or to the built-in of that name.
\<close>

theorem sql_missing_builtins:
  "registry_get (register_missing_builtins reg) name =
     (case registry_get reg name of
        Some f \<Rightarrow> Some f
      | None \<Rightarrow> find (\<lambda>f. normalize_ident (rf_name f) = normalize_ident name) builtin_function_catalog) \<and>
   list_all (\<lambda>f. registry_contains (register_missing_builtins reg) (rf_name f)) builtin_function_catalog"
proof
  show get: "registry_get (register_missing_builtins reg) name =
     (case registry_get reg name of
        Some f \<Rightarrow> Some f
      | None \<Rightarrow> find (\<lambda>f. normalize_ident (rf_name f) = normalize_ident name) builtin_function_catalog)" for name
    unfolding register_missing_builtins_def by (rule missing_builtins_step)
  have "registry_contains (register_missing_builtins reg) (rf_name f)"
    if "f \<in> set builtin_function_catalog" for f
  proof -
    have "find (\<lambda>g. normalize_ident (rf_name g) = normalize_ident (rf_name f)) builtin_function_catalog \<noteq> None"
      using that by (auto simp: find_None_iff)
    with get [of "rf_name f"] show ?thesis
      unfolding registry_contains_def registry_get_def [symmetric] by (auto split: option.splits)
  qed
  then show "list_all (\<lambda>f. registry_contains (register_missing_builtins reg) (rf_name f)) builtin_function_catalog"
    by (simp add: list_all_iff del: set_simps)
qed

end
