(* ===== verification/Tokenizer.thy ===== *)
theory Tokenizer
  imports Sql_Analyzer
begin

text \<open>
  The SQL tokenizer of \<^verbatim>\<open>voltnuerongrid-sql/src/tokenizer.rs\<close>. The position in the character vector is
  the rest of the text that is still to be read; letters and digits are the ASCII ones. One round of
  the loop is \<open>lex_step\<close>, which takes one token off the front.
\<close>

section \<open>Tokens\<close>

datatype token =
    Keyword string
  | Identifier string
  | Number string
  | StringLiteral string
  | Symbol string
  | Whitespace
  | LineComment string
  | BlockComment string
  | Unknown string

definition sql_keywords :: "string list" where
  "sql_keywords =
   [''SELECT'', ''FROM'', ''WHERE'', ''JOIN'', ''INNER'', ''LEFT'', ''RIGHT'', ''FULL'', ''OUTER'',
    ''CROSS'', ''ON'', ''AS'', ''GROUP'', ''BY'', ''ORDER'', ''HAVING'', ''LIMIT'', ''OFFSET'',
    ''UNION'', ''ALL'', ''DISTINCT'', ''EXISTS'', ''NOT'', ''IN'', ''BETWEEN'', ''LIKE'', ''IS'',
    ''NULL'', ''AND'', ''OR'', ''CASE'', ''WHEN'', ''THEN'', ''ELSE'', ''END'', ''OVER'',
    ''PARTITION'', ''ROWS'', ''RANGE'', ''UNBOUNDED'', ''PRECEDING'', ''FOLLOWING'', ''CURRENT'',
    ''INSERT'', ''INTO'', ''VALUES'', ''UPDATE'', ''SET'', ''DELETE'', ''CREATE'', ''TABLE'',
    ''VIEW'', ''MATERIALIZED'', ''FUNCTION'', ''DROP'', ''ALTER'', ''ADD'', ''COLUMN'',
    ''PRIMARY'', ''KEY'', ''FOREIGN'', ''REFERENCES'', ''UNIQUE'', ''INDEX'', ''DEFAULT'',
    ''BEGIN'', ''COMMIT'', ''ROLLBACK'', ''SAVEPOINT'', ''RELEASE'', ''TRANSACTION'',
    ''ISOLATION'', ''LEVEL'', ''READ'', ''WRITE'', ''SERIALIZABLE'', ''REPEATABLE'',
    ''UNCOMMITTED'', ''COMMITTED'', ''TRUE'', ''FALSE'', ''ASC'', ''DESC'', ''NULLS'', ''FIRST'',
    ''LAST'', ''WITH'', ''RECURSIVE'', ''WINDOW'', ''FILTER'', ''WITHIN'', ''ROW'', ''SUM'',
    ''COUNT'', ''AVG'', ''MIN'', ''MAX'', ''COALESCE'', ''CAST'', ''EXTRACT'', ''TRIM'', ''UPPER'',
    ''LOWER'', ''SUBSTRING'', ''REPLACE'', ''CONCAT'', ''CONCAT_WS'', ''LENGTH'', ''ROUND'',
    ''FLOOR'', ''CEIL'', ''ABS'', ''NOW'', ''CURRENT_TIMESTAMP'', ''CURRENT_DATE'',
    ''CURRENT_TIME'', ''IFNULL'', ''NVL'', ''NVL2'', ''IFF'', ''DECODE'', ''ZEROIFNULL'',
    ''NULLIFZERO'', ''DATEDIFF'', ''DATEADD'', ''TO_CHAR'', ''TO_DATE'', ''TO_TIMESTAMP'',
    ''TO_TIMESTAMP_NTZ'', ''TO_TIMESTAMP_TZ'', ''TO_NUMBER'', ''TO_VARCHAR'', ''INSTR'',
    ''POSITION'', ''LISTAGG'', ''ANY_VALUE'', ''APPROX_COUNT_DISTINCT'', ''ARRAY_CONSTRUCT'',
    ''OBJECT_CONSTRUCT'', ''OBJECT_AGG'', ''MAP_CONSTRUCT'', ''ARRAY_TO_STRING'',
    ''STRING_TO_ARRAY'', ''REGEXP_SUBSTR'', ''REGEXP_INSTR'', ''REGEXP_COUNT'', ''IF'',
    ''TRUNCATE'', ''EXPLAIN'', ''ANALYZE'', ''SCHEMA'', ''DATABASE'']"

definition is_keyword :: "string \<Rightarrow> bool" where
  "is_keyword w = (w \<in> set sql_keywords)"

fun token_display :: "token \<Rightarrow> string" where
  "token_display (Keyword k) = k"
| "token_display (Identifier i) = i"
| "token_display (Number n) = n"
| "token_display (StringLiteral s) = [CHR 0x27] @ s @ [CHR 0x27]"
| "token_display (Symbol s) = s"
| "token_display Whitespace = '' ''"
| "token_display (LineComment c) = ''--'' @ c"
| "token_display (BlockComment c) = ''/*'' @ c @ ''*/''"
| "token_display (Unknown u) = u"

fun is_semantic :: "token \<Rightarrow> bool" where
  "is_semantic Whitespace = False"
| "is_semantic (LineComment c) = False"
| "is_semantic (BlockComment c) = False"
| "is_semantic _ = True"

fun token_keyword :: "token \<Rightarrow> string option" where
  "token_keyword (Keyword k) = Some k"
| "token_keyword _ = None"

section \<open>Scanning\<close>

abbreviation quote :: char where "quote \<equiv> CHR 0x27"
abbreviation dquote :: char where "dquote \<equiv> CHR 0x22"
abbreviation backtick :: char where "backtick \<equiv> CHR 0x60"

definition is_digit :: "char \<Rightarrow> bool" where
  "is_digit c = (48 \<le> (of_char c :: nat) \<and> (of_char c :: nat) \<le> 57)"

definition is_alpha :: "char \<Rightarrow> bool" where
  "is_alpha c = (65 \<le> (of_char c :: nat) \<and> (of_char c :: nat) \<le> 90 \<or>
                 97 \<le> (of_char c :: nat) \<and> (of_char c :: nat) \<le> 122)"

definition is_word_char :: "char \<Rightarrow> bool" where
  "is_word_char c = (is_alpha c \<or> is_digit c \<or> c = CHR ''_'')"

lemma is_digit_bits [code]:
  "is_digit (Char b0 b1 b2 b3 b4 b5 b6 b7) \<longleftrightarrow> \<not> b7 \<and> \<not> b6 \<and> b5 \<and> b4 \<and> \<not> (b3 \<and> (b2 \<or> b1))"
  by (cases b0; cases b1; cases b2; cases b3; cases b4; cases b5; cases b6; cases b7)
    (simp_all add: is_digit_def)

lemma is_alpha_bits [code]:
  "is_alpha (Char b0 b1 b2 b3 b4 b5 b6 b7) \<longleftrightarrow>
     \<not> b7 \<and> b6 \<and> (b0 \<or> b1 \<or> b2 \<or> b3 \<or> b4) \<and> \<not> (b4 \<and> b3 \<and> (b2 \<or> b1 \<and> b0))"
  by (cases b0; cases b1; cases b2; cases b3; cases b4; cases b5; cases b6; cases b7)
    (simp_all add: is_alpha_def)

text \<open>The body of a block comment and what follows it; without a terminator the last character stays.\<close>

fun scan_block :: "string \<Rightarrow> string \<times> string" where
  "scan_block (a # b # s) =
     (if a = CHR ''*'' \<and> b = CHR ''/'' then ([], s)
      else let (t, rest) = scan_block (b # s) in (a # t, rest))"
| "scan_block s = ([], s)"

text \<open>A string literal after its opening quote, with doubled quotes unescaped.\<close>

fun scan_string :: "string \<Rightarrow> string \<times> string" where
  "scan_string [] = ([], [])"
| "scan_string (c # s) =
     (if c = quote then
        (case s of
           d # s' \<Rightarrow> if d = quote then (let (t, rest) = scan_string s' in (quote # t, rest)) else ([], s)
         | [] \<Rightarrow> ([], s))
      else let (t, rest) = scan_string s in (c # t, rest))"

definition scan_quoted :: "char \<Rightarrow> string \<Rightarrow> string \<times> string" where
  "scan_quoted q s = (takeWhile (\<lambda>c. c \<noteq> q) s, drop 1 (dropWhile (\<lambda>c. c \<noteq> q) s))"

definition is_num_char :: "char \<Rightarrow> bool" where
  "is_num_char c = (is_digit c \<or> c = CHR ''.'')"

text \<open>The exponent after the mantissa: \<^verbatim>\<open>e\<close> or \<^verbatim>\<open>E\<close>, a sign, digits.\<close>

definition scan_exponent :: "string \<Rightarrow> string \<times> string" where
  "scan_exponent s =
     (case s of
        e # s1 \<Rightarrow>
          if e = CHR ''e'' \<or> e = CHR ''E'' then
            (let (sign, s2) = (case s1 of g # s' \<Rightarrow> if g = CHR ''+'' \<or> g = CHR ''-'' then ([g], s') else ([], s1)
                                        | [] \<Rightarrow> ([], s1))
             in (e # sign @ takeWhile is_digit s2, dropWhile is_digit s2))
          else ([], s)
      | [] \<Rightarrow> ([], s))"

definition scan_number :: "string \<Rightarrow> string \<times> string" where
  "scan_number s =
     (let (exponent, rest) = scan_exponent (dropWhile is_num_char s)
      in (takeWhile is_num_char s @ exponent, rest))"

definition two_char_symbols :: "string list" where
  "two_char_symbols = [''<>'', ''>='', ''<='', ''!='', ''::'', ''->'', ''->>'', ''||'']"

definition one_char_symbols :: string where
  "one_char_symbols = ''()[]{}.,;*+-/%^=<>|&~?@#!:'' @ [CHR 0x5C]"

definition word_token :: "string \<Rightarrow> token" where
  "word_token w = (let upper = to_uppercase w in if is_keyword upper then Keyword upper else Identifier w)"

fun lex_step :: "string \<Rightarrow> token \<times> string" where
  "lex_step [] = (Unknown [], [])"
| "lex_step (ch # s) =
     (if is_ascii_whitespace ch then (Whitespace, dropWhile is_ascii_whitespace s)
      else if ch = CHR ''-'' \<and> s \<noteq> [] \<and> hd s = CHR ''-'' then
        (LineComment (takeWhile (\<lambda>c. c \<noteq> newline) (tl s)), dropWhile (\<lambda>c. c \<noteq> newline) (tl s))
      else if ch = CHR ''/'' \<and> s \<noteq> [] \<and> hd s = CHR ''*'' then
        (let (t, rest) = scan_block (tl s) in (BlockComment t, rest))
      else if ch = quote then (let (t, rest) = scan_string s in (StringLiteral t, rest))
      else if ch = dquote then (let (t, rest) = scan_quoted dquote s in (Identifier t, rest))
      else if ch = backtick then (let (t, rest) = scan_quoted backtick s in (Identifier t, rest))
      else if is_digit ch \<or> ch = CHR ''.'' \<and> s \<noteq> [] \<and> is_digit (hd s) then
        (let (t, rest) = scan_number (ch # s) in (Number t, rest))
      else if is_alpha ch \<or> ch = CHR ''_'' then
        (word_token (takeWhile is_word_char (ch # s)), dropWhile is_word_char (ch # s))
      else if s \<noteq> [] \<and> [ch, hd s] \<in> set two_char_symbols then (Symbol [ch, hd s], tl s)
      else if ch \<in> set one_char_symbols then (Symbol [ch], s)
      else (Unknown [ch], s))"

declare lex_step.simps(2) [simp del]

lemma scan_block_length: "length (snd (scan_block s)) \<le> length s"
proof (induction s rule: scan_block.induct)
  case (1 a b s)
  show ?case
  proof (cases "a = CHR ''*'' \<and> b = CHR ''/''")
    case False
    from 1 [OF False] show ?thesis using False by (simp add: split_beta Let_def)
  qed simp
qed simp_all

lemma scan_string_length: "length (snd (scan_string s)) \<le> length s"
proof (induction "length s" arbitrary: s rule: less_induct)
  case less
  show ?case
  proof (cases s)
    case (Cons c s')
    show ?thesis
    proof (cases s')
      case Nil
      then show ?thesis using Cons by simp
    next
      case (Cons d s'')
      have "length (snd (scan_string s')) \<le> length s'" "length (snd (scan_string s'')) \<le> length s''"
        using less [of s'] less [of s''] Cons \<open>s = c # s'\<close> by simp_all
      then show ?thesis using Cons \<open>s = c # s'\<close> by (simp add: split_beta Let_def)
    qed
  qed simp
qed

lemma scan_exponent_length: "length (snd (scan_exponent s)) \<le> length s"
proof (cases s)
  case (Cons e s1)
  have d: "length (dropWhile is_digit t) \<le> length t" for t by (rule length_dropWhile_le)
  show ?thesis
  proof (cases s1)
    case Nil
    then show ?thesis using Cons by (simp add: scan_exponent_def)
  next
    case (Cons g s')
    then show ?thesis
      using \<open>s = e # s1\<close> d [of s1] d [of s'] by (simp add: scan_exponent_def Let_def del: dropWhile.simps)
  qed
qed (simp add: scan_exponent_def)

lemma lex_step_shorter: "length (snd (lex_step (c # s))) \<le> length s"
proof -
  have dw: "length (dropWhile P s) \<le> length s" "length (dropWhile P (tl s)) \<le> length s" for P
    using length_dropWhile_le [of P s] length_dropWhile_le [of P "tl s"] by (simp_all add: le_diff_conv)
  have num: "length (snd (scan_number (c # s))) \<le> length s" if "is_num_char c"
    using that scan_exponent_length [of "dropWhile is_num_char s"] dw(1) [of is_num_char]
    by (simp add: scan_number_def split_beta Let_def)
  have numc: "is_digit c \<Longrightarrow> is_num_char c" "c = CHR ''.'' \<Longrightarrow> is_num_char c"
    by (simp_all add: is_num_char_def)
  have numd: "is_digit c \<or> c = CHR ''.'' \<and> s \<noteq> [] \<and> is_digit (hd s) \<Longrightarrow> length (snd (scan_number (c # s))) \<le> length s"
    using num numc by metis
  have word: "length (dropWhile is_word_char (c # s)) \<le> length s" if "is_alpha c \<or> c = CHR ''_''"
  proof -
    from that have "is_word_char c" by (auto simp: is_word_char_def)
    then show ?thesis using dw(1) [of is_word_char] by simp
  qed
  have q: "length (snd (scan_quoted d s)) \<le> length s" for d
    using dw(1) [of "\<lambda>c. c \<noteq> d"] by (simp add: scan_quoted_def)
  have b: "length (snd (scan_block (tl s))) \<le> length s"
    using scan_block_length [of "tl s"] by (simp add: le_diff_conv)
  have t: "length (tl s) \<le> length s" by simp
  have if_le: "(P \<Longrightarrow> a \<le> n) \<Longrightarrow> (\<not> P \<Longrightarrow> b \<le> n) \<Longrightarrow> (if P then a else b) \<le> n" for P and a b n :: nat
    by simp
  show ?thesis
    unfolding lex_step.simps split_beta Let_def if_distrib [of snd] snd_conv if_distrib [of length]
    by (intro if_le) (rule dw q b t scan_string_length order_refl | erule numd | erule word)+
qed

function tokenize :: "string \<Rightarrow> token list" where
  "tokenize [] = []"
| "tokenize (c # s) = fst (lex_step (c # s)) # tokenize (snd (lex_step (c # s)))"
  by pat_completeness auto
termination
  by (relation "measure length") (auto simp: le_imp_less_Suc lex_step_shorter)

declare tokenize.simps(2) [simp del]

definition semantic_tokens :: "string \<Rightarrow> token list" where
  "semantic_tokens sql = filter is_semantic (tokenize sql)"

definition keyword_count :: "string \<Rightarrow> nat" where
  "keyword_count sql = length (filter (\<lambda>t. token_keyword t \<noteq> None) (tokenize sql))"

section \<open>Canonical text\<close>

text \<open>
  A text for each semantic token: string literals with doubled quotes, identifiers in double quotes,
  the rest as displayed. The canonical tokens are the ones such a text can stand for.
\<close>

definition quote_string :: "string \<Rightarrow> string" where
  "quote_string s = quote # replace_char quote [quote, quote] s @ [quote]"

fun token_text :: "token \<Rightarrow> string" where
  "token_text (StringLiteral s) = quote_string s"
| "token_text (Identifier i) = dquote # i @ [dquote]"
| "token_text t = token_display t"

fun canonical :: "token \<Rightarrow> bool" where
  "canonical (Keyword k) = is_keyword k"
| "canonical (Identifier i) = (dquote \<notin> set i)"
| "canonical (Number n) = (n \<noteq> [] \<and> list_all is_digit n)"
| "canonical (StringLiteral s) = True"
| "canonical (Symbol s) = (s \<in> set [''<>'', ''>='', ''<='', ''!='', ''::'', ''->'', ''||''] \<or>
     (\<exists>c. s = [c] \<and> c \<in> set one_char_symbols))"
| "canonical _ = False"

lemma scan_string_quote:
  "rest = [] \<or> hd rest \<noteq> quote \<Longrightarrow>
     scan_string (replace_char quote [quote, quote] s @ quote # rest) = (s, rest)"
  by (induction s) (auto simp: replace_char_def split: list.splits)

lemma lex_quote_string:
  assumes "rest = [] \<or> hd rest \<noteq> quote"
  shows "lex_step (quote_string s @ rest) = (StringLiteral s, rest)"
proof -
  have "\<not> is_ascii_whitespace quote" by (simp add: is_ascii_whitespace_def)
  then show ?thesis
    using scan_string_quote [OF assms, of s] by (simp add: quote_string_def lex_step.simps)
qed

lemma tokenize_step: "s \<noteq> [] \<Longrightarrow> tokenize s = fst (lex_step s) # tokenize (snd (lex_step s))"
  by (cases s) (simp_all add: tokenize.simps)

text \<open>Facts on the keyword table that are checked entry by entry.\<close>

lemma keyword_words:
  "list_all (\<lambda>k. k \<noteq> [] \<and> is_alpha (hd k) \<and> list_all is_word_char k \<and> to_uppercase k = k) sql_keywords"
  unfolding sql_keywords_def by code_simp

lemma is_keyword_word:
  assumes "is_keyword k"
  shows "k \<noteq> []" "is_alpha (hd k)" "list_all is_word_char k" "to_uppercase k = k"
  using keyword_words assms unfolding is_keyword_def list_all_iff by blast+

lemma alpha_not_special:
  assumes "is_alpha c"
  shows "\<not> is_ascii_whitespace c" "c \<noteq> CHR ''-''" "c \<noteq> CHR ''/''" "c \<noteq> quote" "c \<noteq> dquote"
    "c \<noteq> backtick" "\<not> is_digit c" "c \<noteq> CHR ''.''"
  using assms by (auto simp: is_alpha_def is_ascii_whitespace_def is_digit_def)

lemma digit_not_special:
  assumes "is_digit c"
  shows "\<not> is_ascii_whitespace c" "c \<noteq> CHR ''-''" "c \<noteq> CHR ''/''" "c \<noteq> quote" "c \<noteq> dquote"
    "c \<noteq> backtick"
  using assms by (auto simp: is_ascii_whitespace_def is_digit_def)

lemma takeWhile_blank:
  assumes "list_all P w" and "\<not> P CHR '' ''"
  shows "takeWhile P (w @ CHR '' '' # rest) = w" "dropWhile P (w @ CHR '' '' # rest) = CHR '' '' # rest"
  using assms by (induction w) auto

lemma lex_keyword:
  assumes "is_keyword k"
  shows "lex_step (k @ CHR '' '' # rest) = (Keyword k, CHR '' '' # rest)"
proof -
  note k = is_keyword_word [OF assms]
  then obtain c w where cw: "k = c # w" "is_alpha c" by (cases k) auto
  have "\<not> is_word_char CHR '' ''" by (simp add: is_word_char_def is_alpha_def is_digit_def)
  note tw = takeWhile_blank [OF k(3) this]
  show ?thesis
    using alpha_not_special [OF cw(2)] cw tw assms k(4)
    by (simp add: lex_step.simps word_token_def Let_def)
qed

lemma lex_number:
  assumes "n \<noteq> []" and "list_all is_digit n"
  shows "lex_step (n @ CHR '' '' # rest) = (Number n, CHR '' '' # rest)"
proof -
  from assms obtain c w where cw: "n = c # w" "is_digit c" by (cases n) auto
  have "\<not> is_num_char CHR '' ''" by (simp add: is_num_char_def is_digit_def)
  moreover have "list_all is_num_char n" using assms(2) by (auto simp: list_all_iff is_num_char_def)
  ultimately have tw: "takeWhile is_num_char (n @ CHR '' '' # rest) = n"
    "dropWhile is_num_char (n @ CHR '' '' # rest) = CHR '' '' # rest"
    using takeWhile_blank by blast+
  have "scan_number (n @ CHR '' '' # rest) = (n, CHR '' '' # rest)"
    unfolding scan_number_def tw by (simp add: scan_exponent_def)
  then show ?thesis
    using digit_not_special [OF cw(2)] cw by (simp add: lex_step.simps)
qed

lemma lex_identifier:
  assumes "dquote \<notin> set i"
  shows "lex_step (dquote # i @ dquote # rest) = (Identifier i, rest)"
proof -
  have "\<not> is_ascii_whitespace dquote" by (simp add: is_ascii_whitespace_def)
  then show ?thesis
    using assms by (simp add: lex_step.simps scan_quoted_def)
qed

lemmas lex_symbol_simps =
  lex_step.simps is_ascii_whitespace_def is_digit_def is_alpha_def two_char_symbols_def

lemma lex_symbol2:
  assumes "s \<in> set [''<>'', ''>='', ''<='', ''!='', ''::'', ''->'', ''||'']"
  shows "lex_step (s @ CHR '' '' # rest) = (Symbol s, CHR '' '' # rest)"
proof -
  have "s = ''<>'' \<or> s = ''>='' \<or> s = ''<='' \<or> s = ''!='' \<or> s = ''::'' \<or> s = ''->'' \<or> s = ''||''"
    using assms by simp
  then show ?thesis by (elim disjE) (simp_all add: lex_symbol_simps)
qed

lemma symbol_not_special:
  "list_all (\<lambda>c. \<not> is_ascii_whitespace c \<and> c \<noteq> quote \<and> c \<noteq> dquote \<and> c \<noteq> backtick \<and> \<not> is_digit c \<and>
     \<not> is_alpha c \<and> c \<noteq> CHR ''_'') one_char_symbols"
  by code_simp

lemma lex_symbol1:
  assumes "c \<in> set one_char_symbols"
  shows "lex_step (c # CHR '' '' # rest) = (Symbol [c], CHR '' '' # rest)"
proof -
  have c: "\<not> is_ascii_whitespace c" "c \<noteq> quote" "c \<noteq> dquote" "c \<noteq> backtick" "\<not> is_digit c" "\<not> is_alpha c"
    "c \<noteq> CHR ''_''"
    using symbol_not_special assms unfolding list_all_iff by blast+
  have "\<not> is_digit CHR '' ''" "[c, CHR '' ''] \<notin> set two_char_symbols"
    by (simp_all add: is_digit_def two_char_symbols_def)
  with c assms show ?thesis by (simp add: lex_step.simps)
qed

lemma lex_token_text:
  assumes "canonical t"
  shows "lex_step (token_text t @ CHR '' '' # rest) = (t, CHR '' '' # rest)"
  using assms
  by (cases t) (auto simp: lex_keyword lex_number lex_identifier lex_quote_string lex_symbol1
      simp del: set_simps intro: lex_symbol2)

lemma token_text_nonempty: "canonical t \<Longrightarrow> token_text t \<noteq> [] \<and> \<not> is_ascii_whitespace (hd (token_text t))"
proof (cases t)
  case (Keyword k)
  assume "canonical t"
  with Keyword is_keyword_word [of k] alpha_not_special(1) [of "hd k"] show ?thesis by auto
next
  case (Number n)
  assume "canonical t"
  with Number show ?thesis by (cases n) (auto simp: digit_not_special)
qed (auto simp: is_ascii_whitespace_def quote_string_def one_char_symbols_def)

lemma tokenize_text:
  assumes "\<forall>t\<in>set ts. canonical t"
  shows "tokenize (concat (map (\<lambda>t. token_text t @ '' '') ts)) = concat (map (\<lambda>t. [t, Whitespace]) ts)"
    and "semantic_tokens (concat (map (\<lambda>t. token_text t @ '' '') ts)) = ts"
proof -
  show tok: "tokenize (concat (map (\<lambda>t. token_text t @ '' '') ts)) = concat (map (\<lambda>t. [t, Whitespace]) ts)"
    using assms
  proof (induction ts)
    case (Cons t ts)
    let ?rest = "concat (map (\<lambda>t. token_text t @ '' '') ts)"
    have c: "canonical t" using Cons.prems by simp
    have "dropWhile is_ascii_whitespace ?rest = ?rest"
      by (rule dropWhile_hd_stop, cases ts) (use Cons.prems token_text_nonempty in simp_all)
    then have blank: "lex_step (CHR '' '' # ?rest) = (Whitespace, ?rest)"
      by (simp add: lex_step.simps is_ascii_whitespace_def)
    have "tokenize (token_text t @ CHR '' '' # ?rest) = t # Whitespace # tokenize ?rest"
      using lex_token_text [OF c, of ?rest] blank
      by (simp add: tokenize_step [of "token_text t @ CHR '' '' # ?rest"] tokenize_step [of "CHR '' '' # ?rest"])
    with Cons show ?case by simp
  qed simp
  have "filter is_semantic (concat (map (\<lambda>t. [t, Whitespace]) ts)) = ts"
    using assms
  proof (induction ts)
    case (Cons t ts)
    then have "is_semantic t" by (cases t) auto
    with Cons show ?case by simp
  qed simp
  with tok show "semantic_tokens (concat (map (\<lambda>t. token_text t @ '' '') ts)) = ts"
    by (simp add: semantic_tokens_def)
qed

section \<open>Properties\<close>

text \<open>
  C31: Every canonical token sequence is read back from its text: writing each token, followed by a
  blank, and tokenizing gives exactly the tokens with one white-space token after each, for all
  keywords, quoted identifiers, numbers, symbols and arbitrary string contents.
\<close>

theorem tokenizer_text_roundtrip:
  assumes "\<forall>t\<in>set ts. canonical t"
  shows "tokenize (concat (map (\<lambda>t. token_text t @ '' '') ts)) = concat (map (\<lambda>t. [t, Whitespace]) ts) \<and>
    semantic_tokens (concat (map (\<lambda>t. token_text t @ '' '') ts)) = ts"
  using tokenize_text [OF assms] by blast

theorem tokenizer_text_roundtrip_witness:
  "semantic_tokens (concat (map (\<lambda>t. token_text t @ '' '')
     [Keyword ''SELECT'', Symbol ''*'', StringLiteral [quote, CHR '';''], Number ''42'', Identifier ''from'']))
   = [Keyword ''SELECT'', Symbol ''*'', StringLiteral [quote, CHR '';''], Number ''42'', Identifier ''from'']"
proof -
  have "is_keyword ''SELECT''" by code_simp
  then have "\<forall>t\<in>set [Keyword ''SELECT'', Symbol ''*'', StringLiteral [quote, CHR '';''], Number ''42'',
      Identifier ''from'']. canonical t"
    by (simp add: one_char_symbols_def is_digit_def)
  from tokenizer_text_roundtrip [OF this] show ?thesis by blast
qed

text \<open>
  A quoted literal cannot break out. Where the tokenizer meets the quoted form of a string, with
  every quote in it doubled, it reads exactly one string literal with that content, whatever the
  content is, and continues with the text that follows.
\<close>

theorem tokenizer_literal_isolated:
  assumes "post = [] \<or> hd post \<noteq> quote"
  shows "tokenize (quote_string s @ post) = StringLiteral s # tokenize post"
proof -
  have "quote_string s @ post \<noteq> []" by (simp add: quote_string_def)
  from tokenize_step [OF this] lex_quote_string [OF assms, of s] show ?thesis by simp
qed

theorem tokenizer_literal_isolated_witness:
  "tokenize (quote_string [quote, CHR '';''] @ '' ;'') =
     [StringLiteral [quote, CHR '';''], Whitespace, Symbol '';'']"
proof -
  have "tokenize '' ;'' = [Whitespace, Symbol '';'']" by code_simp
  then show ?thesis using tokenizer_literal_isolated [of "'' ;''" "[quote, CHR '';'']"] by simp
qed

text \<open>An unterminated block comment leaves its last character behind as a token of its own.\<close>

lemma tokenizer_unterminated_comment: "tokenize ''/* ab'' = [BlockComment '' a'', Identifier ''b'']"
  by code_simp

end
