(* ===== verification/Sql_Ast.thy ===== *)
theory Sql_Ast
  imports Tokenizer
begin

text \<open>
  The statement parser of \<^verbatim>\<open>crates/voltnuerongrid-sql/src/ast.rs\<close> on the tokens of the tokenizer. A
  position in the token vector is the rest of the tokens from there on; the source only slices at
  positions inside the vector, where both views agree. \<open>adapter\<close> stands for the third-party parser
  that \<^verbatim>\<open>parse_one\<close> asks first and that answers for queries and transaction control. Of a query the
  clauses are modelled; the feature flags that \<^verbatim>\<open>parse_tokens\<close> derives from substrings of the text are
  not part of the record.
\<close>

section \<open>Statements\<close>

record order_by_clause =
  ob_column :: string
  ob_descending :: bool

record join_clause =
  jc_join_table :: string
  jc_on_condition :: "string option"

record select_statement =
  sel_columns :: "string list"
  sel_table :: "string option"
  sel_where_clause :: "string option"
  sel_group_by :: "string list"
  sel_having :: "string option"
  sel_order_by :: "order_by_clause list"
  sel_join :: "join_clause option"
  sel_limit :: "nat option"
  sel_offset :: "nat option"
  sel_has_limit_offset_pagination :: bool

record insert_statement =
  ins_table :: string
  ins_columns :: "string list"
  ins_values :: "string list list"

record update_statement =
  upd_table :: string
  upd_assignments :: "(string \<times> string) list"
  upd_where_clause :: "string option"

record delete_statement =
  del_table :: string
  del_where_clause :: "string option"

record column_def =
  col_name :: string
  col_data_type :: string

record create_table_statement =
  ct_table :: string
  ct_columns :: "column_def list"

datatype statement =
    SelectStmt select_statement
  | InsertStmt insert_statement
  | UpdateStmt update_statement
  | DeleteStmt delete_statement
  | CreateTableStmt create_table_statement
  | BeginStmt
  | CommitStmt
  | RollbackStmt
  | UnknownStmt string

section \<open>Token utilities\<close>

fun is_kw :: "string \<Rightarrow> token \<Rightarrow> bool" where
  "is_kw kw (Keyword k) = (to_uppercase k = to_uppercase kw)"
| "is_kw kw _ = False"

fun is_sym :: "string \<Rightarrow> token \<Rightarrow> bool" where
  "is_sym s (Symbol t) = (t = s)"
| "is_sym s _ = False"

fun token_as_name :: "token \<Rightarrow> string option" where
  "token_as_name (Identifier s) = Some s"
| "token_as_name (Keyword s) = Some s"
| "token_as_name _ = None"

fun raw_token :: "token \<Rightarrow> string" where
  "raw_token (Keyword s) = s"
| "raw_token (Identifier s) = s"
| "raw_token (Number s) = s"
| "raw_token (StringLiteral s) = [quote] @ s @ [quote]"
| "raw_token (Symbol s) = s"
| "raw_token _ = []"

definition tokens_to_raw :: "token list \<Rightarrow> string" where
  "tokens_to_raw ts = join '' '' (map raw_token ts)"

definition find_any_keyword_from :: "string list \<Rightarrow> token list \<Rightarrow> token list \<times> token list" where
  "find_any_keyword_from kws ts =
     (takeWhile (\<lambda>t. \<not> list_ex (\<lambda>kw. is_kw kw t) kws) ts, dropWhile (\<lambda>t. \<not> list_ex (\<lambda>kw. is_kw kw t) kws) ts)"

definition find_keyword_from :: "string \<Rightarrow> token list \<Rightarrow> token list option" where
  "find_keyword_from kw ts =
     (case dropWhile (\<lambda>t. \<not> is_kw kw t) ts of [] \<Rightarrow> None | _ # rest \<Rightarrow> Some rest)"

fun skip_kw :: "string \<Rightarrow> token list \<Rightarrow> token list" where
  "skip_kw kw (t # ts) = (if is_kw kw t then ts else t # ts)"
| "skip_kw kw [] = []"

fun skip_sym :: "string \<Rightarrow> token list \<Rightarrow> token list" where
  "skip_sym s (t # ts) = (if is_sym s t then ts else t # ts)"
| "skip_sym s [] = []"

fun next_name :: "token list \<Rightarrow> string option \<times> token list" where
  "next_name (t # ts) = (case token_as_name t of Some n \<Rightarrow> (Some n, ts) | None \<Rightarrow> (None, t # ts))"
| "next_name [] = (None, [])"

section \<open>Keywords outside string literals\<close>

text \<open>Positions are counted from the front; the flag says whether the scan is inside a literal.\<close>

fun find_outside :: "bool \<Rightarrow> string \<Rightarrow> string \<Rightarrow> nat option" where
  "find_outside in_str kw [] = None"
| "find_outside in_str kw (c # s) =
     (if in_str then
        (if c = quote then
           (case s of
              d # s' \<Rightarrow> if d = quote then map_option (\<lambda>n. n + 2) (find_outside True kw s')
                        else map_option Suc (find_outside False kw s)
            | [] \<Rightarrow> None)
         else map_option Suc (find_outside True kw s))
      else if c = quote then map_option Suc (find_outside True kw s)
      else if starts_with (c # s) kw then Some 0
      else map_option Suc (find_outside False kw s))"

definition find_keyword_outside_strings :: "string \<Rightarrow> string \<Rightarrow> nat option" where
  "find_keyword_outside_strings up keyword = find_outside False keyword up"

definition keyword_outside_strings :: "string \<Rightarrow> string \<Rightarrow> bool" where
  "keyword_outside_strings up keyword \<longleftrightarrow> find_keyword_outside_strings up keyword \<noteq> None"

section \<open>SELECT\<close>

definition select_column :: "token \<Rightarrow> string option" where
  "select_column t =
     (case token_as_name t of Some n \<Rightarrow> Some n | None \<Rightarrow> if is_sym ''*'' t then Some ''*'' else None)"

definition select_columns :: "token list \<Rightarrow> string list" where
  "select_columns ts = (let cs = List.map_filter select_column ts in if cs = [] then [''*''] else cs)"

definition parse_join :: "token list \<Rightarrow> join_clause option \<times> token list" where
  "parse_join ts =
     (case find_keyword_from ''JOIN'' ts of
        None \<Rightarrow> (None, ts)
      | Some r \<Rightarrow>
          (case next_name r of
             (None, r1) \<Rightarrow> (None, r1)
           | (Some t, []) \<Rightarrow> (Some \<lparr>jc_join_table = t, jc_on_condition = None\<rparr>, [])
           | (Some t, u # r2) \<Rightarrow>
               if is_kw ''ON'' u then
                 (let (c, e) = find_any_keyword_from [''WHERE'', ''GROUP'', ''HAVING'', ''ORDER'', ''LIMIT''] r2;
                      cond = tokens_to_raw c
                  in (Some \<lparr>jc_join_table = t, jc_on_condition = (if cond = [] then None else Some cond)\<rparr>, e))
               else (Some \<lparr>jc_join_table = t, jc_on_condition = None\<rparr>, u # r2)))"

text \<open>A clause that is kept as text: from its keyword to one of the keywords that may follow.\<close>

definition raw_clause :: "string \<Rightarrow> string list \<Rightarrow> token list \<Rightarrow> string option \<times> token list" where
  "raw_clause kw stops ts =
     (case find_keyword_from kw ts of
        None \<Rightarrow> (None, ts)
      | Some r \<Rightarrow> (let (c, e) = find_any_keyword_from stops r in (Some (tokens_to_raw c), e)))"

definition parse_group_by :: "token list \<Rightarrow> string list \<times> token list" where
  "parse_group_by ts =
     (case find_keyword_from ''GROUP'' ts of
        None \<Rightarrow> ([], ts)
      | Some r \<Rightarrow>
          (let (g, e) = find_any_keyword_from [''HAVING'', ''ORDER'', ''LIMIT''] (skip_kw ''BY'' r)
           in (List.map_filter token_as_name g, e)))"

fun order_items :: "token list \<Rightarrow> order_by_clause list" where
  "order_items [] = []"
| "order_items (t # ts) =
     (case token_as_name t of
        None \<Rightarrow> order_items ts
      | Some n \<Rightarrow>
          (case ts of
             u # us \<Rightarrow>
               if is_kw ''DESC'' u then \<lparr>ob_column = n, ob_descending = True\<rparr> # order_items us
               else \<lparr>ob_column = n, ob_descending = False\<rparr> # order_items ts
           | [] \<Rightarrow> [\<lparr>ob_column = n, ob_descending = False\<rparr>]))"

definition parse_order_by :: "token list \<Rightarrow> order_by_clause list \<times> token list" where
  "parse_order_by ts =
     (case find_keyword_from ''ORDER'' ts of
        None \<Rightarrow> ([], ts)
      | Some r \<Rightarrow>
          (let (s, e) = find_any_keyword_from [''LIMIT''] (skip_kw ''BY'' r) in (order_items s, e)))"

fun number_at :: "token list \<Rightarrow> nat option" where
  "number_at (Number n # _) = parse_uint 64 n"
| "number_at _ = None"

definition parse_limit :: "token list \<Rightarrow> nat option \<times> nat option" where
  "parse_limit ts =
     (case find_keyword_from ''LIMIT'' ts of
        None \<Rightarrow> (None, None)
      | Some r \<Rightarrow>
          (number_at r,
           case drop 1 r of
             k # r' \<Rightarrow> if is_kw ''OFFSET'' k then number_at r' else None
           | [] \<Rightarrow> None))"

definition parse_select :: "token list \<Rightarrow> select_statement" where
  "parse_select ts =
     (let (columns, from_rest) = (takeWhile (\<lambda>t. \<not> is_kw ''FROM'' t) (drop 1 ts), find_keyword_from ''FROM'' (drop 1 ts));
          (table, r1) = (case from_rest of None \<Rightarrow> (None, drop 1 ts) | Some r \<Rightarrow> next_name r);
          (join, r2) = parse_join r1;
          (where_clause, r3) = raw_clause ''WHERE'' [''GROUP'', ''HAVING'', ''ORDER'', ''LIMIT''] r2;
          (group_by, r4) = parse_group_by r3;
          (having, r5) = raw_clause ''HAVING'' [''ORDER'', ''LIMIT''] r4;
          (order_by, r6) = parse_order_by r5;
          (limit, offset) = parse_limit r6
      in \<lparr>sel_columns = select_columns columns, sel_table = table, sel_where_clause = where_clause,
          sel_group_by = group_by, sel_having = having, sel_order_by = order_by, sel_join = join,
          sel_limit = limit, sel_offset = offset,
          sel_has_limit_offset_pagination = (limit \<noteq> None \<and> offset \<noteq> None)\<rparr>)"

section \<open>INSERT\<close>

fun insert_columns :: "token list \<Rightarrow> string list \<times> token list" where
  "insert_columns [] = ([], [])"
| "insert_columns (t # ts) =
     (if is_sym '')'' t then ([], ts)
      else if is_sym '','' t then insert_columns ts
      else let (cs, rest) = insert_columns ts
           in (case token_as_name t of Some n \<Rightarrow> (n # cs, rest) | None \<Rightarrow> (cs, rest)))"

fun literal_value :: "token \<Rightarrow> string option" where
  "literal_value (StringLiteral s) = Some s"
| "literal_value (Number n) = Some n"
| "literal_value (Keyword k) = (if to_uppercase k = ''NULL'' then Some ''NULL'' else None)"
| "literal_value _ = None"

fun insert_row :: "token list \<Rightarrow> string list \<times> token list" where
  "insert_row [] = ([], [])"
| "insert_row (t # ts) =
     (if is_sym '')'' t then ([], ts)
      else if is_sym '','' t then insert_row ts
      else let (vs, rest) = insert_row ts
           in (case literal_value t of Some v \<Rightarrow> (v # vs, rest) | None \<Rightarrow> (vs, rest)))"

lemma insert_row_length: "length (snd (insert_row ts)) \<le> length ts"
  by (induction ts) (auto simp: Let_def split: prod.splits option.splits)

function insert_rows :: "token list \<Rightarrow> string list list" where
  "insert_rows [] = []"
| "insert_rows (t # ts) =
     (if is_sym ''('' t then fst (insert_row ts) # insert_rows (snd (insert_row ts))
      else if is_sym '','' t then insert_rows ts
      else [])"
  by pat_completeness auto
termination
  by (relation "measure length") (auto simp: le_imp_less_Suc insert_row_length)

definition parse_insert :: "token list \<Rightarrow> (insert_statement, string) result" where
  "parse_insert ts =
     (case next_name (skip_kw ''INTO'' (drop 1 ts)) of
        (None, _) \<Rightarrow> Err ''INSERT missing table name''
      | (Some table, r) \<Rightarrow>
          (let (columns, r1) = (case r of t # r' \<Rightarrow> if is_sym ''('' t then insert_columns r' else ([], r) | [] \<Rightarrow> ([], r))
           in case r1 of
                t # r2 \<Rightarrow>
                  if is_kw ''VALUES'' t
                  then Ok \<lparr>ins_table = table, ins_columns = columns, ins_values = insert_rows r2\<rparr>
                  else Err ''INSERT missing VALUES keyword''
              | [] \<Rightarrow> Err ''INSERT missing VALUES keyword''))"

section \<open>UPDATE and DELETE\<close>

lemma skip_sym_length: "length (skip_sym s ts) \<le> length ts"
  by (cases ts) auto

function assignments :: "token list \<Rightarrow> (string \<times> string) list" where
  "assignments [] = []"
| "assignments (t # ts) =
     (case token_as_name t of
        None \<Rightarrow> assignments ts
      | Some c \<Rightarrow>
          (case skip_sym ''='' ts of
             [] \<Rightarrow> []
           | v # r \<Rightarrow>
               (case literal_value v of
                  None \<Rightarrow> assignments r
                | Some x \<Rightarrow> (c, x) # assignments (skip_sym '','' r))))"
  by pat_completeness auto
termination
proof (relation "measure length")
  fix t ts c v r
  assume "skip_sym ''='' ts = v # r"
  with skip_sym_length [of "''=''" ts] have "length r < length ts" by simp
  then show "(r, t # ts) \<in> measure length"
    and "\<And>x. (skip_sym '','' r, t # ts) \<in> measure length"
    using skip_sym_length [of "'',''" r] by simp_all
qed auto

definition parse_update :: "token list \<Rightarrow> update_statement" where
  "parse_update ts =
     (let (table, r) = next_name (drop 1 ts);
          r1 = skip_kw ''SET'' r
      in \<lparr>upd_table = (case table of Some t \<Rightarrow> t | None \<Rightarrow> []),
          upd_assignments = assignments (takeWhile (\<lambda>t. \<not> is_kw ''WHERE'' t) r1),
          upd_where_clause = map_option tokens_to_raw (find_keyword_from ''WHERE'' r1)\<rparr>)"

definition parse_delete :: "token list \<Rightarrow> delete_statement" where
  "parse_delete ts =
     (let (table, r) = next_name (skip_kw ''FROM'' (drop 1 ts))
      in \<lparr>del_table = (case table of Some t \<Rightarrow> t | None \<Rightarrow> []),
          del_where_clause = map_option tokens_to_raw (find_keyword_from ''WHERE'' r)\<rparr>)"

section \<open>CREATE TABLE\<close>

fun compact_parts :: "string option \<Rightarrow> string list \<Rightarrow> string" where
  "compact_parts prev [] = []"
| "compact_parts prev (p # ps) =
     (if p = ''('' \<or> p = '')'' \<or> p = '','' then p
      else (if prev = None \<or> prev = Some ''('' \<or> prev = Some '','' then p else '' '' @ p)) @ compact_parts (Some p) ps"

definition compact_type_string :: "string list \<Rightarrow> string" where
  "compact_type_string parts = compact_parts None parts"

fun type_parts :: "nat \<Rightarrow> token list \<Rightarrow> string list \<times> token list" where
  "type_parts depth [] = ([], [])"
| "type_parts depth (t # ts) =
     (if (is_sym '','' t \<or> is_sym '')'' t) \<and> depth = 0 then ([], t # ts)
      else if is_sym ''('' t then (let (ps, rest) = type_parts (depth + 1) ts in (''('' # ps, rest))
      else if is_sym '')'' t then (let (ps, rest) = type_parts (depth - 1) ts in ('')'' # ps, rest))
      else if is_sym '','' t then (let (ps, rest) = type_parts depth ts in ('','' # ps, rest))
      else let (ps, rest) = type_parts depth ts
           in (case t of
                 Number n \<Rightarrow> (n # ps, rest)
               | _ \<Rightarrow> (case token_as_name t of Some n \<Rightarrow> (n # ps, rest) | None \<Rightarrow> (ps, rest))))"

lemma type_parts_length: "length (snd (type_parts depth ts)) \<le> length ts"
proof (induction depth ts rule: type_parts.induct)
  case (2 depth t ts)
  then show ?case
    by (cases t) (auto simp: Let_def split_beta split: option.splits)
qed simp

function create_columns :: "token list \<Rightarrow> column_def list" where
  "create_columns [] = []"
| "create_columns (t # ts) =
     (if is_sym '')'' t then []
      else if is_sym '','' t then create_columns ts
      else case token_as_name t of
             None \<Rightarrow> create_columns ts
           | Some n \<Rightarrow>
               \<lparr>col_name = n, col_data_type = compact_type_string (fst (type_parts 0 ts))\<rparr> #
               create_columns (snd (type_parts 0 ts)))"
  by pat_completeness auto
termination
  by (relation "measure length") (auto simp: le_imp_less_Suc type_parts_length)

definition parse_create :: "token list \<Rightarrow> (create_table_statement, string) result" where
  "parse_create ts =
     (let r = (case drop 1 ts of t # r' \<Rightarrow> if is_kw ''OR'' t then drop 1 r' else t # r' | [] \<Rightarrow> [])
      in case r of
           [] \<Rightarrow> Err ''CREATE without TABLE''
         | t # r1 \<Rightarrow>
             if \<not> is_kw ''TABLE'' t then Err ''CREATE without TABLE''
             else
               (case next_name r1 of
                  (None, _) \<Rightarrow> Err ''CREATE TABLE missing name''
                | (Some table, r2) \<Rightarrow>
                    Ok \<lparr>ct_table = table,
                        ct_columns = (case r2 of u # r3 \<Rightarrow> if is_sym ''('' u then create_columns r3 else [] | [] \<Rightarrow> [])\<rparr>))"

section \<open>Entry point\<close>

definition parse_tokens :: "string \<Rightarrow> token list \<Rightarrow> (statement, string) result" where
  "parse_tokens raw ts =
     (case ts of
        Keyword k # _ \<Rightarrow>
          (let u = to_uppercase k
           in if u = ''SELECT'' then Ok (SelectStmt (parse_select ts))
              else if u = ''WITH'' then
                Ok (SelectStmt (parse_select
                  (let d = dropWhile (\<lambda>t. \<not> is_kw ''SELECT'' t) ts in if d = [] then ts else d)))
              else if u = ''INSERT'' then (case parse_insert ts of Inl e \<Rightarrow> Err e | Inr s \<Rightarrow> Ok (InsertStmt s))
              else if u = ''UPDATE'' then Ok (UpdateStmt (parse_update ts))
              else if u = ''DELETE'' then Ok (DeleteStmt (parse_delete ts))
              else if u = ''CREATE'' then
                (case parse_create ts of Inl e \<Rightarrow> Ok (UnknownStmt raw) | Inr s \<Rightarrow> Ok (CreateTableStmt s))
              else if u = ''BEGIN'' \<or> u = ''START'' then Ok BeginStmt
              else if u = ''COMMIT'' then Ok CommitStmt
              else if u = ''ROLLBACK'' then Ok RollbackStmt
              else Ok (UnknownStmt raw))
      | _ \<Rightarrow> Ok (UnknownStmt raw))"

definition parse_one :: "(string \<Rightarrow> statement option) \<Rightarrow> string \<Rightarrow> (statement, string) result" where
  "parse_one adapter sql =
     (case adapter sql of
        Some stmt \<Rightarrow> Ok stmt
      | None \<Rightarrow>
          (let ts = semantic_tokens sql
           in if ts = [] then Err ''empty input'' else parse_tokens sql ts))"

section \<open>Statement texts\<close>

text \<open>
  The text a client builds for a statement: names in double quotes, every value as a string literal
  with its quotes doubled.
\<close>

fun comma_separated :: "token list list \<Rightarrow> token list" where
  "comma_separated [] = []"
| "comma_separated [x] = x"
| "comma_separated (x # y # ys) = x @ Symbol '','' # comma_separated (y # ys)"

definition parens :: "token list \<Rightarrow> token list" where
  "parens ts = Symbol ''('' # ts @ [Symbol '')'']"

definition insert_tokens :: "string \<Rightarrow> string list \<Rightarrow> string list list \<Rightarrow> token list" where
  "insert_tokens table columns rows =
     [Keyword ''INSERT'', Keyword ''INTO'', Identifier table] @
     (if columns = [] then [] else parens (comma_separated (map (\<lambda>c. [Identifier c]) columns))) @
     [Keyword ''VALUES''] @
     comma_separated (map (\<lambda>row. parens (comma_separated (map (\<lambda>v. [StringLiteral v]) row))) rows)"

definition update_tokens :: "string \<Rightarrow> (string \<times> string) list \<Rightarrow> token list \<Rightarrow> token list" where
  "update_tokens table assigns condition =
     [Keyword ''UPDATE'', Identifier table, Keyword ''SET''] @
     comma_separated (map (\<lambda>(c, v). [Identifier c, Symbol ''='', StringLiteral v]) assigns) @
     Keyword ''WHERE'' # condition"

definition statement_text :: "token list \<Rightarrow> string" where
  "statement_text ts = concat (map (\<lambda>t. token_text t @ '' '') ts)"

definition no_adapter :: "string \<Rightarrow> statement option" where
  "no_adapter sql = None"

text \<open>A position of a text that is neither in a literal nor one of the quotes around it.\<close>

definition outside_literal :: "string \<Rightarrow> nat \<Rightarrow> bool" where
  "outside_literal s i \<longleftrightarrow> s ! i \<noteq> quote \<and> even (count_list (take i s) quote)"

section \<open>Reading the texts back\<close>

lemma to_uppercase_keywords [simp]:
  "to_uppercase ''INSERT'' = ''INSERT''" "to_uppercase ''INTO'' = ''INTO''" "to_uppercase ''VALUES'' = ''VALUES''"
  "to_uppercase ''UPDATE'' = ''UPDATE''" "to_uppercase ''SET'' = ''SET''" "to_uppercase ''WHERE'' = ''WHERE''"
  "to_uppercase ''DELETE'' = ''DELETE''" "to_uppercase ''FROM'' = ''FROM''"
  by code_simp+

lemma statement_keywords:
  "is_keyword ''INSERT''" "is_keyword ''INTO''" "is_keyword ''VALUES''" "is_keyword ''UPDATE''"
  "is_keyword ''SET''" "is_keyword ''WHERE''" "is_keyword ''DELETE''" "is_keyword ''FROM''"
  by code_simp+

lemma statement_symbols:
  "canonical (Symbol '','')" "canonical (Symbol ''('')" "canonical (Symbol '')'')" "canonical (Symbol ''='')"
  by (simp_all add: one_char_symbols_def)

lemma set_comma_separated: "set (comma_separated xss) \<subseteq> insert (Symbol '','') (\<Union>xs\<in>set xss. set xs)"
  by (induction xss rule: comma_separated.induct) auto

lemma canonical_comma_separated:
  assumes "\<And>xs t. xs \<in> set xss \<Longrightarrow> t \<in> set xs \<Longrightarrow> canonical t" "t \<in> set (comma_separated xss)"
  shows "canonical t"
  using assms set_comma_separated [of xss] statement_symbols(1) by blast

lemma parse_statement_text:
  assumes "\<forall>t\<in>set ts. canonical t" "ts \<noteq> []" "adapter (statement_text ts) = None"
  shows "parse_one adapter (statement_text ts) = parse_tokens (statement_text ts) ts"
  using assms tokenize_text(2) [OF assms(1)] by (simp add: parse_one_def statement_text_def)

lemma insert_columns_text:
  "insert_columns (comma_separated (map (\<lambda>c. [Identifier c]) cs) @ Symbol '')'' # r) = (cs, r)"
  by (induction cs rule: induct_list012) simp_all

lemma insert_row_text:
  "insert_row (comma_separated (map (\<lambda>v. [StringLiteral v]) vs) @ Symbol '')'' # r) = (vs, r)"
  by (induction vs rule: induct_list012) simp_all

lemma insert_rows_text:
  "insert_rows (comma_separated (map (\<lambda>row. parens (comma_separated (map (\<lambda>v. [StringLiteral v]) row))) rows)) = rows"
  by (induction rows rule: induct_list012) (simp_all add: parens_def insert_row_text)

lemma assignments_text:
  "assignments (comma_separated (map (\<lambda>(c, v). [Identifier c, Symbol ''='', StringLiteral v]) as)) = as"
  by (induction as rule: induct_list012) auto

lemma takeWhile_not_where:
  assumes "\<forall>t\<in>set ts. \<not> is_kw ''WHERE'' t"
  shows "takeWhile (\<lambda>t. \<not> is_kw ''WHERE'' t) (ts @ Keyword ''WHERE'' # r) = ts"
    and "find_keyword_from ''WHERE'' (ts @ Keyword ''WHERE'' # r) = Some r"
  using assms by (induction ts) (simp_all add: find_keyword_from_def)

lemma insert_tokens_canonical:
  assumes "dquote \<notin> set table" "\<forall>c\<in>set columns. dquote \<notin> set c"
  shows "\<forall>t\<in>set (insert_tokens table columns rows). canonical t"
proof -
  have cols: "canonical t" if "t \<in> set (comma_separated (map (\<lambda>c. [Identifier c]) columns))" for t
    by (rule canonical_comma_separated [OF _ that]) (use assms(2) in auto)
  have vals: "canonical t" if "t \<in> set (comma_separated (map (\<lambda>v. [StringLiteral v]) row))" for t row
    by (rule canonical_comma_separated [OF _ that]) auto
  have row: "canonical t" if "t \<in> set (parens (comma_separated (map (\<lambda>v. [StringLiteral v]) row)))" for t row
    using that vals statement_symbols(2,3) by (auto simp: parens_def simp del: canonical.simps)
  have rows: "canonical t"
    if "t \<in> set (comma_separated (map (\<lambda>row. parens (comma_separated (map (\<lambda>v. [StringLiteral v]) row))) rows))" for t
    by (rule canonical_comma_separated [OF _ that]) (use row in auto)
  have "canonical (Keyword ''INSERT'')" "canonical (Keyword ''INTO'')" "canonical (Keyword ''VALUES'')"
    "canonical (Identifier table)"
    using statement_keywords assms(1) by simp_all
  with cols rows statement_symbols(2,3) show ?thesis
    unfolding insert_tokens_def
    by (auto simp: parens_def simp del: canonical.simps split: if_splits)
qed

lemma parse_insert_tokens:
  "parse_insert (insert_tokens table columns rows) =
     Ok \<lparr>ins_table = table, ins_columns = columns, ins_values = rows\<rparr>"
  by (cases "columns = []")
     (simp_all add: parse_insert_def insert_tokens_def parens_def insert_rows_text [unfolded parens_def]
        insert_columns_text)

lemma update_assignments_no_where:
  "\<forall>t\<in>set (comma_separated (map (\<lambda>(c, v). [Identifier c, Symbol ''='', StringLiteral v]) as)). \<not> is_kw ''WHERE'' t"
  using set_comma_separated [of "map (\<lambda>(c, v). [Identifier c, Symbol ''='', StringLiteral v]) as"] by fastforce

lemma parse_update_tokens:
  "parse_update (update_tokens table as condition) =
     \<lparr>upd_table = table, upd_assignments = as, upd_where_clause = Some (tokens_to_raw condition)\<rparr>"
  using takeWhile_not_where [OF update_assignments_no_where [of as], of condition]
  by (simp add: parse_update_def update_tokens_def assignments_text)

lemma update_tokens_canonical:
  assumes "dquote \<notin> set table" "\<forall>(c, v)\<in>set as. dquote \<notin> set c" "\<forall>t\<in>set condition. canonical t"
  shows "\<forall>t\<in>set (update_tokens table as condition). canonical t"
proof -
  have "canonical t"
    if "t \<in> set (comma_separated (map (\<lambda>(c, v). [Identifier c, Symbol ''='', StringLiteral v]) as))" for t
    by (rule canonical_comma_separated [OF _ that]) (use assms(2) statement_symbols(4) in fastforce)
  moreover have "canonical (Keyword ''UPDATE'')" "canonical (Keyword ''SET'')" "canonical (Keyword ''WHERE'')"
    "canonical (Identifier table)"
    using statement_keywords assms(1) by simp_all
  ultimately show ?thesis
    using assms(3) unfolding update_tokens_def by (auto simp del: canonical.simps)
qed

section \<open>The keyword search\<close>

lemma find_upt_Suc:
  "find P [0..<Suc n] = (if P 0 then Some 0 else map_option Suc (find (\<lambda>i. P (Suc i)) [0..<n]))"
proof -
  have "find P (map Suc xs) = map_option Suc (find (\<lambda>i. P (Suc i)) xs)" for xs
    by (induction xs) simp_all
  then show ?thesis
    by (simp add: upt_conv_Cons map_Suc_upt [symmetric] del: upt_Suc)
qed

lemma find_outside_find:
  "find_outside b kw s =
     find (\<lambda>i. s ! i \<noteq> quote \<and> even (count_list (take i s) quote + of_bool b) \<and> starts_with (drop i s) kw)
       [0..<length s]"
proof (induction b kw s rule: find_outside.induct)
  case (2 in_str kw c s)
  show ?case
  proof (cases "in_str \<and> c = quote \<and> (\<exists>s'. s = quote # s')")
    case True
    then obtain s' where s: "s = quote # s'" by blast
    with True 2(1) [of quote s'] show ?thesis
      by (simp add: find_upt_Suc option.map_comp comp_def del: upt_Suc)
  next
    case False
    with 2 show ?thesis
      by (cases s) (auto simp: find_upt_Suc simp del: upt_Suc)
  qed
qed simp

section \<open>Properties\<close>

text \<open>
  An INSERT is read back exactly. The text of an INSERT statement, with its names in double quotes
  and every value written as a literal with the quotes doubled, parses to that statement: the table,
  the column list and every row with every value come back unchanged, for any number of rows, any
  arity and arbitrary contents. No value can end its literal or the row, and no row is lost. The
  external parser is asked first and must decline the text, as it does for INSERT.
\<close>

theorem ast_insert_roundtrip:
  assumes "adapter (statement_text (insert_tokens table columns rows)) = None"
    and "dquote \<notin> set table" "\<forall>c\<in>set columns. dquote \<notin> set c"
  shows "parse_one adapter (statement_text (insert_tokens table columns rows)) =
    Ok (InsertStmt \<lparr>ins_table = table, ins_columns = columns, ins_values = rows\<rparr>)"
proof -
  let ?ts = "insert_tokens table columns rows"
  have "parse_one adapter (statement_text ?ts) = parse_tokens (statement_text ?ts) ?ts"
    by (rule parse_statement_text) (use assms insert_tokens_canonical in \<open>simp_all add: insert_tokens_def\<close>)
  also have "\<dots> = Ok (InsertStmt \<lparr>ins_table = table, ins_columns = columns, ins_values = rows\<rparr>)"
    using parse_insert_tokens [of table columns rows] by (simp add: parse_tokens_def insert_tokens_def)
  finally show ?thesis .
qed

theorem ast_insert_roundtrip_witness:
  "parse_one no_adapter (statement_text (insert_tokens ''users'' [''id'', ''name'']
       [[''1'', [quote, CHR '')'', CHR '';'']], [''2'', ''b, c'']])) =
   Ok (InsertStmt \<lparr>ins_table = ''users'', ins_columns = [''id'', ''name''],
     ins_values = [[''1'', [quote, CHR '')'', CHR '';'']], [''2'', ''b, c'']]\<rparr>)"
  by (rule ast_insert_roundtrip) (simp_all add: no_adapter_def)

text \<open>
  An UPDATE is read back: the table and all assignments, in order, with arbitrary literal values,
  come back unchanged, and the clause after WHERE is kept as text. That text is the tokens joined by
  blanks with each literal between single quotes, its inner quotes no longer doubled.
\<close>

theorem ast_update_roundtrip:
  assumes "adapter (statement_text (update_tokens table as condition)) = None"
    and "dquote \<notin> set table" "\<forall>(c, v)\<in>set as. dquote \<notin> set c" "\<forall>t\<in>set condition. canonical t"
  shows "parse_one adapter (statement_text (update_tokens table as condition)) =
    Ok (UpdateStmt \<lparr>upd_table = table, upd_assignments = as,
      upd_where_clause = Some (join '' '' (map raw_token condition))\<rparr>)"
proof -
  let ?ts = "update_tokens table as condition"
  have "parse_one adapter (statement_text ?ts) = parse_tokens (statement_text ?ts) ?ts"
    by (rule parse_statement_text) (use assms update_tokens_canonical in \<open>simp_all add: update_tokens_def\<close>)
  also have "\<dots> = Ok (UpdateStmt (parse_update ?ts))"
    by (simp add: parse_tokens_def update_tokens_def)
  finally show ?thesis by (simp add: parse_update_tokens tokens_to_raw_def)
qed

theorem ast_update_roundtrip_witness:
  "parse_one no_adapter (statement_text (update_tokens ''users'' [(''name'', ''o'' @ [quote]), (''where'', ''x'')]
       [Identifier ''id'', Symbol ''='', Number ''7''])) =
   Ok (UpdateStmt \<lparr>upd_table = ''users'', upd_assignments = [(''name'', ''o'' @ [quote]), (''where'', ''x'')],
     upd_where_clause = Some ''id = 7''\<rparr>)"
  using ast_update_roundtrip [of no_adapter "''users''" "[(''name'', ''o'' @ [quote]), (''where'', ''x'')]"
      "[Identifier ''id'', Symbol ''='', Number ''7'']"] statement_symbols(4)
  by (simp add: no_adapter_def is_digit_def one_char_symbols_def)

text \<open>
  The text of a WHERE clause does not mean what the statement meant. In a DELETE that compares a
  column with one literal, the literal's content goes into the stored clause with its quotes no
  longer doubled; for the content \<open>x' OR 'a' = 'a\<close> the stored clause reads back as a
  disjunction of two comparisons instead of one comparison.
\<close>

theorem ast_where_clause_requoted:
  "parse_one no_adapter (statement_text [Keyword ''DELETE'', Keyword ''FROM'', Identifier ''t'', Keyword ''WHERE'',
      Identifier ''c'', Symbol ''='',
      StringLiteral (''x'' @ [quote] @ '' OR '' @ [quote] @ ''a'' @ [quote] @ '' = '' @ [quote] @ ''a'')]) =
   Ok (DeleteStmt \<lparr>del_table = ''t'', del_where_clause =
      Some (''c = '' @ [quote] @ ''x'' @ [quote] @ '' OR '' @ [quote] @ ''a'' @ [quote] @ '' = '' @ [quote] @ ''a'' @ [quote])\<rparr>) \<and>
   semantic_tokens (''c = '' @ [quote] @ ''x'' @ [quote] @ '' OR '' @ [quote] @ ''a'' @ [quote] @ '' = '' @ [quote] @ ''a'' @ [quote]) =
     [Identifier ''c'', Symbol ''='', StringLiteral ''x'', Keyword ''OR'', StringLiteral ''a'', Symbol ''='', StringLiteral ''a'']"
  by (rule conjI; code_simp)

text \<open>
  The search for a keyword outside literals is the search for the first position that lies
  outside every literal and where the keyword starts. A position is outside when an even number of
  quotes precede it and it holds no quote itself; a doubled quote inside a literal changes nothing.
\<close>

theorem keyword_search_outside_literals:
  "find_keyword_outside_strings up kw =
     find (\<lambda>i. outside_literal up i \<and> starts_with (drop i up) kw) [0..<length up]"
  unfolding find_keyword_outside_strings_def find_outside_find outside_literal_def by (simp add: conj_assoc)

end
