(* ===== verification/Transactions.thy ===== *)
theory Transactions
  imports Mvcc Sql_Analyzer
begin

text \<open>
  Transactions as the service runs them: the registry of \<^verbatim>\<open>AcidTransactionRegistry\<close> in \<^verbatim>\<open>main.rs\<close>, the
  commit-time validation of the transaction endpoint in \<^verbatim>\<open>handlers/sql.rs\<close>, the savepoint semantics
  of a statement list, the undo log of a connection, and the write sets that survive a restart
  (\<^verbatim>\<open>helpers/raft_loop.rs\<close>). A hash map that is iterated is an association list and a hash set a list
  without duplicates; their order stands for the iteration order. The clock is an argument, and JSON
  is assumed to be read back as written.
\<close>

section \<open>The registry\<close>

datatype acid_tx_state = TxActive | TxCommitted | TxRolledBack | TxFailed

record acid_tx_entry =
  tx_transaction_id :: string
  tx_assigned_node_id :: string
  tx_state :: acid_tx_state
  tx_isolation_level :: string
  tx_started_at :: nat
  tx_completed_at :: "nat option"
  tx_statement_count :: nat
  tx_affected_tables :: "string list"
  tx_savepoints :: "string list"
  tx_read_snapshot_at :: "nat option"
  tx_wal_log :: "(string \<times> string) list"
  tx_row_store_snapshot_xid :: "xid option"
  tx_written_row_keys :: "string list"
  tx_read_row_keys :: "string list"

type_synonym acid_registry = "(string \<times> acid_tx_entry) list"

definition modify_tx :: "string \<Rightarrow> (acid_tx_entry \<Rightarrow> acid_tx_entry) \<Rightarrow> acid_registry \<Rightarrow> acid_registry" where
  "modify_tx tx f reg = (case map_of reg tx of Some e \<Rightarrow> AList.update tx (f e) reg | None \<Rightarrow> reg)"

definition acid_begin :: "string \<Rightarrow> string \<Rightarrow> string \<Rightarrow> nat \<Rightarrow> xid option \<Rightarrow> acid_registry \<Rightarrow> acid_registry" where
  "acid_begin tx node isolation now begin_snapshot reg =
     AList.update tx
       \<lparr>tx_transaction_id = tx, tx_assigned_node_id = node, tx_state = TxActive,
        tx_isolation_level = isolation, tx_started_at = now, tx_completed_at = None,
        tx_statement_count = 0, tx_affected_tables = [], tx_savepoints = [],
        tx_read_snapshot_at = (if isolation = ''repeatable_read'' then Some now else None),
        tx_wal_log = [],
        tx_row_store_snapshot_xid =
          (if isolation = ''repeatable_read'' \<or> isolation = ''optimistic'' then begin_snapshot else None),
        tx_written_row_keys = [], tx_read_row_keys = []\<rparr> reg"

definition rr_read_snapshot_xid :: "acid_registry \<Rightarrow> string \<Rightarrow> xid option" where
  "rr_read_snapshot_xid reg tx =
     (case map_of reg tx of
        Some e \<Rightarrow> if tx_isolation_level e = ''repeatable_read'' then tx_row_store_snapshot_xid e else None
      | None \<Rightarrow> None)"

definition set_row_store_snapshot :: "string \<Rightarrow> xid \<Rightarrow> acid_registry \<Rightarrow> acid_registry" where
  "set_row_store_snapshot tx x =
     modify_tx tx (\<lambda>e. if tx_row_store_snapshot_xid e = None then e\<lparr>tx_row_store_snapshot_xid := Some x\<rparr> else e)"

definition row_store_snapshot_xid :: "acid_registry \<Rightarrow> string \<Rightarrow> xid option" where
  "row_store_snapshot_xid reg tx = Option.bind (map_of reg tx) tx_row_store_snapshot_xid"

text \<open>Commit and rollback answer whether the transaction was active.\<close>

definition is_active :: "acid_registry \<Rightarrow> string \<Rightarrow> bool" where
  "is_active reg tx = (case map_of reg tx of Some e \<Rightarrow> tx_state e = TxActive | None \<Rightarrow> False)"

definition finish_tx :: "acid_tx_state \<Rightarrow> string \<Rightarrow> nat \<Rightarrow> acid_registry \<Rightarrow> bool \<times> acid_registry" where
  "finish_tx st tx now reg =
     (if is_active reg tx
      then (True, modify_tx tx (\<lambda>e. e\<lparr>tx_state := st, tx_completed_at := Some now, tx_wal_log := []\<rparr>) reg)
      else (False, reg))"

definition acid_commit :: "string \<Rightarrow> nat \<Rightarrow> acid_registry \<Rightarrow> bool \<times> acid_registry" where
  "acid_commit = finish_tx TxCommitted"

definition acid_rollback :: "string \<Rightarrow> nat \<Rightarrow> acid_registry \<Rightarrow> bool \<times> acid_registry" where
  "acid_rollback = finish_tx TxRolledBack"

definition add_savepoint :: "string \<Rightarrow> string \<Rightarrow> acid_registry \<Rightarrow> bool \<times> acid_registry" where
  "add_savepoint tx sp reg =
     (if is_active reg tx then (True, modify_tx tx (\<lambda>e. e\<lparr>tx_savepoints := tx_savepoints e @ [sp]\<rparr>) reg)
      else (False, reg))"

definition remove_at :: "nat \<Rightarrow> 'a list \<Rightarrow> 'a list" where
  "remove_at i xs = take i xs @ drop (Suc i) xs"

definition release_savepoint :: "string \<Rightarrow> string \<Rightarrow> acid_registry \<Rightarrow> bool \<times> acid_registry" where
  "release_savepoint tx sp reg =
     (case map_of reg tx of
        Some e \<Rightarrow>
          (if tx_state e = TxActive then
             (case rposition (\<lambda>s. s = sp) (tx_savepoints e) of
                Some pos \<Rightarrow> (True, AList.update tx (e\<lparr>tx_savepoints := remove_at pos (tx_savepoints e)\<rparr>) reg)
              | None \<Rightarrow> (False, reg))
           else (False, reg))
      | None \<Rightarrow> (False, reg))"

definition rollback_to_savepoint :: "string \<Rightarrow> string \<Rightarrow> acid_registry \<Rightarrow> bool \<times> acid_registry" where
  "rollback_to_savepoint tx sp reg =
     (case map_of reg tx of
        Some e \<Rightarrow>
          (if tx_state e = TxActive \<and> sp \<in> set (tx_savepoints e)
           then (True, AList.update tx (e\<lparr>tx_savepoints := tx_savepoints e @ [''rolled_back_to:'' @ sp]\<rparr>) reg)
           else (False, reg))
      | None \<Rightarrow> (False, reg))"

definition record_statement :: "string \<Rightarrow> string option \<Rightarrow> acid_registry \<Rightarrow> acid_registry" where
  "record_statement tx affected_table =
     modify_tx tx (\<lambda>e.
       let n = tx_statement_count e + 1;
           table = (case affected_table of Some t \<Rightarrow> t | None \<Rightarrow> [])
       in e\<lparr>tx_statement_count := n,
            tx_affected_tables :=
              (if table \<noteq> [] \<and> table \<notin> set (tx_affected_tables e) then tx_affected_tables e @ [table]
               else tx_affected_tables e),
            tx_wal_log := tx_wal_log e @ [(''statement_'' @ show_nat n, table)]\<rparr>)"

definition record_written_row_keys :: "string \<Rightarrow> string list \<Rightarrow> acid_registry \<Rightarrow> acid_registry" where
  "record_written_row_keys tx keys =
     modify_tx tx (\<lambda>e. e\<lparr>tx_written_row_keys := fold List.insert keys (tx_written_row_keys e)\<rparr>)"

definition record_read_row_keys :: "string \<Rightarrow> string list \<Rightarrow> acid_registry \<Rightarrow> acid_registry" where
  "record_read_row_keys tx keys =
     modify_tx tx (\<lambda>e.
       if tx_isolation_level e = ''serializable'' \<and> tx_state e = TxActive
       then e\<lparr>tx_read_row_keys := fold List.insert keys (tx_read_row_keys e)\<rparr> else e)"

definition active_transactions :: "acid_registry \<Rightarrow> acid_tx_entry list" where
  "active_transactions reg = filter (\<lambda>e. tx_state e = TxActive) (map snd reg)"

definition all_transactions :: "acid_registry \<Rightarrow> acid_tx_entry list" where
  "all_transactions reg = map snd reg"

definition reassign_active_node :: "string \<Rightarrow> string \<Rightarrow> acid_registry \<Rightarrow> nat \<times> acid_registry" where
  "reassign_active_node source target reg =
     (let hit = (\<lambda>e. tx_state e = TxActive \<and> tx_assigned_node_id e = source)
      in (length (filter (\<lambda>x. hit (snd x)) reg),
          map (\<lambda>x. (fst x, if hit (snd x) then (snd x)\<lparr>tx_assigned_node_id := target\<rparr> else snd x)) reg))"

section \<open>Conflict detection\<close>

definition committed_peers :: "acid_registry \<Rightarrow> string \<Rightarrow> string \<Rightarrow> acid_tx_entry list" where
  "committed_peers reg tx level =
     map snd (filter (\<lambda>(other, e). other \<noteq> tx \<and> tx_isolation_level e = level \<and> tx_state e = TxCommitted) reg)"

definition check_serializable_rw_conflict ::
  "acid_registry \<Rightarrow> string \<Rightarrow> string list \<Rightarrow> string list \<Rightarrow> string option" where
  "check_serializable_rw_conflict reg tx written reads =
     first_some (\<lambda>e.
       case find (\<lambda>k. k \<in> set (tx_written_row_keys e)) reads of
         Some k \<Rightarrow> Some k
       | None \<Rightarrow> find (\<lambda>k. k \<in> set (tx_read_row_keys e)) written)
       (committed_peers reg tx ''serializable'')"

definition check_serializable_conflict_row_level :: "acid_registry \<Rightarrow> string \<Rightarrow> string list \<Rightarrow> string option" where
  "check_serializable_conflict_row_level reg tx written =
     (if written = [] then None
      else first_some (\<lambda>e. find (\<lambda>k. k \<in> set (tx_written_row_keys e)) written)
             (committed_peers reg tx ''serializable''))"

definition check_optimistic_conflict :: "acid_registry \<Rightarrow> string \<Rightarrow> string list \<Rightarrow> string option" where
  "check_optimistic_conflict reg tx written =
     (if written = [] then None
      else first_some (\<lambda>e. find (\<lambda>k. k \<in> set (tx_written_row_keys e)) written)
             (committed_peers reg tx ''optimistic''))"

definition optimistic_version_conflict :: "paged_row_store \<Rightarrow> string list \<Rightarrow> xid \<Rightarrow> string option" where
  "optimistic_version_conflict rs written begin_snapshot =
     find (\<lambda>k. was_modified_after rs k begin_snapshot) written"

text \<open>
  The validation at COMMIT, in the order of the endpoint; an error rolls the transaction back in the
  registry, success records the written keys and commits.
\<close>

definition snapshot_or_zero :: "acid_registry \<Rightarrow> string \<Rightarrow> xid" where
  "snapshot_or_zero reg tx = (case row_store_snapshot_xid reg tx of Some x \<Rightarrow> x | None \<Rightarrow> 0)"

definition commit_conflict ::
  "paged_row_store \<Rightarrow> string \<Rightarrow> string \<Rightarrow> string list \<Rightarrow> acid_registry \<Rightarrow> string option" where
  "commit_conflict rs isolation tx written reg =
     (case (if isolation = ''optimistic'' then
              (case optimistic_version_conflict rs written (snapshot_or_zero reg tx) of
                 Some k \<Rightarrow> Some k
               | None \<Rightarrow> check_optimistic_conflict reg tx written)
            else None) of
        Some k \<Rightarrow> Some (''optimistic_version_conflict:'' @ k)
      | None \<Rightarrow>
          (case check_serializable_conflict_row_level reg tx written of
             Some k \<Rightarrow> Some (''serializable_write_conflict:'' @ k)
           | None \<Rightarrow>
               (case check_serializable_rw_conflict reg tx written
                       (case map_of reg tx of Some e \<Rightarrow> tx_read_row_keys e | None \<Rightarrow> []) of
                  Some k \<Rightarrow> Some (''serializable_phantom_conflict:'' @ k)
                | None \<Rightarrow>
                    (if written = [] then None
                     else map_option (\<lambda>k. ''write_write_conflict:'' @ k)
                       (find (\<lambda>k. was_modified_after rs k (snapshot_or_zero reg tx)) written)))))"

definition commit_validated ::
  "paged_row_store \<Rightarrow> string \<Rightarrow> string \<Rightarrow> string list \<Rightarrow> nat \<Rightarrow> acid_registry \<Rightarrow>
   (unit, string) result \<times> acid_registry" where
  "commit_validated rs isolation tx written now reg =
     (case commit_conflict rs isolation tx written reg of
        Some reason \<Rightarrow> (Err reason, snd (acid_rollback tx now reg))
      | None \<Rightarrow> (Ok (), snd (acid_commit tx now (record_written_row_keys tx written reg))))"

section \<open>Statement lists and savepoints\<close>

definition rollback_target :: "string \<Rightarrow> string option" where
  "rollback_target stmt =
     (let tokens = split_ascii_whitespace stmt
      in if map_option to_uppercase (nth_opt tokens 2) = Some ''SAVEPOINT'' then nth_opt tokens 3
         else nth_opt tokens 2)"

definition trim_table_end :: "string \<Rightarrow> string" where
  "trim_table_end t = rev (dropWhile (\<lambda>c. c = CHR ''('' \<or> c = CHR '' '') (rev t))"

definition affected_table :: "string \<Rightarrow> string option" where
  "affected_table stmt =
     (let upper = to_uppercase stmt
      in if starts_with upper ''UPDATE '' then
           map_option trim_table_end (nth_opt (split_ascii_whitespace stmt) 1)
         else if starts_with upper ''INSERT INTO '' \<or> starts_with upper ''DELETE FROM '' then
           map_option trim_table_end (nth_opt (split_ascii_whitespace stmt) 2)
         else None)"

definition track_statement :: "string \<Rightarrow> string \<Rightarrow> acid_registry \<Rightarrow> acid_registry" where
  "track_statement tx stmt reg =
     record_statement tx (affected_table stmt)
       (case classify_statement stmt of
          SkSavepoint \<Rightarrow>
            (case nth_opt (split_ascii_whitespace stmt) 1 of
               Some sp \<Rightarrow> snd (add_savepoint tx sp reg) | None \<Rightarrow> reg)
        | SkReleaseSavepoint \<Rightarrow>
            (case nth_opt (split_ascii_whitespace stmt) 2 of
               Some sp \<Rightarrow> snd (release_savepoint tx sp reg) | None \<Rightarrow> reg)
        | SkRollbackToSavepoint \<Rightarrow>
            (case rollback_target stmt of
               Some sp \<Rightarrow> snd (rollback_to_savepoint tx sp reg) | None \<Rightarrow> reg)
        | _ \<Rightarrow> reg)"

text \<open>The statements applied so far and the savepoints with the length they mark.\<close>

type_synonym savepoint_state = "string list \<times> (string \<times> nat) list"

definition savepoint_step :: "string \<Rightarrow> savepoint_state \<Rightarrow> savepoint_state" where
  "savepoint_step stmt st =
     (let (applied, savepoints) = st
      in case classify_statement stmt of
           SkSavepoint \<Rightarrow>
             (case nth_opt (split_ascii_whitespace stmt) 1 of
                Some n \<Rightarrow> (applied, savepoints @ [(to_lowercase n, length applied)])
              | None \<Rightarrow> (applied, savepoints))
         | SkReleaseSavepoint \<Rightarrow>
             (case nth_opt (split_ascii_whitespace stmt) 2 of
                Some n \<Rightarrow>
                  (case rposition (\<lambda>p. fst p = to_lowercase n) savepoints of
                     Some pos \<Rightarrow> (applied, remove_at pos savepoints)
                   | None \<Rightarrow> (applied, savepoints))
              | None \<Rightarrow> (applied, savepoints))
         | SkRollbackToSavepoint \<Rightarrow>
             (case rollback_target stmt of
                Some n \<Rightarrow>
                  (case rposition (\<lambda>p. fst p = to_lowercase n) savepoints of
                     Some pos \<Rightarrow> (take (snd (savepoints ! pos)) applied, take (pos + 1) savepoints)
                   | None \<Rightarrow> (applied, savepoints))
              | None \<Rightarrow> (applied, savepoints))
         | SkBegin \<Rightarrow> (applied, savepoints)
         | SkCommit \<Rightarrow> (applied, savepoints)
         | SkRollback \<Rightarrow> (applied, savepoints)
         | _ \<Rightarrow> (applied @ [stmt], savepoints))"

definition effective_statements_after_savepoints :: "string list \<Rightarrow> string list" where
  "effective_statements_after_savepoints statements = fst (fold savepoint_step statements ([], []))"

section \<open>The undo log\<close>

type_synonym undo_log = "string \<rightharpoonup> (string \<times> row_data option) list"

definition undo_entries :: "undo_log \<Rightarrow> string \<Rightarrow> (string \<times> row_data option) list" where
  "undo_entries log conn = (case log conn of Some es \<Rightarrow> es | None \<Rightarrow> [])"

definition record_undo :: "undo_log \<Rightarrow> string \<Rightarrow> string \<Rightarrow> row_data option \<Rightarrow> undo_log" where
  "record_undo log conn key before = log(conn \<mapsto> undo_entries log conn @ [(key, before)])"

datatype row_write = RowPut string row_data | RowDel string

primrec row_write_key :: "row_write \<Rightarrow> string" where
  "row_write_key (RowPut k d) = k"
| "row_write_key (RowDel k) = k"

text \<open>One row write of a statement batch on the direct path: before-image, intent, new version.\<close>

definition write_with_undo ::
  "xid \<Rightarrow> string \<Rightarrow> row_write \<Rightarrow> paged_row_store \<times> undo_log \<Rightarrow> (paged_row_store \<times> undo_log) option" where
  "write_with_undo x conn w st =
     (let k = row_write_key w;
          log = record_undo (snd st) conn k (read_latest (fst st) k);
          rs = snd (begin_write_intent (fst st) x k)
      in case w of
           RowPut k d \<Rightarrow> map_option (\<lambda>rs. (rs, log)) (store_insert rs x k d)
         | RowDel k \<Rightarrow> Some (snd (store_delete rs x k), log))"

text \<open>A batch: one transaction id, its row writes, and the release of its intents.\<close>

definition run_write_batch ::
  "string \<Rightarrow> row_write list \<Rightarrow> paged_row_store \<times> undo_log \<Rightarrow> (paged_row_store \<times> undo_log) option" where
  "run_write_batch conn ws st =
     (let (x, rs) = begin_xid (fst st)
      in map_option (\<lambda>(rs, log). (release_write_intents rs x, log))
           (fold_opt (write_with_undo x conn) ws (rs, snd st)))"

definition undo_write :: "xid \<Rightarrow> string \<times> row_data option \<Rightarrow> paged_row_store \<Rightarrow> paged_row_store option" where
  "undo_write x e rs =
     (case snd e of
        Some d \<Rightarrow> store_insert rs x (fst e) d
      | None \<Rightarrow> Some (snd (store_delete rs x (fst e))))"

definition rollback_connection ::
  "string \<Rightarrow> paged_row_store \<times> undo_log \<Rightarrow> (paged_row_store \<times> undo_log) option" where
  "rollback_connection conn st =
     (let entries = undo_entries (snd st) conn; log = (snd st)(conn := None)
      in if entries = [] then Some (fst st, log)
         else let (x, rs) = begin_xid (fst st)
              in map_option (\<lambda>rs. (release_write_intents rs x, log)) (fold_opt (undo_write x) (rev entries) rs))"

section \<open>Write sets across restarts\<close>

record persisted_write_set =
  pw_tx_id :: string
  pw_written_keys :: "string list"
  pw_read_keys :: "string list"
  pw_committed_at :: nat

definition max_persisted_write_sets :: nat where
  "max_persisted_write_sets = 1000"

definition persist_committed_write_sets :: "acid_registry \<Rightarrow> persisted_write_set list" where
  "persist_committed_write_sets reg =
     (let entries =
        map (\<lambda>e. \<lparr>pw_tx_id = tx_transaction_id e, pw_written_keys = tx_written_row_keys e,
                  pw_read_keys = tx_read_row_keys e,
                  pw_committed_at = (case tx_completed_at e of Some t \<Rightarrow> t | None \<Rightarrow> 0)\<rparr>)
          (filter (\<lambda>e. tx_isolation_level e = ''serializable'' \<and> tx_state e = TxCommitted \<and>
                       tx_written_row_keys e \<noteq> []) (map snd reg));
          sorted = sort_key pw_committed_at entries
      in drop (length sorted - max_persisted_write_sets) sorted)"

definition restored_entry :: "persisted_write_set \<Rightarrow> acid_tx_entry" where
  "restored_entry ws =
     \<lparr>tx_transaction_id = pw_tx_id ws, tx_assigned_node_id = ''restored'', tx_state = TxCommitted,
      tx_isolation_level = ''serializable'', tx_started_at = pw_committed_at ws,
      tx_completed_at = Some (pw_committed_at ws), tx_statement_count = 0, tx_affected_tables = [],
      tx_savepoints = [], tx_read_snapshot_at = None, tx_wal_log = [], tx_row_store_snapshot_xid = None,
      tx_written_row_keys = pw_written_keys ws, tx_read_row_keys = pw_read_keys ws\<rparr>"

definition restore_write_sets :: "persisted_write_set list \<Rightarrow> acid_registry \<Rightarrow> acid_registry" where
  "restore_write_sets sets reg = fold (\<lambda>ws. AList.update (pw_tx_id ws) (restored_entry ws)) sets reg"

section \<open>The registry as a transition system\<close>

text \<open>
  Every registry operation the service uses, in any order and for any transaction. The second
  component collects the transactions that went through the commit of the transaction endpoint; the
  statement endpoint and the administration commit without validation.
\<close>

inductive acid_step :: "acid_registry \<times> string set \<Rightarrow> acid_registry \<times> string set \<Rightarrow> bool" where
  acid_step_begin: "map_of reg tx = None \<Longrightarrow> acid_step (reg, V) (acid_begin tx node lvl now snap reg, V)"
| acid_step_snapshot: "acid_step (reg, V) (set_row_store_snapshot tx x reg, V)"
| acid_step_commit: "acid_step (reg, V) (snd (acid_commit tx now reg), V)"
| acid_step_rollback: "acid_step (reg, V) (snd (acid_rollback tx now reg), V)"
| acid_step_savepoint: "acid_step (reg, V) (snd (add_savepoint tx sp reg), V)"
| acid_step_release: "acid_step (reg, V) (snd (release_savepoint tx sp reg), V)"
| acid_step_rollback_to: "acid_step (reg, V) (snd (rollback_to_savepoint tx sp reg), V)"
| acid_step_statement: "acid_step (reg, V) (record_statement tx tbl reg, V)"
| acid_step_reads: "acid_step (reg, V) (record_read_row_keys tx keys reg, V)"
| acid_step_reassign: "acid_step (reg, V) (snd (reassign_active_node source target reg), V)"
| acid_step_validated:
    "commit_validated rs lvl tx written now reg = (r, reg') \<Longrightarrow>
     acid_step (reg, V) (reg', if r = Ok () \<and> is_active reg tx then insert tx V else V)"

inductive_cases acid_stepE: "acid_step s t"

text \<open>
  A step that leaves the key sets of committed transactions alone: entries keep their level and
  written keys, new entries start empty, finished transactions keep their state.
\<close>

definition quiet :: "acid_registry \<Rightarrow> acid_registry \<Rightarrow> bool" where
  "quiet reg reg' \<longleftrightarrow>
     (\<forall>i e'. map_of reg' i = Some e' \<longrightarrow>
        map_of reg i = None \<and> tx_state e' = TxActive \<and> tx_written_row_keys e' = [] \<or>
        (\<exists>e. map_of reg i = Some e \<and> tx_isolation_level e' = tx_isolation_level e \<and>
           tx_written_row_keys e' = tx_written_row_keys e \<and>
           (tx_state e \<noteq> TxActive \<longrightarrow> tx_state e' = tx_state e \<and> tx_completed_at e' = tx_completed_at e \<and>
              tx_read_row_keys e' = tx_read_row_keys e))) \<and>
     (\<forall>i e. map_of reg i = Some e \<longrightarrow> map_of reg' i \<noteq> None)"

text \<open>What certification keeps: validated serializable transactions do not touch each other's keys.\<close>

definition apart :: "acid_tx_entry \<Rightarrow> acid_tx_entry \<Rightarrow> bool" where
  "apart e f \<longleftrightarrow>
     set (tx_written_row_keys e) \<inter> set (tx_written_row_keys f) = {} \<and>
     set (tx_read_row_keys e) \<inter> set (tx_written_row_keys f) = {} \<and>
     set (tx_written_row_keys e) \<inter> set (tx_read_row_keys f) = {}"

definition certified :: "acid_registry \<times> string set \<Rightarrow> bool" where
  "certified s \<longleftrightarrow>
     (\<forall>i e. map_of (fst s) i = Some e \<longrightarrow> tx_state e = TxActive \<longrightarrow> tx_written_row_keys e = []) \<and>
     (\<forall>i\<in>snd s. \<exists>e. map_of (fst s) i = Some e \<and> tx_state e = TxCommitted) \<and>
     (\<forall>i\<in>snd s. \<forall>j\<in>snd s. i \<noteq> j \<longrightarrow> (\<forall>e f. map_of (fst s) i = Some e \<longrightarrow> map_of (fst s) j = Some f \<longrightarrow>
        tx_isolation_level e = ''serializable'' \<longrightarrow> tx_isolation_level f = ''serializable'' \<longrightarrow> apart e f))"

section \<open>Lemmas on the registry\<close>

lemma map_of_modify_tx [simp]:
  "map_of (modify_tx tx f reg) i = (if i = tx then map_option f (map_of reg tx) else map_of reg i)"
  by (auto simp: modify_tx_def split: option.split)

lemma quiet_refl: "(\<And>i e. map_of reg i = Some e \<Longrightarrow> True) \<Longrightarrow> quiet reg reg"
  by (auto simp: quiet_def)

lemma quiet_modify:
  assumes "\<And>e. tx_isolation_level (f e) = tx_isolation_level e"
    and "\<And>e. tx_written_row_keys (f e) = tx_written_row_keys e"
    and "\<And>e. map_of reg tx = Some e \<Longrightarrow> tx_state e \<noteq> TxActive \<Longrightarrow>
      tx_state (f e) = tx_state e \<and> tx_completed_at (f e) = tx_completed_at e \<and> tx_read_row_keys (f e) = tx_read_row_keys e"
  shows "quiet reg (modify_tx tx f reg)"
  using assms by (auto simp: quiet_def)

lemma modify_tx_update: "map_of reg tx = Some e \<Longrightarrow> AList.update tx (f e) reg = modify_tx tx f reg"
  by (simp add: modify_tx_def)

lemma quiet_update:
  assumes "map_of reg tx = Some e" and "tx_isolation_level e' = tx_isolation_level e"
    and "tx_written_row_keys e' = tx_written_row_keys e" and "tx_state e = TxActive"
  shows "quiet reg (AList.update tx e' reg)"
  using assms by (auto simp: quiet_def)

lemma quiet_finish:
  "quiet reg (snd (finish_tx st tx now reg))"
proof (cases "is_active reg tx")
  case True
  then show ?thesis
    by (auto simp: finish_tx_def is_active_def split: option.splits intro!: quiet_modify)
next
  case False
  then show ?thesis by (simp add: finish_tx_def quiet_refl)
qed

lemma quiet_begin: "map_of reg tx = None \<Longrightarrow> quiet reg (acid_begin tx node lvl now snap reg)"
  by (auto simp: quiet_def acid_begin_def)

lemma quiet_savepoints:
  "quiet reg (snd (add_savepoint tx sp reg))"
  "quiet reg (snd (release_savepoint tx sp reg))"
  "quiet reg (snd (rollback_to_savepoint tx sp reg))"
  by (auto simp: add_savepoint_def release_savepoint_def rollback_to_savepoint_def is_active_def quiet_refl
      split: option.split intro!: quiet_modify quiet_update)

lemma quiet_records:
  "quiet reg (set_row_store_snapshot tx x reg)"
  "quiet reg (record_statement tx tbl reg)"
  "quiet reg (record_read_row_keys tx keys reg)"
  unfolding set_row_store_snapshot_def record_statement_def record_read_row_keys_def Let_def
  by (rule quiet_modify; simp)+

lemma quiet_reassign: "quiet reg (snd (reassign_active_node source target reg))"
proof -
  have "map_of (map (\<lambda>x. (fst x, f (snd x))) reg) i = map_option f (map_of reg i)" for f :: "acid_tx_entry \<Rightarrow> acid_tx_entry" and i
    by (induction reg) auto
  then have m: "map_of (snd (reassign_active_node source target reg)) i =
      map_option (\<lambda>e. if tx_state e = TxActive \<and> tx_assigned_node_id e = source
        then e\<lparr>tx_assigned_node_id := target\<rparr> else e) (map_of reg i)" for i
    by (simp add: reassign_active_node_def Let_def)
  show ?thesis by (auto simp: quiet_def m)
qed

lemma set_fold_insert [simp]: "set (fold List.insert xs ys) = set xs \<union> set ys"
  by (induction xs arbitrary: ys) auto

lemma committed_peers_iff:
  assumes "map_of reg j = Some f" and "j \<noteq> tx" and "tx_isolation_level f = level" and "tx_state f = TxCommitted"
  shows "f \<in> set (committed_peers reg tx level)"
  using map_of_SomeD [OF assms(1)] assms(2-) by (force simp: committed_peers_def)

text \<open>A validation without conflict separates the transaction from every committed serializable one.\<close>

lemma commit_conflict_None:
  assumes "commit_conflict rs lvl tx written reg = None"
    and "map_of reg j = Some f" and "j \<noteq> tx"
    and "tx_isolation_level f = ''serializable''" and "tx_state f = TxCommitted"
  shows "set written \<inter> set (tx_written_row_keys f) = {}"
    and "set written \<inter> set (tx_read_row_keys f) = {}"
    and "map_of reg tx = Some e \<Longrightarrow> set (tx_read_row_keys e) \<inter> set (tx_written_row_keys f) = {}"
proof -
  have peer: "f \<in> set (committed_peers reg tx ''serializable'')" by (rule committed_peers_iff [OF assms(2-)])
  have ww: "check_serializable_conflict_row_level reg tx written = None"
    and rw: "check_serializable_rw_conflict reg tx written
        (case map_of reg tx of Some e \<Rightarrow> tx_read_row_keys e | None \<Rightarrow> []) = None"
    using assms(1) by (auto simp: commit_conflict_def split: option.splits if_splits)
  show "set written \<inter> set (tx_written_row_keys f) = {}"
    using ww peer
    by (auto simp: check_serializable_conflict_row_level_def first_some_None find_None_iff split: if_splits)
  show "set written \<inter> set (tx_read_row_keys f) = {}"
    and "map_of reg tx = Some e \<Longrightarrow> set (tx_read_row_keys e) \<inter> set (tx_written_row_keys f) = {}"
    using rw peer
    by (auto simp: check_serializable_rw_conflict_def first_some_None find_None_iff split: option.splits)
qed

lemma quietD:
  assumes "quiet reg reg'" and "map_of reg' i = Some e'"
  shows "map_of reg i = None \<and> tx_state e' = TxActive \<and> tx_written_row_keys e' = [] \<or>
    (\<exists>e. map_of reg i = Some e \<and> tx_isolation_level e' = tx_isolation_level e \<and>
       tx_written_row_keys e' = tx_written_row_keys e \<and>
       (tx_state e \<noteq> TxActive \<longrightarrow> tx_state e' = tx_state e \<and> tx_completed_at e' = tx_completed_at e \<and>
          tx_read_row_keys e' = tx_read_row_keys e))"
  using assms unfolding quiet_def by blast

lemma quiet_finished:
  assumes "quiet reg reg'" and "map_of reg i = Some e" and "tx_state e \<noteq> TxActive"
  shows "\<exists>e'. map_of reg' i = Some e' \<and> tx_isolation_level e' = tx_isolation_level e \<and>
    tx_written_row_keys e' = tx_written_row_keys e \<and> tx_read_row_keys e' = tx_read_row_keys e \<and>
    tx_state e' = tx_state e \<and> tx_completed_at e' = tx_completed_at e"
proof -
  obtain e' where e': "map_of reg' i = Some e'"
    using assms(1,2) unfolding quiet_def by blast
  with quietD [OF assms(1) e'] assms(2,3) show ?thesis by auto
qed

lemma certifiedD:
  assumes "certified (reg, V)"
  shows "map_of reg i = Some e \<Longrightarrow> tx_state e = TxActive \<Longrightarrow> tx_written_row_keys e = []"
    and "i \<in> V \<Longrightarrow> \<exists>e. map_of reg i = Some e \<and> tx_state e = TxCommitted"
    and "i \<in> V \<Longrightarrow> j \<in> V \<Longrightarrow> i \<noteq> j \<Longrightarrow> map_of reg i = Some e \<Longrightarrow> map_of reg j = Some f \<Longrightarrow>
      tx_isolation_level e = ''serializable'' \<Longrightarrow> tx_isolation_level f = ''serializable'' \<Longrightarrow> apart e f"
  using assms unfolding certified_def fst_conv snd_conv by blast+

lemma certifiedI:
  assumes "\<And>i e. map_of reg i = Some e \<Longrightarrow> tx_state e = TxActive \<Longrightarrow> tx_written_row_keys e = []"
    and "\<And>i. i \<in> V \<Longrightarrow> \<exists>e. map_of reg i = Some e \<and> tx_state e = TxCommitted"
    and "\<And>i j e f. i \<in> V \<Longrightarrow> j \<in> V \<Longrightarrow> i \<noteq> j \<Longrightarrow> map_of reg i = Some e \<Longrightarrow> map_of reg j = Some f \<Longrightarrow>
      tx_isolation_level e = ''serializable'' \<Longrightarrow> tx_isolation_level f = ''serializable'' \<Longrightarrow> apart e f"
  shows "certified (reg, V)"
  using assms unfolding certified_def fst_conv snd_conv by blast

lemma apart_sym: "apart e f \<Longrightarrow> apart f e"
  by (auto simp: apart_def)

lemma certified_quiet:
  assumes "certified (reg, V)" and "quiet reg reg'"
  shows "certified (reg', V)"
proof (rule certifiedI)
  fix i e' assume "map_of reg' i = Some e'" "tx_state e' = TxActive"
  then show "tx_written_row_keys e' = []"
    using quietD [OF assms(2)] certifiedD(1) [OF assms(1)] by metis
next
  fix i assume "i \<in> V"
  from certifiedD(2) [OF assms(1) this] obtain e where "map_of reg i = Some e" "tx_state e = TxCommitted"
    by blast
  with quiet_finished [OF assms(2), of i e] show "\<exists>e. map_of reg' i = Some e \<and> tx_state e = TxCommitted"
    by auto
next
  fix i j e f
  assume ij: "i \<in> V" "j \<in> V" "i \<noteq> j" and e: "map_of reg' i = Some e" and f: "map_of reg' j = Some f"
    and ser: "tx_isolation_level e = ''serializable''" "tx_isolation_level f = ''serializable''"
  obtain e0 f0 where 0: "map_of reg i = Some e0" "tx_state e0 = TxCommitted"
      "map_of reg j = Some f0" "tx_state f0 = TxCommitted"
    using certifiedD(2) [OF assms(1)] ij by blast
  with quiet_finished [OF assms(2), of i e0] quiet_finished [OF assms(2), of j f0] e f
  have same: "tx_isolation_level e = tx_isolation_level e0" "tx_isolation_level f = tx_isolation_level f0"
      "tx_written_row_keys e = tx_written_row_keys e0" "tx_read_row_keys e = tx_read_row_keys e0"
      "tx_written_row_keys f = tx_written_row_keys f0" "tx_read_row_keys f = tx_read_row_keys f0" by auto
  with certifiedD(3) [OF assms(1) ij 0(1,3)] ser have "apart e0 f0" by simp
  with same show "apart e f" by (simp add: apart_def)
qed

text \<open>The registry after a validated commit, entry by entry.\<close>

lemma commit_recorded_entry:
  "map_of (snd (acid_commit tx now (record_written_row_keys tx written reg))) i =
     (case map_of reg i of
        None \<Rightarrow> None
      | Some e \<Rightarrow>
          if i \<noteq> tx then Some e
          else let e1 = e\<lparr>tx_written_row_keys := fold List.insert written (tx_written_row_keys e)\<rparr>
               in Some (if tx_state e = TxActive
                        then e1\<lparr>tx_state := TxCommitted, tx_completed_at := Some now, tx_wal_log := []\<rparr> else e1))"
  by (auto simp: acid_commit_def finish_tx_def is_active_def record_written_row_keys_def Let_def
      split: option.splits)

lemma certified_commit:
  assumes c: "certified (reg, V)" and none: "commit_conflict rs lvl tx written reg = None"
  shows "certified (snd (acid_commit tx now (record_written_row_keys tx written reg)),
    if is_active reg tx then insert tx V else V)"
proof -
  let ?reg = "snd (acid_commit tx now (record_written_row_keys tx written reg))"
  let ?V = "if is_active reg tx then insert tx V else V"
  note entry = commit_recorded_entry [of tx now written reg]
  have inV: "i \<in> V" if "i \<in> ?V" "i \<noteq> tx" for i using that by (auto split: if_splits)
  have txE: "\<exists>e0. map_of reg tx = Some e0 \<and> tx_read_row_keys e = tx_read_row_keys e0 \<and>
      tx_isolation_level e = tx_isolation_level e0 \<and>
      set (tx_written_row_keys e) = set written \<union> set (tx_written_row_keys e0) \<and>
      (tx_state e0 = TxActive \<or> tx \<in> V)"
    if "tx \<in> ?V" "map_of ?reg tx = Some e" for e
    using that entry [of tx] certifiedD(2) [OF c, of tx]
    by (auto simp: is_active_def Let_def split: option.splits if_splits)
  have tx_apart: "apart e f" if "tx \<in> ?V" "map_of ?reg tx = Some e" "j \<in> V" "j \<noteq> tx" "map_of ?reg j = Some f"
      "tx_isolation_level e = ''serializable''" "tx_isolation_level f = ''serializable''" for e f j
  proof -
    from txE [OF that(1,2)] obtain e0 where e0: "map_of reg tx = Some e0"
      "tx_read_row_keys e = tx_read_row_keys e0" "tx_isolation_level e = tx_isolation_level e0"
      "set (tx_written_row_keys e) = set written \<union> set (tx_written_row_keys e0)"
      "tx_state e0 = TxActive \<or> tx \<in> V" by blast
    have f: "map_of reg j = Some f" using entry [of j] that(4,5) by (auto split: option.splits)
    then have fc: "tx_state f = TxCommitted" using certifiedD(2) [OF c that(3)] by auto
    note sep = commit_conflict_None [OF none f that(4) that(7) fc]
    have "tx_written_row_keys e0 = [] \<or> apart e0 f"
      using e0(5) certifiedD(1) [OF c e0(1)] certifiedD(3) [OF c _ that(3) that(4) [symmetric] e0(1) f] that(6,7) e0(3)
      by auto
    with sep(1,2) sep(3) [OF e0(1)] e0(2,4) show ?thesis by (auto simp: apart_def)
  qed
  show ?thesis
  proof (rule certifiedI)
    fix i e assume e: "map_of ?reg i = Some e" "tx_state e = TxActive"
    then have "map_of reg i = Some e"
      using entry [of i] by (auto simp: Let_def split: option.splits if_splits)
    then show "tx_written_row_keys e = []" using e(2) certifiedD(1) [OF c] by blast
  next
    fix i assume "i \<in> ?V"
    then show "\<exists>e. map_of ?reg i = Some e \<and> tx_state e = TxCommitted"
      using entry [of i] certifiedD(2) [OF c, of i]
      by (auto simp: is_active_def Let_def split: option.splits if_splits)
  next
    fix i j e f
    assume ij: "i \<in> ?V" "j \<in> ?V" "i \<noteq> j" and e: "map_of ?reg i = Some e" and f: "map_of ?reg j = Some f"
      and ser: "tx_isolation_level e = ''serializable''" "tx_isolation_level f = ''serializable''"
    consider "i = tx" | "j = tx" | "i \<noteq> tx" "j \<noteq> tx" by blast
    then show "apart e f"
    proof cases
      case 1
      with ij e f ser tx_apart inV show ?thesis by blast
    next
      case 2
      with ij e f ser tx_apart [of f i e] inV [of i] show ?thesis by (blast intro: apart_sym)
    next
      case 3
      then have "map_of reg i = Some e" "map_of reg j = Some f"
        using entry [of i] entry [of j] e f by (auto split: option.splits)
      then show ?thesis using certifiedD(3) [OF c] inV ij ser 3 by blast
    qed
  qed
qed

lemma acid_step_quiet:
  assumes "acid_step (reg, V) (reg', V')"
  obtains (quiet) "quiet reg reg'" "V' = V"
    | (validated) rs lvl tx written now where "commit_conflict rs lvl tx written reg = None"
        "reg' = snd (acid_commit tx now (record_written_row_keys tx written reg))"
        "V' = (if is_active reg tx then insert tx V else V)"
  using assms
proof (cases rule: acid_step.cases)
  case (acid_step_validated rs lvl tx written now r)
  show ?thesis
  proof (cases "commit_conflict rs lvl tx written reg")
    case None
    with acid_step_validated show ?thesis by (intro validated [OF None]) (auto simp: commit_validated_def)
  next
    case (Some reason)
    with acid_step_validated show ?thesis
      by (intro quiet) (auto simp: commit_validated_def acid_rollback_def quiet_finish)
  qed
qed (auto intro!: that(1) quiet_begin quiet_records quiet_savepoints quiet_reassign
    simp: acid_commit_def acid_rollback_def quiet_finish)

lemma certified_step:
  assumes "certified s" and "acid_step s t"
  shows "certified t"
proof -
  obtain reg V reg' V' where st: "s = (reg, V)" "t = (reg', V')" by (cases s, cases t) auto
  from assms(2) [unfolded st] show ?thesis
  proof (cases rule: acid_step_quiet)
    case quiet
    then show ?thesis using certified_quiet assms(1) st by blast
  next
    case (validated rs lvl tx written now)
    with certified_commit [OF assms(1) [unfolded st] validated(1)] show ?thesis by (simp add: st)
  qed
qed

lemma certified_init: "certified ([], {})"
  by (simp add: certified_def)

interpretation acid_inv: invariant_system "\<lambda>s. s = ([], {})" acid_step certified
proof
  show "s = ([], {}) \<Longrightarrow> certified s" for s by (simp add: certified_init)
  show "certified s \<Longrightarrow> acid_step s t \<Longrightarrow> certified t" for s t by (rule certified_step)
qed

section \<open>Lemmas on savepoints\<close>

text \<open>The savepoint name, in lower case, that a savepoint statement mentions.\<close>

definition statement_savepoint :: "string \<Rightarrow> string option" where
  "statement_savepoint stmt =
     map_option to_lowercase
       (case classify_statement stmt of
          SkSavepoint \<Rightarrow> nth_opt (split_ascii_whitespace stmt) 1
        | SkReleaseSavepoint \<Rightarrow> nth_opt (split_ascii_whitespace stmt) 2
        | SkRollbackToSavepoint \<Rightarrow> rollback_target stmt
        | _ \<Rightarrow> None)"

lemma set_remove_at: "set (remove_at i xs) \<subseteq> set xs"
  using set_take_subset set_drop_subset by (fastforce simp: remove_at_def)

lemma savepoint_step_cases:
  obtains (same) "savepoint_step stmt (A, S) = (A, S)"
    | (apply_stmt) "savepoint_step stmt (A, S) = (A @ [stmt], S)"
    | (savepoint) n where "statement_savepoint stmt = Some n"
        "savepoint_step stmt (A, S) = (A, S @ [(n, length A)])"
    | (release) n pos where "statement_savepoint stmt = Some n" "rposition (\<lambda>p. fst p = n) S = Some pos"
        "savepoint_step stmt (A, S) = (A, remove_at pos S)"
    | (rollback_to) n pos where "statement_savepoint stmt = Some n" "rposition (\<lambda>p. fst p = n) S = Some pos"
        "savepoint_step stmt (A, S) = (take (snd (S ! pos)) A, take (pos + 1) S)"
proof (cases "classify_statement stmt = SkSavepoint \<or> classify_statement stmt = SkReleaseSavepoint \<or>
      classify_statement stmt = SkRollbackToSavepoint")
  case False
  then have "savepoint_step stmt (A, S) = (A, S) \<or> savepoint_step stmt (A, S) = (A @ [stmt], S)"
    by (cases "classify_statement stmt") (simp_all add: savepoint_step_def)
  with same apply_stmt show ?thesis by blast
next
  case True
  show ?thesis
  proof (cases "statement_savepoint stmt")
    case None
    with True have "savepoint_step stmt (A, S) = (A, S)"
      by (elim disjE) (simp_all add: savepoint_step_def statement_savepoint_def)
    with same show ?thesis by blast
  next
    case (Some n)
    show ?thesis
    proof (cases "classify_statement stmt = SkSavepoint")
      case True
      with Some have "savepoint_step stmt (A, S) = (A, S @ [(n, length A)])"
        by (auto simp: savepoint_step_def statement_savepoint_def)
      with Some savepoint show ?thesis by blast
    next
      case False
      show ?thesis
      proof (cases "rposition (\<lambda>p. fst p = n) S")
        case None
        with Some True False have "savepoint_step stmt (A, S) = (A, S)"
          by (elim disjE) (auto simp: savepoint_step_def statement_savepoint_def)
        with same show ?thesis by blast
      next
        case pos: (Some pos)
        from Some True False pos have "savepoint_step stmt (A, S) = (A, remove_at pos S) \<or>
            savepoint_step stmt (A, S) = (take (snd (S ! pos)) A, take (pos + 1) S)"
          by (elim disjE) (auto simp: savepoint_step_def statement_savepoint_def)
        with Some pos release rollback_to show ?thesis by blast
      qed
    qed
  qed
qed

lemma savepoint_names_step:
  "fst ` set (snd (savepoint_step stmt (A, S))) \<subseteq> fst ` set S \<union> set_option (statement_savepoint stmt)"
proof (cases rule: savepoint_step_cases [of stmt A S])
  case (release n pos)
  then show ?thesis using set_remove_at [of pos S] by auto
next
  case (rollback_to n pos)
  then show ?thesis using set_take_subset [of "pos + 1" S] by auto
qed auto

lemma savepoint_names:
  "fst ` set (snd (fold savepoint_step stmts st)) \<subseteq>
     fst ` set (snd st) \<union> {n. \<exists>s\<in>set stmts. statement_savepoint s = Some n}"
proof (induction stmts arbitrary: st)
  case (Cons s stmts)
  from Cons [of "savepoint_step s st"] savepoint_names_step [of s "fst st" "snd st"] show ?case by auto
qed simp

text \<open>
  Below a savepoint, statements that mention none of the names in use change only what lies above
  it.
\<close>

definition above :: "string list \<Rightarrow> (string \<times> nat) list \<Rightarrow> savepoint_state \<Rightarrow> bool" where
  "above A S st \<longleftrightarrow> (\<exists>X Y. st = (A @ X, S @ Y) \<and> (\<forall>p\<in>set Y. length A \<le> snd p \<and> fst p \<notin> fst ` set S))"

lemma above_step:
  assumes "above A S st" and "\<forall>n. statement_savepoint stmt = Some n \<longrightarrow> n \<notin> fst ` set S"
  shows "above A S (savepoint_step stmt st)"
proof -
  obtain X Y where st: "st = (A @ X, S @ Y)" and Y: "\<forall>p\<in>set Y. length A \<le> snd p \<and> fst p \<notin> fst ` set S"
    using assms(1) by (auto simp: above_def)
  have keep: "above A S (A @ X', S @ Y')" if "set Y' \<subseteq> set Y" for X' Y'
    using that Y by (auto simp: above_def)
  have pos: "rposition (\<lambda>p. fst p = n) (S @ Y) =
      (case rposition (\<lambda>p. fst p = n) Y of Some i \<Rightarrow> Some (length S + i) | None \<Rightarrow> None)" if "n \<notin> fst ` set S" for n
    by (rule rposition_append) (use that in auto)
  have self: "above A S (A @ X', S @ Y)" for X' using keep [of Y] by simp
  show ?thesis unfolding st
  proof (cases rule: savepoint_step_cases [of stmt "A @ X" "S @ Y"])
    case same
    then show "above A S (savepoint_step stmt (A @ X, S @ Y))" using self by simp
  next
    case apply_stmt
    then show "above A S (savepoint_step stmt (A @ X, S @ Y))" using self [of "X @ [stmt]"] by simp
  next
    case (savepoint n)
    then show "above A S (savepoint_step stmt (A @ X, S @ Y))"
      using Y assms(2) by (auto simp: above_def)
  next
    case (release n p)
    with pos [of n] assms(2) obtain i where "p = length S + i" by (auto split: option.splits)
    then have "remove_at p (S @ Y) = S @ remove_at i Y" by (simp add: remove_at_def)
    with release show "above A S (savepoint_step stmt (A @ X, S @ Y))" using keep [OF set_remove_at] by simp
  next
    case (rollback_to n p)
    with pos [of n] assms(2) obtain i where i: "p = length S + i" "rposition (\<lambda>p. fst p = n) Y = Some i"
      by (auto split: option.splits)
    have "length A \<le> snd (Y ! i)" using rposition_Some [OF i(2)] Y nth_mem by blast
    then have "take (snd ((S @ Y) ! p)) (A @ X) = A @ take (snd (Y ! i) - length A) X" using i(1) by simp
    moreover have "take (p + 1) (S @ Y) = S @ take (i + 1) Y" using i(1) by simp
    ultimately show "above A S (savepoint_step stmt (A @ X, S @ Y))"
      using rollback_to(3) keep [OF set_take_subset] by simp
  qed
qed

lemma above_run:
  assumes "above A S st" and "\<forall>s\<in>set body. \<forall>n. statement_savepoint s = Some n \<longrightarrow> n \<notin> fst ` set S"
  shows "above A S (fold savepoint_step body st)"
  using assms by (induction body arbitrary: st) (simp_all add: above_step)

section \<open>Lemmas on the undo log\<close>

text \<open>A store without a row cap whose versions all carry allocated transaction ids.\<close>

definition xids_allocated :: "paged_row_store \<Rightarrow> bool" where
  "xids_allocated rs \<longleftrightarrow> (\<forall>k. \<forall>v\<in>set (history rs k). rv_xid v < next_xid rs)"

definition undo_wf :: "paged_row_store \<Rightarrow> bool" where
  "undo_wf rs \<longleftrightarrow> unbounded_wf rs \<and> xids_allocated rs"

lemma chain_visible_all:
  assumes "\<forall>v\<in>set vs. rv_xid v \<le> m" and "m \<le> n"
  shows "chain_visible vs n = chain_visible vs m"
  using assms by (induction vs rule: rev_induct) (auto simp: chain_visible_snoc)

lemma read_latest_history: "undo_wf rs \<Longrightarrow> read_latest rs k = chain_visible (history rs k) (next_xid rs - 1)"
  by (simp add: undo_wf_def read_latest_def paged.read_law)

text \<open>Changing only counters and intents keeps the invariant and the rows.\<close>

lemma undo_wf_fields:
  assumes "undo_wf rs" and "pages t = pages rs" and "page_size t = page_size rs"
    and "next_page_id t = next_page_id rs" and "max_rows_cap t = max_rows_cap rs" and "next_xid rs \<le> next_xid t"
  shows "undo_wf t" and "read_latest t k = read_latest rs k"
proof -
  have h: "history t = history rs" by (rule history_cong [OF assms(2)])
  have "next_xid rs > 0" using assms(1) by (simp add: undo_wf_def unbounded_wf_def store_wf_def)
  then have "store_wf t"
    using assms by (intro store_wf_cong [of rs t]) (auto simp: undo_wf_def unbounded_wf_def)
  with assms(1,5,6) show wf: "undo_wf t"
    by (fastforce simp: undo_wf_def unbounded_wf_def xids_allocated_def h)
  have "\<forall>v\<in>set (history rs k). rv_xid v \<le> next_xid rs - 1"
    using assms(1) by (fastforce simp: undo_wf_def xids_allocated_def)
  with chain_visible_all [of "history rs k" "next_xid rs - 1" "next_xid t - 1"] assms(6)
  show "read_latest t k = read_latest rs k"
    by (simp add: read_latest_history [OF wf] read_latest_history [OF assms(1)] h)
qed

lemma begin_xid_undo_wf:
  assumes "undo_wf rs" and "begin_xid rs = (x, t)"
  shows "undo_wf t" "read_latest t k = read_latest rs k" "x < next_xid t"
  using undo_wf_fields [OF assms(1), of t] assms(2) by (auto simp: begin_xid_def)

lemma intents_undo_wf:
  assumes "undo_wf rs"
  shows "undo_wf (snd (begin_write_intent rs x k))" "read_latest (snd (begin_write_intent rs x k)) j = read_latest rs j"
    "undo_wf (release_write_intents rs x)" "read_latest (release_write_intents rs x) j = read_latest rs j"
    "next_xid (snd (begin_write_intent rs x k)) = next_xid rs" "next_xid (release_write_intents rs x) = next_xid rs"
proof -
  let ?b = "snd (begin_write_intent rs x k)" and ?r = "release_write_intents rs x"
  have b: "pages ?b = pages rs" "page_size ?b = page_size rs" "next_page_id ?b = next_page_id rs"
    "max_rows_cap ?b = max_rows_cap rs" and nb: "next_xid ?b = next_xid rs"
    by (simp_all add: begin_write_intent_def split: option.split)
  have r: "pages ?r = pages rs" "page_size ?r = page_size rs" "next_page_id ?r = next_page_id rs"
    "max_rows_cap ?r = max_rows_cap rs" and nr: "next_xid ?r = next_xid rs"
    by (simp_all add: release_write_intents_def)
  show "undo_wf ?b" "read_latest ?b j = read_latest rs j" "next_xid ?b = next_xid rs"
    using undo_wf_fields [OF assms b] nb by simp_all
  show "undo_wf ?r" "read_latest ?r j = read_latest rs j" "next_xid ?r = next_xid rs"
    using undo_wf_fields [OF assms r] nr by simp_all
qed

lemma put_undo_wf:
  assumes "undo_wf rs" and "x < next_xid rs"
  shows "\<exists>t. store_insert rs x k d = Some t \<and> undo_wf t \<and> next_xid t = next_xid rs \<and>
    (\<forall>j. read_latest t j = (if j = k then Some d else read_latest rs j))"
proof -
  obtain t where t: "store_insert rs x k d = Some t" "unbounded_wf t" "history t = spec_put x k d (history rs)"
    using paged.put_law [of rs x k d] assms(1) by (auto simp: undo_wf_def)
  have n: "next_xid t = next_xid rs" by (rule store_insert_fields(2) [OF t(1)])
  have wf: "undo_wf t"
    using assms t(2,3) n by (auto simp: undo_wf_def xids_allocated_def spec_put_def)
  have "x \<le> next_xid rs - 1" using assms(2) by simp
  then have "read_latest t j = (if j = k then Some d else read_latest rs j)" for j
    by (simp add: read_latest_history [OF wf] read_latest_history [OF assms(1)] t(3) n spec_put_def
        chain_visible_snoc)
  with t(1) wf n show ?thesis by blast
qed

lemma del_undo_wf:
  assumes "undo_wf rs" and "x < next_xid rs" and t_def: "t = snd (store_delete rs x k)"
  shows "undo_wf t \<and> next_xid t = next_xid rs \<and>
    (\<forall>j. read_latest t j = (if j = k then None else read_latest rs j))"
proof -
  have law: "unbounded_wf t" "history t = spec_del x k (history rs)"
    using paged.del_law [of rs x k] assms(1) by (auto simp: undo_wf_def t_def)
  have n: "next_xid t = next_xid rs"
    using store_delete_law [of rs x k] assms(1) by (auto simp: t_def undo_wf_def unbounded_wf_def prod_eq_iff)
  have wf: "undo_wf t"
    using assms(1,2) law n by (auto simp: undo_wf_def xids_allocated_def spec_del_def)
  have "x \<le> next_xid rs - 1" using assms(2) by simp
  then have "read_latest t j = (if j = k then None else read_latest rs j)" for j
    by (simp add: read_latest_history [OF wf] read_latest_history [OF assms(1)] law(2) n spec_del_def
        chain_visible_snoc)
  with wf n show ?thesis by blast
qed

text \<open>The log holds, for every key written since, the value the key had first.\<close>

definition undo_covers :: "paged_row_store \<Rightarrow> paged_row_store \<Rightarrow> (string \<times> row_data option) list \<Rightarrow> bool" where
  "undo_covers rs0 rs es \<longleftrightarrow>
     (\<forall>k. read_latest rs0 k = (case find (\<lambda>e. fst e = k) es of Some e \<Rightarrow> snd e | None \<Rightarrow> read_latest rs k))"

lemma undo_covers_cong:
  assumes "undo_covers rs0 rs es" and "\<And>k. read_latest t k = read_latest rs k"
  shows "undo_covers rs0 t es"
  using assms(1) unfolding undo_covers_def assms(2) .

lemma undo_covers_write:
  assumes "undo_covers rs0 rs es" and "\<forall>j. j \<noteq> k \<longrightarrow> read_latest t j = read_latest rs j"
  shows "undo_covers rs0 t (es @ [(k, read_latest rs k)])"
  unfolding undo_covers_def
proof
  fix j
  show "read_latest rs0 j =
      (case find (\<lambda>e. fst e = j) (es @ [(k, read_latest rs k)]) of Some e \<Rightarrow> snd e | None \<Rightarrow> read_latest t j)"
    using assms by (auto simp: undo_covers_def find_append split: option.splits)
qed

lemma write_with_undo_covers:
  assumes "undo_wf rs" and "x < next_xid rs" and "undo_covers rs0 rs (undo_entries log conn)"
  shows "\<exists>t log'. write_with_undo x conn w (rs, log) = Some (t, log') \<and> undo_wf t \<and>
    next_xid t = next_xid rs \<and> undo_covers rs0 t (undo_entries log' conn)"
proof -
  let ?rs = "snd (begin_write_intent rs x (row_write_key w))"
  let ?log = "record_undo log conn (row_write_key w) (read_latest rs (row_write_key w))"
  note i = intents_undo_wf [OF assms(1)]
  have x: "x < next_xid ?rs" using assms(2) i(5) by simp
  have es: "undo_entries ?log conn =
      undo_entries log conn @ [(row_write_key w, read_latest rs (row_write_key w))]"
    by (simp add: record_undo_def undo_entries_def)
  have "\<exists>t. write_with_undo x conn w (rs, log) = Some (t, ?log) \<and> undo_wf t \<and> next_xid t = next_xid rs \<and>
      (\<forall>j. j \<noteq> row_write_key w \<longrightarrow> read_latest t j = read_latest rs j)"
  proof (cases w)
    case (RowPut k d)
    with put_undo_wf [OF i(1) x, of k d] i(2,5) show ?thesis
      by (auto simp: write_with_undo_def Let_def)
  next
    case (RowDel k)
    with del_undo_wf [OF i(1) x, of _ k] i(2,5) show ?thesis
      by (auto simp: write_with_undo_def Let_def)
  qed
  with undo_covers_write [OF assms(3)] es show ?thesis by metis
qed

lemma write_batch_covers:
  assumes "undo_wf rs" and "undo_covers rs0 rs (undo_entries log conn)"
  shows "\<exists>t log'. run_write_batch conn ws (rs, log) = Some (t, log') \<and> undo_wf t \<and>
    undo_covers rs0 t (undo_entries log' conn)"
proof -
  obtain x rs1 where b: "begin_xid rs = (x, rs1)" by fastforce
  note b' = begin_xid_undo_wf [OF assms(1) b]
  have "undo_covers rs0 rs1 (undo_entries log conn)"
    using assms(2) b'(2) by (rule undo_covers_cong)
  with b'(1,3) have "\<exists>t log'. fold_opt (write_with_undo x conn) ws (rs1, log) = Some (t, log') \<and>
      undo_wf t \<and> undo_covers rs0 t (undo_entries log' conn)"
  proof (induction ws arbitrary: rs1 log)
    case (Cons w ws)
    from write_with_undo_covers [OF Cons.prems, of w] Cons.IH show ?case
      using Cons.prems(2) by fastforce
  qed auto
  then obtain t log' where "fold_opt (write_with_undo x conn) ws (rs1, log) = Some (t, log')" "undo_wf t"
    "undo_covers rs0 t (undo_entries log' conn)" by blast
  moreover from this have "undo_covers rs0 (release_write_intents t x) (undo_entries log' conn)"
    by (blast intro: undo_covers_cong intents_undo_wf(4))
  ultimately show ?thesis
    using intents_undo_wf(3) [of t] by (simp add: run_write_batch_def b)
qed

lemma undo_write_read:
  assumes "undo_wf rs" and "x < next_xid rs"
  shows "\<exists>t. undo_write x e rs = Some t \<and> undo_wf t \<and> next_xid t = next_xid rs \<and>
    (\<forall>j. read_latest t j = (if j = fst e then snd e else read_latest rs j))"
proof (cases "snd e")
  case None
  with del_undo_wf [OF assms, of _ "fst e"] show ?thesis by (simp add: undo_write_def)
next
  case (Some d)
  show ?thesis unfolding undo_write_def Some option.case by (rule put_undo_wf [OF assms])
qed

lemma undo_all_read:
  assumes "undo_wf rs" and "x < next_xid rs"
  shows "\<exists>t. fold_opt (undo_write x) (rev es) rs = Some t \<and> undo_wf t \<and> next_xid t = next_xid rs \<and>
    (\<forall>j. read_latest t j = (case find (\<lambda>e. fst e = j) es of Some e \<Rightarrow> snd e | None \<Rightarrow> read_latest rs j))"
proof (induction es)
  case Nil
  show ?case using assms by simp
next
  case (Cons e es)
  then obtain t where t: "fold_opt (undo_write x) (rev es) rs = Some t" "undo_wf t" "next_xid t = next_xid rs"
    "\<forall>j. read_latest t j = (case find (\<lambda>e. fst e = j) es of Some e \<Rightarrow> snd e | None \<Rightarrow> read_latest rs j)" by blast
  from undo_write_read [OF t(2), of x e] assms(2) t(3) obtain u where
    u: "undo_write x e t = Some u" "undo_wf u" "next_xid u = next_xid rs"
    "\<forall>j. read_latest u j = (if j = fst e then snd e else read_latest t j)" by auto
  show ?case
  proof (intro exI conjI allI)
    show "fold_opt (undo_write x) (rev (e # es)) rs = Some u"
      using t(1) u(1) by (simp add: fold_opt_append)
  qed (use t u in \<open>auto split: option.splits\<close>)
qed

section \<open>Properties\<close>

lemma spec_write_commute:
  "op_key a \<noteq> op_key b \<Longrightarrow> spec_write a (spec_write b h) = spec_write b (spec_write a h)"
  by (cases a; cases b) (auto simp: spec_put_def spec_del_def fun_eq_iff)

lemma spec_writes_commute1:
  "\<forall>a\<in>set as. op_key a \<noteq> op_key b \<Longrightarrow> fold spec_write as (spec_write b h) = spec_write b (fold spec_write as h)"
proof (induction as arbitrary: h)
  case (Cons a as)
  then have "spec_write a (spec_write b h) = spec_write b (spec_write a h)"
    by (intro spec_write_commute) simp
  with Cons show ?case by simp
qed simp

lemma spec_writes_commute:
  "\<forall>a\<in>set as. \<forall>b\<in>set bs. op_key a \<noteq> op_key b \<Longrightarrow>
     fold spec_write (as @ bs) h = fold spec_write (bs @ as) h"
proof (induction bs arbitrary: h)
  case (Cons b bs)
  have "fold spec_write as (spec_write b h) = spec_write b (fold spec_write as h)"
    by (rule spec_writes_commute1) (use Cons.prems in simp)
  with Cons.IH [of "spec_write b h"] Cons.prems show ?case by simp
qed simp

text \<open>
  C4: Serializable certification. In every state the registry reaches, with any interleaving of its
  operations, two different serializable transactions that committed through the validation never
  overlap: neither wrote a key the other wrote or read. Their writes therefore commute on the row
  history, so the result is that of running them one after the other in either order.
\<close>

theorem acid_serializable_certified:
  assumes "reaches acid_step ([], {}) (reg, V)" and "i \<in> V" and "j \<in> V" and "i \<noteq> j"
    and "map_of reg i = Some e" and "map_of reg j = Some f"
    and "tx_isolation_level e = ''serializable''" and "tx_isolation_level f = ''serializable''"
    and "\<forall>op\<in>set as. op_key op \<in> set (tx_written_row_keys e)"
    and "\<forall>op\<in>set bs. op_key op \<in> set (tx_written_row_keys f)"
  shows "set (tx_read_row_keys e) \<inter> set (tx_written_row_keys f) = {} \<and>
    set (tx_written_row_keys e) \<inter> set (tx_written_row_keys f) = {} \<and>
    fold spec_write (as @ bs) h = fold spec_write (bs @ as) h"
proof -
  have "certified (reg, V)" by (rule acid_inv.reachable_inv [OF _ assms(1)]) simp
  from certifiedD(3) [OF this assms(2-8)] have ap: "apart e f" .
  have "op_key a \<noteq> op_key b" if "a \<in> set as" "b \<in> set bs" for a b
    using bspec [OF assms(9) that(1)] bspec [OF assms(10) that(2)] ap by (auto simp: apart_def)
  then have "fold spec_write (as @ bs) h = fold spec_write (bs @ as) h"
    by (intro spec_writes_commute) blast
  with ap show ?thesis by (auto simp: apart_def)
qed

lemmas acid_eval =
  commit_validated_def commit_conflict_def acid_begin_def acid_commit_def acid_rollback_def finish_tx_def
  is_active_def modify_tx_def record_written_row_keys_def check_serializable_conflict_row_level_def
  check_serializable_rw_conflict_def committed_peers_def was_modified_after_def fresh_store_def
  find_row_def store_page_new_def

text \<open>Two serializable transactions that write different rows of an empty store, both validated.\<close>

definition two_serializable :: acid_registry where
  "two_serializable =
     snd (commit_validated fresh_store ''serializable'' ''u'' [''y''] 4
       (acid_begin ''u'' ''n'' ''serializable'' 3 None
         (snd (commit_validated fresh_store ''serializable'' ''t'' [''x''] 2
           (acid_begin ''t'' ''n'' ''serializable'' 1 None [])))))"

lemma two_serializable_reached: "reaches acid_step ([], {}) (two_serializable, {''t'', ''u''})"
proof -
  let ?b1 = "acid_begin ''t'' ''n'' ''serializable'' 1 None []"
  let ?c1 = "commit_validated fresh_store ''serializable'' ''t'' [''x''] 2 ?b1"
  let ?b2 = "acid_begin ''u'' ''n'' ''serializable'' 3 None (snd ?c1)"
  let ?c2 = "commit_validated fresh_store ''serializable'' ''u'' [''y''] 4 ?b2"
  have ok: "fst ?c1 = Ok ()" "is_active ?b1 ''t''" "fst ?c2 = Ok ()" "is_active ?b2 ''u''"
    "map_of (snd ?c1) ''u'' = None"
    by (simp_all add: acid_eval)
  have "acid_step ([], {}) (?b1, {})" by (rule acid_step_begin) simp
  then have r1: "reaches acid_step ([], {}) (?b1, {})" by (rule reaches_single)
  have "acid_step (?b1, {}) (snd ?c1, {''t''})"
    using acid_step_validated [of fresh_store "''serializable''" "''t''" "[''x'']" 2 ?b1 "fst ?c1" "snd ?c1" "{}"] ok
    by simp
  with r1 have r2: "reaches acid_step ([], {}) (snd ?c1, {''t''})" by (rule reaches_step)
  have "acid_step (snd ?c1, {''t''}) (?b2, {''t''})" by (rule acid_step_begin) (rule ok)
  with r2 have r3: "reaches acid_step ([], {}) (?b2, {''t''})" by (rule reaches_step)
  have "acid_step (?b2, {''t''}) (two_serializable, {''t'', ''u''})"
    using acid_step_validated [of fresh_store "''serializable''" "''u''" "[''y'']" 4 ?b2 "fst ?c2" "snd ?c2" "{''t''}"] ok
    by (simp add: two_serializable_def insert_commute)
  with r3 show ?thesis by (rule reaches_step)
qed

theorem acid_serializable_certified_witness:
  "\<exists>e f. map_of two_serializable ''t'' = Some e \<and> map_of two_serializable ''u'' = Some f \<and>
     tx_written_row_keys e = [''x''] \<and> tx_written_row_keys f = [''y''] \<and>
     fold spec_write ([Put 1 ''x'' Map.empty] @ [Put 2 ''y'' Map.empty]) (\<lambda>_. []) =
     fold spec_write ([Put 2 ''y'' Map.empty] @ [Put 1 ''x'' Map.empty]) (\<lambda>_. [])"
proof -
  have "\<exists>e f. map_of two_serializable ''t'' = Some e \<and> map_of two_serializable ''u'' = Some f \<and>
     tx_written_row_keys e = [''x''] \<and> tx_written_row_keys f = [''y''] \<and>
     tx_isolation_level e = ''serializable'' \<and> tx_isolation_level f = ''serializable''"
    by (simp add: two_serializable_def acid_eval)
  then obtain e f where ef: "map_of two_serializable ''t'' = Some e" "map_of two_serializable ''u'' = Some f"
     "tx_written_row_keys e = [''x'']" "tx_written_row_keys f = [''y'']"
     "tx_isolation_level e = ''serializable''" "tx_isolation_level f = ''serializable''" by blast
  with acid_serializable_certified [OF two_serializable_reached, of "''t''" "''u''" e f
      "[Put 1 ''x'' Map.empty]" "[Put 2 ''y'' Map.empty]" "\<lambda>_. []"] show ?thesis by simp
qed

text \<open>
  A finished transaction stays finished: once it is committed or rolled back, no sequence of
  registry operations changes its state, its completion time, its level or its read set.
\<close>

theorem acid_finished_stays:
  assumes "reaches acid_step (reg, V) (reg', V')" and "map_of reg i = Some e" and "tx_state e \<noteq> TxActive"
  shows "\<exists>e'. map_of reg' i = Some e' \<and> tx_state e' = tx_state e \<and> tx_completed_at e' = tx_completed_at e \<and>
    tx_isolation_level e' = tx_isolation_level e \<and> tx_read_row_keys e' = tx_read_row_keys e"
  using assms(1)
proof (induction "(reg, V)" "(reg', V')" arbitrary: reg' V' rule: reaches.induct)
  case reaches_refl
  then show ?case using assms(2) by simp
next
  case (reaches_step t)
  obtain reg1 V1 where t: "t = (reg1, V1)" by fastforce
  from reaches_step.hyps(2) [OF t] obtain e1 where e1: "map_of reg1 i = Some e1" "tx_state e1 = tx_state e"
    "tx_completed_at e1 = tx_completed_at e" "tx_isolation_level e1 = tx_isolation_level e"
    "tx_read_row_keys e1 = tx_read_row_keys e" by blast
  from reaches_step.hyps(3) [unfolded t] show ?case
  proof (cases rule: acid_step_quiet)
    case quiet
    from quiet_finished [OF quiet(1) e1(1)] e1 assms(3) show ?thesis by auto
  next
    case (validated rs lvl tx written now)
    then show ?thesis using e1 assms(3) by (auto simp: commit_recorded_entry Let_def)
  qed
qed

theorem acid_finished_stays_witness:
  "\<exists>e'. map_of (snd (acid_rollback ''t'' 9 two_serializable)) ''t'' = Some e' \<and> tx_state e' = TxCommitted"
proof -
  have "\<exists>e. map_of two_serializable ''t'' = Some e \<and> tx_state e = TxCommitted"
    by (simp add: two_serializable_def acid_eval)
  then obtain e where e: "map_of two_serializable ''t'' = Some e" "tx_state e = TxCommitted" by blast
  have "reaches acid_step (two_serializable, {}) (snd (acid_rollback ''t'' 9 two_serializable), {})"
    by (rule reaches_single, rule acid_step_rollback)
  from acid_finished_stays [OF this e(1)] e(2) show ?thesis by auto
qed

text \<open>
  The default isolation levels refuse updates. A transaction that begins at a level without a
  begin snapshot (read committed, serializable) and writes a key that already has a version with a
  nonzero transaction id is aborted at its commit, even when no other transaction runs: the
  write-write check compares with transaction id zero.
\<close>

theorem acid_default_level_conflict:
  assumes "isolation \<noteq> ''repeatable_read''" and "isolation \<noteq> ''optimistic''"
    and "k \<in> set written" and "\<exists>v\<in>set (history rs k). 0 < rv_xid v"
  shows "\<exists>reason. commit_validated rs isolation tx written now (acid_begin tx node isolation now snap reg) =
    (Err reason, snd (acid_rollback tx now (acid_begin tx node isolation now snap reg)))"
proof -
  let ?reg = "acid_begin tx node isolation now snap reg"
  have "snapshot_or_zero ?reg tx = 0"
    using assms(1,2) by (simp add: snapshot_or_zero_def row_store_snapshot_xid_def acid_begin_def)
  moreover have "was_modified_after rs k 0"
    using assms(4) by (cases "find_in_pages (pages rs) k") (auto simp: was_modified_after_def history_def list_ex_iff)
  ultimately have "find (\<lambda>k. was_modified_after rs k (snapshot_or_zero ?reg tx)) written \<noteq> None"
    using assms(3) by (auto simp: find_None_iff)
  then obtain k' where "find (\<lambda>k. was_modified_after rs k (snapshot_or_zero ?reg tx)) written = Some k'" by blast
  moreover have "written \<noteq> []" using assms(3) by auto
  ultimately have "commit_conflict rs isolation tx written ?reg \<noteq> None"
    unfolding commit_conflict_def using assms(2) by (simp split: option.split)
  then obtain reason where "commit_conflict rs isolation tx written ?reg = Some reason" by blast
  then show ?thesis by (simp add: commit_validated_def)
qed

theorem acid_default_level_conflict_witness:
  "\<exists>rs reason. store_insert fresh_store 1 ''x'' Map.empty = Some rs \<and>
     commit_validated rs ''read_committed'' ''t'' [''x''] 2 (acid_begin ''t'' ''n'' ''read_committed'' 2 None []) =
       (Err reason, snd (acid_rollback ''t'' 2 (acid_begin ''t'' ''n'' ''read_committed'' 2 None [])))"
proof -
  obtain rs where rs: "store_insert fresh_store 1 ''x'' Map.empty = Some rs"
    using store_insert_total [OF fresh_store_wf(1)] by blast
  have "history rs ''x'' = history fresh_store ''x'' @ [\<lparr>rv_xid = 1, rv_deleted = False, rv_data = Map.empty\<rparr>]"
    using store_insert_history [OF fresh_store_wf rs] by (simp add: spec_put_def)
  then have "\<exists>v\<in>set (history rs ''x''). 0 < rv_xid v" by simp
  with acid_default_level_conflict [of "''read_committed''" "''x''" "[''x'']" rs] rs show ?thesis by auto
qed





end
