(* ===== verification/Constraints.thy ===== *)
theory Constraints
  imports Vng_Text
begin

text \<open>
  Table constraints, \<^verbatim>\<open>voltnuerongrid-store/src/constraints.rs\<close>: the manager with its committed-value
  sets, validation of a column value, the evaluator of CHECK predicates and the parser of constraint
  clauses in CREATE TABLE and ALTER TABLE. Texts are ASCII. The operations on 64-bit floats are an
  argument of the evaluator; the order of the constraint list stands for the iteration order of the
  hash map.
\<close>

section \<open>Data\<close>

datatype constraint_kind = PrimaryKey | UniqueKey | NotNull | ForeignKey | CheckKind

record constraint_descriptor =
  cd_name :: string
  cd_table :: string
  cd_column :: string
  cd_kind :: constraint_kind
  cd_ref_table :: "string option"
  cd_ref_column :: "string option"

datatype constraint_violation =
    PrimaryKeyDuplicate string string
  | UniqueDuplicate string string
  | NotNullViolation string string
  | ForeignKeyViolation string string string string
  | CheckViolation string string string
  | ConstraintAlreadyExists string
  | ConstraintNotFound string

record constraint_manager =
  constraints :: "(string \<times> constraint_descriptor) list"
  unique_sets :: "string \<rightharpoonup> string set"
  check_exprs :: "string \<rightharpoonup> string"

definition constraint_manager_new :: constraint_manager where
  "constraint_manager_new = \<lparr>constraints = [], unique_sets = Map.empty, check_exprs = Map.empty\<rparr>"

abbreviation apos :: string where "apos \<equiv> [CHR 0x27]"

fun violation_display :: "constraint_violation \<Rightarrow> string" where
  "violation_display (PrimaryKeyDuplicate c v) =
     ''primary key '' @ apos @ c @ apos @ '' duplicate for value '' @ apos @ v @ apos"
| "violation_display (UniqueDuplicate c v) =
     ''unique constraint '' @ apos @ c @ apos @ '' violation for value '' @ apos @ v @ apos"
| "violation_display (NotNullViolation c col) =
     ''not-null constraint '' @ apos @ c @ apos @ '' on column '' @ apos @ col @ apos"
| "violation_display (ForeignKeyViolation c v t col) =
     ''foreign key '' @ apos @ c @ apos @ '' violation: value '' @ apos @ v @ apos @ '' not found in '' @
     apos @ t @ ''.'' @ col @ apos"
| "violation_display (CheckViolation c e v) =
     ''check constraint '' @ apos @ c @ apos @ '' violation: value '' @ apos @ v @ apos @
     '' fails predicate '' @ apos @ e @ apos"
| "violation_display (ConstraintAlreadyExists n) = ''constraint '' @ apos @ n @ apos @ '' already exists''"
| "violation_display (ConstraintNotFound n) = ''constraint '' @ apos @ n @ apos @ '' not found''"

section \<open>CHECK predicates\<close>

text \<open>The float operations: parsing, conversion, the orders, and \<^verbatim>\<open>(a - b).abs()\<close> against \<^verbatim>\<open>EPSILON\<close>.\<close>

record 'f float_ops =
  fo_parse :: "string \<Rightarrow> 'f option"
  fo_of_nat :: "nat \<Rightarrow> 'f"
  fo_less :: "'f \<Rightarrow> 'f \<Rightarrow> bool"
  fo_le :: "'f \<Rightarrow> 'f \<Rightarrow> bool"
  fo_close :: "'f \<Rightarrow> 'f \<Rightarrow> bool"
  fo_apart :: "'f \<Rightarrow> 'f \<Rightarrow> bool"

definition compare_numeric :: "'f float_ops \<Rightarrow> 'f \<Rightarrow> string \<Rightarrow> 'f \<Rightarrow> bool" where
  "compare_numeric F l op r =
     (if op = ''='' then fo_close F l r
      else if op = ''<>'' \<or> op = ''!='' then fo_apart F l r
      else if op = ''>'' then fo_less F r l
      else if op = ''>='' then fo_le F r l
      else if op = ''<'' then fo_less F l r
      else if op = ''<='' then fo_le F l r
      else True)"

definition compare_string :: "string \<Rightarrow> string \<Rightarrow> string \<Rightarrow> bool" where
  "compare_string l op r =
     (if op = ''='' then l = r
      else if op = ''<>'' \<or> op = ''!='' then l \<noteq> r
      else if op = ''>'' then l > r
      else if op = ''>='' then l \<ge> r
      else if op = ''<'' then l < r
      else if op = ''<='' then l \<le> r
      else True)"

definition split_comparison :: "string \<Rightarrow> (string \<times> string) option" where
  "split_comparison expr =
     first_some (\<lambda>op.
       case find_str expr op of
         Some pos \<Rightarrow> (let rhs = trim (drop (pos + length op) expr) in if rhs \<noteq> [] then Some (op, rhs) else None)
       | None \<Rightarrow> None)
       [''>='', ''<='', ''<>'', ''!='', ''='', ''>'', ''<'']"

definition is_quote_char :: "char \<Rightarrow> bool" where
  "is_quote_char c = (c = CHR 0x27 \<or> c = CHR 0x22)"

definition in_list_check :: "string \<Rightarrow> string \<Rightarrow> string \<Rightarrow> bool option" where
  "in_list_check e lower v =
     (case find_str lower '' in '' of
        Some pos \<Rightarrow>
          (let is_not = ends_with (trim_end_by is_whitespace (take pos lower)) ''not''
           in case (find_str e ''('', rfind_char (CHR '')'') e) of
                (Some open, Some close) \<Rightarrow>
                  if close > open then
                    (let items = map (\<lambda>s. trim_by is_quote_char (trim s))
                                   (split_str '','' (take (close - (open + 1)) (drop (open + 1) e)));
                         contained = v \<in> set items
                     in Some (if is_not then \<not> contained else contained))
                  else None
              | _ \<Rightarrow> None)
      | None \<Rightarrow> None)"

definition length_check :: "'f float_ops \<Rightarrow> string \<Rightarrow> string \<Rightarrow> bool option" where
  "length_check F lower v =
     (if contains lower ''length('' then
        (case split_comparison lower of
           Some (op, rhs) \<Rightarrow>
             map_option (\<lambda>n. compare_numeric F (fo_of_nat F (length v)) op n) (fo_parse F (trim rhs))
         | None \<Rightarrow> None)
      else None)"

definition comparison_check :: "'f float_ops \<Rightarrow> string \<Rightarrow> string \<Rightarrow> string \<Rightarrow> bool option" where
  "comparison_check F e col_lower v =
     (case split_comparison e of
        Some (op, rhs) \<Rightarrow>
          (let lhs = to_lowercase (trim (take (case find_str e op of Some p \<Rightarrow> p | None \<Rightarrow> 0) e))
           in if lhs \<noteq> [] \<and> lhs \<noteq> col_lower \<and> \<not> contains lhs col_lower then Some True
              else
                let rhs_clean = trim_by is_quote_char (trim rhs)
                in case (fo_parse F v, fo_parse F rhs_clean) of
                     (Some lv, Some rv) \<Rightarrow> Some (compare_numeric F lv op rv)
                   | _ \<Rightarrow> Some (compare_string v op rhs_clean))
      | None \<Rightarrow> None)"

definition eval_check_predicate :: "'f float_ops \<Rightarrow> string \<Rightarrow> string \<Rightarrow> string \<Rightarrow> bool" where
  "eval_check_predicate F expr column v =
     (let e = trim expr; lower = to_lowercase e; col_lower = to_lowercase column
      in if contains lower ''is not null'' then v \<noteq> []
         else if ends_with lower ''is null'' then v = []
         else case in_list_check e lower v of
           Some b \<Rightarrow> b
         | None \<Rightarrow>
             (case length_check F lower v of
                Some b \<Rightarrow> b
              | None \<Rightarrow> (case comparison_check F e col_lower v of Some b \<Rightarrow> b | None \<Rightarrow> True)))"

section \<open>The manager\<close>

definition is_key_kind :: "constraint_kind \<Rightarrow> bool" where
  "is_key_kind k = (k = PrimaryKey \<or> k = UniqueKey)"

definition add_constraint ::
  "constraint_descriptor \<Rightarrow> constraint_manager \<Rightarrow> (unit, constraint_violation) result \<times> constraint_manager" where
  "add_constraint d m =
     (if map_of (constraints m) (cd_name d) \<noteq> None then (Err (ConstraintAlreadyExists (cd_name d)), m)
      else (Ok (), m\<lparr>unique_sets := (if is_key_kind (cd_kind d) then (unique_sets m)(cd_name d \<mapsto> {}) else unique_sets m),
                     constraints := AList.update (cd_name d) d (constraints m)\<rparr>))"

definition add_check_constraint ::
  "string \<Rightarrow> string \<Rightarrow> string \<Rightarrow> string \<Rightarrow> constraint_manager \<Rightarrow>
   (unit, constraint_violation) result \<times> constraint_manager" where
  "add_check_constraint name table column expr m =
     (if map_of (constraints m) name \<noteq> None then (Err (ConstraintAlreadyExists name), m)
      else (Ok (), m\<lparr>constraints := AList.update name
                       \<lparr>cd_name = name, cd_table = table, cd_column = column, cd_kind = CheckKind,
                        cd_ref_table = None, cd_ref_column = None\<rparr> (constraints m),
                     check_exprs := (check_exprs m)(name \<mapsto> expr)\<rparr>))"

definition drop_constraint ::
  "string \<Rightarrow> constraint_manager \<Rightarrow> (constraint_descriptor, constraint_violation) result \<times> constraint_manager" where
  "drop_constraint name m =
     ((case map_of (constraints m) name of Some d \<Rightarrow> Ok d | None \<Rightarrow> Err (ConstraintNotFound name)),
      m\<lparr>unique_sets := (unique_sets m)(name := None), check_exprs := (check_exprs m)(name := None),
        constraints := AList.delete name (constraints m)\<rparr>)"

definition seen_value :: "constraint_manager \<Rightarrow> string \<Rightarrow> string \<Rightarrow> bool" where
  "seen_value m name v = (case unique_sets m name of Some vs \<Rightarrow> v \<in> vs | None \<Rightarrow> False)"

definition covers_key :: "string \<Rightarrow> string \<Rightarrow> constraint_descriptor \<Rightarrow> bool" where
  "covers_key table column d = (is_key_kind (cd_kind d) \<and> cd_table d = table \<and> cd_column d = column)"

definition descriptors :: "constraint_manager \<Rightarrow> constraint_descriptor list" where
  "descriptors m = map snd (constraints m)"

text \<open>The body of the validation loop for a constraint of the column.\<close>

definition check_one ::
  "'f float_ops \<Rightarrow> constraint_manager \<Rightarrow> string \<Rightarrow> string option \<Rightarrow> constraint_descriptor \<Rightarrow> constraint_violation option" where
  "check_one F m column val d =
     (case cd_kind d of
        NotNull \<Rightarrow> if val = None then Some (NotNullViolation (cd_name d) column) else None
      | PrimaryKey \<Rightarrow>
          (case val of
             Some v \<Rightarrow> if seen_value m (cd_name d) v then Some (PrimaryKeyDuplicate (cd_name d) v) else None
           | None \<Rightarrow> Some (NotNullViolation (cd_name d) column))
      | UniqueKey \<Rightarrow>
          (case val of
             Some v \<Rightarrow> if seen_value m (cd_name d) v then Some (UniqueDuplicate (cd_name d) v) else None
           | None \<Rightarrow> None)
      | ForeignKey \<Rightarrow>
          (case val of
             Some v \<Rightarrow>
               (case (cd_ref_table d, cd_ref_column d) of
                  (Some rt, Some rc) \<Rightarrow>
                    (let parents = filter (covers_key rt rc) (descriptors m)
                     in if parents \<noteq> [] \<and> \<not> list_ex (\<lambda>c. seen_value m (cd_name c) v) parents
                        then Some (ForeignKeyViolation (cd_name d) v rt rc) else None)
                | _ \<Rightarrow> None)
           | None \<Rightarrow> None)
      | CheckKind \<Rightarrow>
          (case val of
             Some v \<Rightarrow>
               (case check_exprs m (cd_name d) of
                  Some expr \<Rightarrow>
                    if \<not> eval_check_predicate F expr (cd_column d) v
                    then Some (CheckViolation (cd_name d) expr v) else None
                | None \<Rightarrow> None)
           | None \<Rightarrow> None))"

definition on_column :: "string \<Rightarrow> string \<Rightarrow> constraint_descriptor \<Rightarrow> bool" where
  "on_column table column d = (cd_table d = table \<and> cd_column d = column)"

definition validate ::
  "'f float_ops \<Rightarrow> constraint_manager \<Rightarrow> string \<Rightarrow> string \<Rightarrow> string option \<Rightarrow> (unit, constraint_violation) result" where
  "validate F m table column val =
     (case first_some (check_one F m column val) (filter (on_column table column) (descriptors m)) of
        Some v \<Rightarrow> Err v
      | None \<Rightarrow> Ok ())"

text \<open>Changing the committed values of every key constraint of a column.\<close>

definition modify_seen :: "(string set \<Rightarrow> string set) \<Rightarrow> string \<Rightarrow> string \<Rightarrow> constraint_manager \<Rightarrow> constraint_manager" where
  "modify_seen f table column m =
     m\<lparr>unique_sets :=
         fold (\<lambda>d us. if covers_key table column d then
                        (case us (cd_name d) of Some vs \<Rightarrow> us(cd_name d \<mapsto> f vs) | None \<Rightarrow> us) else us)
           (descriptors m) (unique_sets m)\<rparr>"

definition record_committed_value :: "string \<Rightarrow> string \<Rightarrow> string \<Rightarrow> constraint_manager \<Rightarrow> constraint_manager" where
  "record_committed_value table column v = modify_seen (insert v) table column"

definition remove_committed_value :: "string \<Rightarrow> string \<Rightarrow> string \<Rightarrow> constraint_manager \<Rightarrow> constraint_manager" where
  "remove_committed_value table column v = modify_seen (\<lambda>vs. vs - {v}) table column"

definition constraint_count :: "constraint_manager \<Rightarrow> nat" where
  "constraint_count m = length (constraints m)"

definition not_null_columns :: "constraint_manager \<Rightarrow> string \<Rightarrow> string list" where
  "not_null_columns m table =
     map cd_column (filter (\<lambda>d. cd_table d = table \<and> (cd_kind d = NotNull \<or> cd_kind d = PrimaryKey)) (descriptors m))"

definition list_fk_refs :: "constraint_manager \<Rightarrow> string \<Rightarrow> string \<Rightarrow> (string \<times> string \<times> string) list" where
  "list_fk_refs m table column =
     List.map_filter (\<lambda>d.
       case (cd_ref_table d, cd_ref_column d) of
         (Some rt, Some rc) \<Rightarrow> Some (cd_name d, rt, rc)
       | _ \<Rightarrow> None)
       (filter (\<lambda>d. cd_kind d = ForeignKey \<and> on_column table column d) (descriptors m))"

section \<open>Constraint clauses\<close>

record parsed_constraint =
  pc_name :: string
  pc_table :: string
  pc_column :: string
  pc_kind :: constraint_kind
  pc_ref_table :: "string option"
  pc_ref_column :: "string option"
  pc_check_expr :: "string option"

definition parsed :: "string \<Rightarrow> string \<Rightarrow> string \<Rightarrow> constraint_kind \<Rightarrow> parsed_constraint" where
  "parsed name table column kind =
     \<lparr>pc_name = name, pc_table = table, pc_column = column, pc_kind = kind, pc_ref_table = None,
      pc_ref_column = None, pc_check_expr = None\<rparr>"

text \<open>The loop of the comma splitter with the nesting depth and the current piece (reversed).\<close>

fun split_commas_loop :: "string \<Rightarrow> int \<Rightarrow> string \<Rightarrow> string list" where
  "split_commas_loop [] depth cur = (if trim (rev cur) \<noteq> [] then [trim (rev cur)] else [])"
| "split_commas_loop (c # s) depth cur =
     (if c = CHR ''('' then split_commas_loop s (depth + 1) (c # cur)
      else if c = CHR '')'' then split_commas_loop s (depth - 1) (c # cur)
      else if c = CHR '','' \<and> depth = 0 then trim (rev cur) # split_commas_loop s depth []
      else split_commas_loop s depth (c # cur))"

definition split_top_level_commas :: "string \<Rightarrow> string list" where
  "split_top_level_commas body = split_commas_loop body 0 []"

text \<open>The offset of the parenthesis that closes the one the text starts with.\<close>

fun closing_paren :: "string \<Rightarrow> int \<Rightarrow> nat option" where
  "closing_paren [] depth = None"
| "closing_paren (c # s) depth =
     (if c = CHR ''('' then map_option Suc (closing_paren s (depth + 1))
      else if c = CHR '')'' then (if depth - 1 = 0 then Some 0 else map_option Suc (closing_paren s (depth - 1)))
      else map_option Suc (closing_paren s depth))"

definition extract_paren_arg :: "string \<Rightarrow> string \<Rightarrow> string option" where
  "extract_paren_arg s kw =
     (case find_str (to_lowercase s) kw of
        None \<Rightarrow> None
      | Some kw_pos \<Rightarrow>
          (let rest = drop (kw_pos + length kw) s
           in case find_str rest ''('' of
                None \<Rightarrow> None
              | Some open \<Rightarrow>
                  map_option (\<lambda>i. trim (take (open + i - (open + 1)) (drop (open + 1) rest)))
                    (closing_paren (drop open rest) 0)))"

definition rsplit_dot :: "string \<Rightarrow> string" where
  "rsplit_dot s = last (split_str ''.'' s)"

text \<open>
  The slice between the parentheses panics when the first closing one stands before the first opening
  one; the outer option is None for a panic, here and in the parsers that use it.
\<close>

definition parse_references :: "string \<Rightarrow> (string \<times> string) option option" where
  "parse_references seg =
     (case find_str (to_lowercase seg) ''references'' of
        None \<Rightarrow> Some None
      | Some pos \<Rightarrow>
          (let rest = trim (drop (pos + length ''references'') seg)
           in case find_str rest ''('' of
                None \<Rightarrow> Some None
              | Some open \<Rightarrow>
                  (case find_str rest '')'' of
                     None \<Rightarrow> Some None
                   | Some close \<Rightarrow>
                       if close < open + 1 then None
                       else
                         (let ref_table = trim (rsplit_dot (trim (take open rest)));
                              ref_col = trim (take (close - (open + 1)) (drop (open + 1) rest))
                          in Some (if ref_table = [] \<or> ref_col = [] then None else Some (ref_table, ref_col))))))"

definition first_word :: "string \<Rightarrow> string" where
  "first_word s = (case split_whitespace s of w # _ \<Rightarrow> w | [] \<Rightarrow> [])"

definition first_column :: "string \<Rightarrow> string" where
  "first_column col = trim (hd (split_str '','' col))"

definition first_identifier :: "string \<Rightarrow> string" where
  "first_identifier expr =
     (let ident = (\<lambda>c. 48 \<le> (of_char c :: nat) \<and> (of_char c :: nat) \<le> 57 \<or>
                       65 \<le> (of_char c :: nat) \<and> (of_char c :: nat) \<le> 90 \<or>
                       97 \<le> (of_char c :: nat) \<and> (of_char c :: nat) \<le> 122 \<or> c = CHR ''_'')
      in takeWhile ident (dropWhile (\<lambda>c. \<not> ident c) expr))"

text \<open>The optional \<^verbatim>\<open>CONSTRAINT name\<close> prefix, and the text after it.\<close>

definition strip_constraint_name :: "string \<Rightarrow> string option \<times> string" where
  "strip_constraint_name seg =
     (let s = trim seg
      in if starts_with (to_lowercase s) ''constraint '' then
           (let nm = first_word (trim_start (drop (length ''constraint '') s))
            in if nm \<noteq> [] then
                 (let idx = (case find_str (to_lowercase s) (to_lowercase nm) of Some p \<Rightarrow> p | None \<Rightarrow> 0) + length nm
                  in (Some nm, trim (drop idx s)))
               else (None, s))
         else (None, s))"

definition named_or :: "string option \<Rightarrow> string \<Rightarrow> string \<Rightarrow> string \<Rightarrow> string" where
  "named_or name table column suffix =
     (case name of Some n \<Rightarrow> n | None \<Rightarrow> table @ ''_'' @ column @ suffix)"

definition parse_table_level_constraint :: "string \<Rightarrow> string \<Rightarrow> parsed_constraint list option" where
  "parse_table_level_constraint table seg =
     (let (name, s) = strip_constraint_name seg; lower = to_lowercase s
      in if starts_with lower ''primary key'' then
           Some (case extract_paren_arg s ''key'' of
                   Some col \<Rightarrow> (let column = first_column col
                               in [parsed (named_or name table column ''_pk'') table column PrimaryKey])
                 | None \<Rightarrow> [])
         else if starts_with lower ''unique'' then
           Some (case extract_paren_arg s ''unique'' of
                   Some col \<Rightarrow> (let column = first_column col
                               in [parsed (named_or name table column ''_unique'') table column UniqueKey])
                 | None \<Rightarrow> [])
         else if starts_with lower ''foreign key'' then
           (case extract_paren_arg s ''key'' of
              Some col \<Rightarrow>
                (let column = first_column col
                 in map_option (\<lambda>r.
                      case r of
                        Some (rt, rc) \<Rightarrow>
                          [(parsed (named_or name table column ''_fk'') table column ForeignKey)
                             \<lparr>pc_ref_table := Some rt, pc_ref_column := Some rc\<rparr>]
                      | None \<Rightarrow> []) (parse_references s))
            | None \<Rightarrow> Some [])
         else if starts_with lower ''check'' then
           Some (case extract_paren_arg s ''check'' of
                   Some expr \<Rightarrow>
                     (let column = first_identifier expr
                      in [(parsed (named_or name table column ''_check'') table column CheckKind)
                            \<lparr>pc_check_expr := Some expr\<rparr>])
                 | None \<Rightarrow> [])
         else Some [])"

definition parse_column_constraints :: "string \<Rightarrow> string \<Rightarrow> string \<Rightarrow> parsed_constraint list option" where
  "parse_column_constraints table column seg =
     (let seg_lower = to_lowercase seg; base = table @ ''_'' @ column
      in map_option (\<lambda>fk.
         (if contains seg_lower '' not null'' \<or> contains seg_lower (tab # ''not null'')
          then [parsed (base @ ''_notnull'') table column NotNull] else []) @
         (if contains seg_lower ''primary key'' then [parsed (base @ ''_pk'') table column PrimaryKey]
          else if contains seg_lower '' unique'' then [parsed (base @ ''_unique'') table column UniqueKey]
          else []) @
         fk @
         (if contains seg_lower ''check'' then
            (case extract_paren_arg seg ''check'' of
               Some expr \<Rightarrow> [(parsed (base @ ''_check'') table column CheckKind)\<lparr>pc_check_expr := Some expr\<rparr>]
             | None \<Rightarrow> []) else []))
         (if contains seg_lower ''references'' then
            map_option (\<lambda>r.
              case r of
                Some (rt, rc) \<Rightarrow> [(parsed (base @ ''_fk'') table column ForeignKey)
                                    \<lparr>pc_ref_table := Some rt, pc_ref_column := Some rc\<rparr>]
              | None \<Rightarrow> []) (parse_references seg)
          else Some []))"

definition parse_segment :: "string \<Rightarrow> string \<Rightarrow> parsed_constraint list option" where
  "parse_segment table seg =
     (let first = first_word seg
      in if to_lowercase first \<in> {''primary'', ''foreign'', ''unique'', ''check'', ''constraint''}
         then parse_table_level_constraint table seg
         else
           let column = trim_by (\<lambda>c. c = CHR 0x22 \<or> c = CHR 0x60) first
           in if column = [] then Some [] else parse_column_constraints table column seg)"

definition strip_semicolons :: "string \<Rightarrow> string" where
  "strip_semicolons sql = trim (trim_end_by (\<lambda>c. c = CHR '';'') (trim sql))"

definition parse_create_table_constraints :: "string \<Rightarrow> parsed_constraint list option" where
  "parse_create_table_constraints sql =
     (let trimmed = strip_semicolons sql
      in if \<not> starts_with (to_lowercase trimmed) ''create table'' then Some []
         else case (find_str trimmed ''('', rfind_char (CHR '')'') trimmed) of
           (Some open, Some close) \<Rightarrow>
             if close \<le> open then Some []
             else
               (let header = trim (trim_start_matches ''if not exists''
                               (trim (trim_start_matches ''create table'' (to_lowercase (take open trimmed)))));
                    table = rsplit_dot (first_word header)
                in if table = [] then Some []
                   else map_option concat (those (map (parse_segment table)
                          (split_top_level_commas (take (close - (open + 1)) (drop (open + 1) trimmed))))))
         | _ \<Rightarrow> Some [])"

definition parse_alter_add_constraint :: "string \<Rightarrow> parsed_constraint option option" where
  "parse_alter_add_constraint sql =
     (let trimmed = strip_semicolons sql; lower = to_lowercase trimmed
      in if \<not> starts_with lower ''alter table'' then Some None
         else case split_whitespace (trim (drop (length ''alter table'') trimmed)) of
           [] \<Rightarrow> Some None
         | table_tok # _ \<Rightarrow>
             (case find_str lower '' add '' of
                None \<Rightarrow> Some None
              | Some add_pos \<Rightarrow>
                  map_option (\<lambda>cs. case cs of c # _ \<Rightarrow> Some c | [] \<Rightarrow> None)
                    (parse_table_level_constraint (rsplit_dot table_tok) (trim (drop (add_pos + 5) trimmed)))))"

section \<open>Specification\<close>

text \<open>When a value satisfies a constraint, given the committed values.\<close>

fun satisfies :: "'f float_ops \<Rightarrow> constraint_manager \<Rightarrow> string option \<Rightarrow> constraint_descriptor \<Rightarrow> bool" where
  "satisfies F m None d = (cd_kind d \<noteq> NotNull \<and> cd_kind d \<noteq> PrimaryKey)"
| "satisfies F m (Some v) d =
     ((is_key_kind (cd_kind d) \<longrightarrow> \<not> seen_value m (cd_name d) v) \<and>
      (cd_kind d = ForeignKey \<longrightarrow>
         (\<forall>rt rc. cd_ref_table d = Some rt \<and> cd_ref_column d = Some rc \<and>
            (\<exists>c\<in>set (descriptors m). covers_key rt rc c) \<longrightarrow>
            (\<exists>c\<in>set (descriptors m). covers_key rt rc c \<and> seen_value m (cd_name c) v))) \<and>
      (cd_kind d = CheckKind \<longrightarrow>
         (\<forall>expr. check_exprs m (cd_name d) = Some expr \<longrightarrow> eval_check_predicate F expr (cd_column d) v)))"

fun violated_constraint :: "constraint_violation \<Rightarrow> string" where
  "violated_constraint (PrimaryKeyDuplicate c v) = c"
| "violated_constraint (UniqueDuplicate c v) = c"
| "violated_constraint (NotNullViolation c col) = c"
| "violated_constraint (ForeignKeyViolation c v t col) = c"
| "violated_constraint (CheckViolation c e v) = c"
| "violated_constraint (ConstraintAlreadyExists c) = c"
| "violated_constraint (ConstraintNotFound c) = c"

text \<open>
  The manager's invariant: descriptors are filed under their own name, exactly the key constraints
  have a value set, and only checks have an expression.
\<close>

definition manager_wf :: "constraint_manager \<Rightarrow> bool" where
  "manager_wf m \<longleftrightarrow>
     distinct (map fst (constraints m)) \<and>
     (\<forall>n d. map_of (constraints m) n = Some d \<longrightarrow> cd_name d = n) \<and>
     (\<forall>n. (unique_sets m n \<noteq> None) = (\<exists>d. map_of (constraints m) n = Some d \<and> is_key_kind (cd_kind d)))"

inductive manager_step :: "constraint_manager \<Rightarrow> constraint_manager \<Rightarrow> bool" where
  manager_add: "manager_step m (snd (add_constraint d m))"
| manager_add_check: "manager_step m (snd (add_check_constraint n t c e m))"
| manager_drop: "manager_step m (snd (drop_constraint n m))"
| manager_record: "manager_step m (record_committed_value t c v m)"
| manager_remove: "manager_step m (remove_committed_value t c v m)"

text \<open>
  Rows of a table seen through one column: writing a value validates it and then records it, as the
  statement path does; deleting a row removes its value. The second component lists the values of the
  live rows.
\<close>

datatype value_op = WriteValue string | DeleteValue string

fun run_value :: "'f float_ops \<Rightarrow> string \<Rightarrow> string \<Rightarrow> value_op \<Rightarrow> constraint_manager \<times> string list \<Rightarrow>
    constraint_manager \<times> string list" where
  "run_value F t c (WriteValue v) (m, vs) =
     (case validate F m t c (Some v) of
        Inr _ \<Rightarrow> (record_committed_value t c v m, v # vs)
      | Inl _ \<Rightarrow> (m, vs))"
| "run_value F t c (DeleteValue v) (m, vs) = (remove_committed_value t c v m, filter (\<lambda>w. w \<noteq> v) vs)"

section \<open>Lemmas on the manager\<close>

lemma check_one_None: "check_one F m column val d = None \<longleftrightarrow> satisfies F m val d"
  by (cases val; cases "cd_kind d")
    (auto simp: check_one_def is_key_kind_def list_ex_iff filter_empty_conv Let_def
      split: option.splits if_splits)

lemma check_one_constraint: "check_one F m column val d = Some v \<Longrightarrow> violated_constraint v = cd_name d"
  by (auto simp: check_one_def Let_def split: constraint_kind.splits option.splits if_splits)

lemma modify_seen_fields [simp]:
  "constraints (modify_seen f t c m) = constraints m" "check_exprs (modify_seen f t c m) = check_exprs m"
  "descriptors (modify_seen f t c m) = descriptors m"
  by (simp_all add: modify_seen_def descriptors_def)

lemma modify_seen_fold:
  assumes "distinct (map cd_name ds)"
  shows "fold (\<lambda>d us. if covers_key t c d then
            (case us (cd_name d) of Some vs \<Rightarrow> us(cd_name d \<mapsto> f vs) | None \<Rightarrow> us) else us) ds us n =
         (if \<exists>d\<in>set ds. cd_name d = n \<and> covers_key t c d then map_option f (us n) else us n)"
  using assms
proof (induction ds arbitrary: us)
  case (Cons d ds)
  from Cons.prems have "\<forall>e\<in>set ds. cd_name e \<noteq> cd_name d" by (metis distinct.simps(2) imageI list.simps(9) set_map)
  with Cons show ?case by (auto split: option.splits)
qed simp

lemma manager_wf_names:
  assumes "manager_wf m"
  shows "map cd_name (descriptors m) = map fst (constraints m)"
proof -
  have "cd_name (snd x) = fst x" if "x \<in> set (constraints m)" for x
    using that assms map_of_is_SomeI [of "constraints m" "fst x" "snd x"] by (simp add: manager_wf_def)
  then show ?thesis by (simp add: descriptors_def)
qed

lemma unique_sets_modify_seen:
  assumes "manager_wf m"
  shows "unique_sets (modify_seen f t c m) n =
    (if \<exists>d\<in>set (descriptors m). cd_name d = n \<and> covers_key t c d then map_option f (unique_sets m n)
     else unique_sets m n)"
proof -
  have dist: "distinct (map cd_name (descriptors m))"
    using assms manager_wf_names [OF assms] by (simp add: manager_wf_def)
  have e: "unique_sets (modify_seen f t c m) =
      fold (\<lambda>d us. if covers_key t c d then
              (case us (cd_name d) of Some vs \<Rightarrow> us(cd_name d \<mapsto> f vs) | None \<Rightarrow> us) else us)
        (descriptors m) (unique_sets m)" by (simp add: modify_seen_def)
  show ?thesis unfolding e by (rule modify_seen_fold [OF dist])
qed

lemma modify_seen_wf: "manager_wf m \<Longrightarrow> manager_wf (modify_seen f t c m)"
  using unique_sets_modify_seen [of m f t c] by (auto simp: manager_wf_def)

lemma manager_step_wf:
  assumes "manager_step m m'" and "manager_wf m"
  shows "manager_wf m'"
  using assms
proof (cases rule: manager_step.cases)
  case (manager_add d)
  then show ?thesis
    using assms(2) by (auto simp: add_constraint_def manager_wf_def distinct_update split: if_splits
        simp del: map_of_eq_Some_iff Some_eq_map_of_iff)
next
  case (manager_add_check n t c e)
  then show ?thesis
    using assms(2)
    by (auto simp: add_check_constraint_def manager_wf_def distinct_update is_key_kind_def split: if_splits
        simp del: map_of_eq_Some_iff Some_eq_map_of_iff)
next
  case (manager_drop n)
  then show ?thesis
    using assms(2) by (auto simp: drop_constraint_def manager_wf_def distinct_delete
        simp del: map_of_eq_Some_iff Some_eq_map_of_iff)
next
  case (manager_record t c v)
  then show ?thesis using assms(2) by (simp add: record_committed_value_def modify_seen_wf)
next
  case (manager_remove t c v)
  then show ?thesis using assms(2) by (simp add: remove_committed_value_def modify_seen_wf)
qed

lemma manager_wf_new: "manager_wf constraint_manager_new"
  by (simp add: manager_wf_def constraint_manager_new_def)

interpretation manager_inv: invariant_system "\<lambda>m. m = constraint_manager_new" manager_step manager_wf
  by unfold_locales (auto intro: manager_wf_new manager_step_wf)

section \<open>Lemmas on the parsers\<close>

text \<open>Text in which every parenthesis is closed and none is closed before it is opened.\<close>

fun balanced_from :: "string \<Rightarrow> nat \<Rightarrow> bool" where
  "balanced_from [] d = (d = 0)"
| "balanced_from (c # s) d =
     (if c = CHR ''('' then balanced_from s (d + 1)
      else if c = CHR '')'' then d > 0 \<and> balanced_from s (d - 1)
      else balanced_from s d)"

text \<open>Balanced text with no comma outside parentheses.\<close>

fun comma_free_from :: "string \<Rightarrow> nat \<Rightarrow> bool" where
  "comma_free_from [] d = True"
| "comma_free_from (c # s) d =
     (if c = CHR ''('' then comma_free_from s (d + 1)
      else if c = CHR '')'' then comma_free_from s (d - 1)
      else (c = CHR '','' \<longrightarrow> d > 0) \<and> comma_free_from s d)"

definition segment_ok :: "string \<Rightarrow> bool" where
  "segment_ok s \<longleftrightarrow> s \<noteq> [] \<and> trim s = s \<and> balanced_from s 0 \<and> comma_free_from s 0"

lemma split_commas_loop_segment:
  "balanced_from s d \<Longrightarrow> comma_free_from s d \<Longrightarrow>
     split_commas_loop (s @ rest) (int d) cur = split_commas_loop rest 0 (rev s @ cur)"
proof (induction s arbitrary: d cur)
  case (Cons c s)
  show ?case
  proof (cases "c = CHR '')''")
    case True
    with Cons.prems have "d > 0" by simp
    then have d: "int d - 1 = int (d - 1)" by simp
    have "split_commas_loop (s @ rest) (int (d - 1)) (c # cur) = split_commas_loop rest 0 (rev s @ c # cur)"
      by (rule Cons.IH) (use Cons.prems True in simp_all)
    moreover have "split_commas_loop ((c # s) @ rest) (int d) cur = split_commas_loop (s @ rest) (int d - 1) (c # cur)"
      using True by simp
    ultimately show ?thesis unfolding d by simp
  next
    case other: False
    show ?thesis
    proof (cases "c = CHR ''(''")
      case True
      have "split_commas_loop (s @ rest) (int (d + 1)) (c # cur) = split_commas_loop rest 0 (rev s @ c # cur)"
        by (rule Cons.IH) (use Cons.prems True in simp_all)
      moreover have "split_commas_loop ((c # s) @ rest) (int d) cur = split_commas_loop (s @ rest) (int d + 1) (c # cur)"
        using True by simp
      ultimately show ?thesis by (simp add: add.commute)
    next
      case False
      then have "\<not> (c = CHR '','' \<and> int d = 0)" using other Cons.prems by auto
      with False other Cons.prems Cons.IH [of d "c # cur"] show ?thesis by auto
    qed
  qed
qed simp

lemma closing_paren_balanced:
  "balanced_from e d \<Longrightarrow> closing_paren (e @ CHR '')'' # rest) (int d + 1) = Some (length e)"
proof (induction e arbitrary: d)
  case (Cons c e)
  show ?case
  proof (cases "c = CHR '')''")
    case True
    with Cons.prems have "d > 0" by simp
    then have d: "int d + 1 - 1 = int (d - 1) + 1" by simp
    have "closing_paren (e @ CHR '')'' # rest) (int (d - 1) + 1) = Some (length e)"
      by (rule Cons.IH) (use Cons.prems True in simp_all)
    moreover have "closing_paren ((c # e) @ CHR '')'' # rest) (int d + 1) =
        map_option Suc (closing_paren (e @ CHR '')'' # rest) (int d + 1 - 1))"
      using True \<open>d > 0\<close> by simp
    ultimately show ?thesis unfolding d by simp
  next
    case other: False
    show ?thesis
    proof (cases "c = CHR ''(''")
      case True
      have "closing_paren (e @ CHR '')'' # rest) (int (d + 1) + 1) = Some (length e)"
        by (rule Cons.IH) (use Cons.prems True in simp_all)
      moreover have "int (d + 1) + 1 = int d + 1 + 1" by simp
      ultimately have "closing_paren (e @ CHR '')'' # rest) (int d + 1 + 1) = Some (length e)" by simp
      then show ?thesis using True by (simp add: add.assoc)
    next
      case False
      with other Cons.prems Cons.IH [of d] show ?thesis by simp
    qed
  qed
qed simp

lemma find_str_here: "starts_with s p \<Longrightarrow> find_str s p = Some 0"
  by (subst find_str.simps) simp

lemma to_lowercase_append: "to_lowercase (a @ b) = to_lowercase a @ to_lowercase b"
  by (simp add: to_lowercase_def)

text \<open>The argument of a CHECK clause is the text between its parentheses.\<close>

lemma check_clause_arg:
  assumes "balanced_from e 0"
  shows "extract_paren_arg (''CHECK ('' @ e @ '')'' @ rest) ''check'' = Some (trim e)"
proof -
  have upper: "to_lowercase ''CHECK'' = ''check''" by code_simp
  have low: "to_lowercase (''CHECK ('' @ e @ '')'' @ rest) = ''check'' @ to_lowercase ('' ('' @ e @ '')'' @ rest)"
    using to_lowercase_append [of "''CHECK''" "'' ('' @ e @ '')'' @ rest"] upper by simp
  have kw: "find_str (to_lowercase (''CHECK ('' @ e @ '')'' @ rest)) ''check'' = Some 0"
    unfolding low by (rule find_str_here, rule starts_with_append)
  have op: "find_str ('' ('' @ e @ '')'' @ rest) ''('' = Some 1"
    by (simp add: find_str.simps [of "CHR '' '' # _"] find_str.simps [of "CHR ''('' # _"] starts_with_def)
  have "closing_paren (CHR ''('' # e @ CHR '')'' # rest) 0 = Some (Suc (length e))"
    using closing_paren_balanced [OF assms, of rest] by simp
  with kw op show ?thesis by (simp add: extract_paren_arg_def)
qed

section \<open>Properties\<close>

text \<open>
  C29: Validation decides the constraints. A value is accepted for a column exactly when it satisfies
  every constraint on the column (not null, no duplicate key, parent key present when the parent is
  tracked, check holds), whatever the iteration order, and an error names a constraint of the column
  that the value violates.
\<close>

theorem constraints_validate_iff:
  "(validate F m t c val = Ok () \<longleftrightarrow> list_all (satisfies F m val) (filter (on_column t c) (descriptors m))) \<and>
   (case validate F m t c val of
      Inl v \<Rightarrow> list_ex (\<lambda>d. cd_name d = violated_constraint v \<and> \<not> satisfies F m val d)
                 (filter (on_column t c) (descriptors m))
    | Inr _ \<Rightarrow> True)"
proof (cases "first_some (check_one F m c val) (filter (on_column t c) (descriptors m))")
  case None
  then have "validate F m t c val = Ok ()" by (simp add: validate_def)
  moreover have "list_all (satisfies F m val) (filter (on_column t c) (descriptors m))"
    using None by (simp add: first_some_None check_one_None list_all_iff)
  ultimately show ?thesis by simp
next
  case (Some v)
  from first_some_Some [OF this] obtain d where d: "d \<in> set (filter (on_column t c) (descriptors m))"
    "check_one F m c val d = Some v" by blast
  then have "\<not> satisfies F m val d" "cd_name d = violated_constraint v"
    using check_one_None [of F m c val d] check_one_constraint [of F m c val d v] by auto
  with d(1) Some show ?thesis by (auto simp: validate_def list_all_iff list_ex_iff)
qed



text \<open>
  The body of a CREATE TABLE comes apart at its top-level commas: joining trimmed segments whose
  parentheses balance and whose commas are all inside parentheses by commas and splitting again gives
  the segments back.
\<close>

theorem constraints_split_segments:
  assumes "\<forall>s\<in>set segs. segment_ok s"
  shows "split_top_level_commas (join '','' segs) = segs"
proof -
  have "split_commas_loop (join '','' segs) 0 [] = segs"
    using assms
  proof (induction segs rule: induct_list012)
    case (2 x)
    then have "segment_ok x" by simp
    then show ?case
      using split_commas_loop_segment [of x 0 "[]" "[]"] by (simp add: segment_ok_def)
  next
    case (3 x y ys)
    then have "segment_ok x" by simp
    then show ?case
      using split_commas_loop_segment [of x 0 "'','' @ join '','' (y # ys)" "[]"] 3 by (simp add: segment_ok_def)
  qed (simp add: trim_id)
  then show ?thesis by (simp add: split_top_level_commas_def)
qed

theorem constraints_split_segments_witness:
  "split_top_level_commas (join '','' [''id INT'', ''CHECK (a, b)'']) = [''id INT'', ''CHECK (a, b)'']"
proof -
  have "segment_ok ''id INT''" "segment_ok ''CHECK (a, b)''" by code_simp+
  then show ?thesis by (intro constraints_split_segments) simp
qed

text \<open>
  A constraint whose name occurs in the word \<^verbatim>\<open>constraint\<close> is lost, and a misplaced parenthesis
  panics. The parser skips the name at its first occurrence in the clause, which for such a name is
  inside the keyword itself, and then recognises no clause.
\<close>

theorem constraints_name_lost:
  "parse_alter_add_constraint ''ALTER TABLE t ADD CONSTRAINT c CHECK (x > 0)'' = Some None \<and>
   (\<exists>p. parse_alter_add_constraint ''ALTER TABLE t ADD CONSTRAINT xk CHECK (x > 0)'' = Some (Some p) \<and>
      pc_name p = ''xk'' \<and> pc_column p = ''x'' \<and> pc_check_expr p = Some ''x > 0'') \<and>
   parse_alter_add_constraint ''ALTER TABLE t ADD FOREIGN KEY (a) REFERENCES p)('' = None"
proof (intro conjI)
  show "parse_alter_add_constraint ''ALTER TABLE t ADD CONSTRAINT c CHECK (x > 0)'' = Some None" by code_simp
  show "parse_alter_add_constraint ''ALTER TABLE t ADD FOREIGN KEY (a) REFERENCES p)('' = None" by code_simp
  have "parse_alter_add_constraint ''ALTER TABLE t ADD CONSTRAINT xk CHECK (x > 0)'' =
      Some (Some \<lparr>pc_name = ''xk'', pc_table = ''t'', pc_column = ''x'', pc_kind = CheckKind,
        pc_ref_table = None, pc_ref_column = None, pc_check_expr = Some ''x > 0''\<rparr>)" by code_simp
  then show "\<exists>p. parse_alter_add_constraint ''ALTER TABLE t ADD CONSTRAINT xk CHECK (x > 0)'' = Some (Some p) \<and>
      pc_name p = ''xk'' \<and> pc_column p = ''x'' \<and> pc_check_expr p = Some ''x > 0''" by simp
qed

end
