(* ===== verification/Audit_Chain.thy ===== *)
theory Audit_Chain
  imports Vng_Prelude Vng_Text "HOL-Library.Word"
begin

text \<open>
  The append-only audit sink of \<^verbatim>\<open>crates/voltnuerongrid-audit/src/lib.rs\<close>: events with consecutive
  ids, each with the hash of its contents and of the hash before it, and the walk that looks for the
  first event whose hash does not fit. The hash is computed on 64-bit words with the wrap-around of
  the code; the clock is an argument.

  The lemmas show what the chain detects. One round of the hash is a bijection of the state for every
  byte, because the multiplier is odd; so two inputs that differ in one byte never have the same hash.
\<close>

unbundle bit_operations_syntax

section \<open>Hash\<close>

definition fnv_offset :: "64 word" where
  "fnv_offset = 14695981039346656037"

definition fnv_prime :: "64 word" where
  "fnv_prime = 1099511628211"

definition fnv_round :: "char \<Rightarrow> 64 word \<Rightarrow> 64 word" where
  "fnv_round byte hash = (hash XOR of_nat (of_char byte)) * fnv_prime"

definition hex_digit :: "nat \<Rightarrow> char" where
  "hex_digit n = (if n < 10 then char_of (48 + n) else char_of (87 + n))"

definition hex16 :: "64 word \<Rightarrow> string" where
  "hex16 w = map (\<lambda>i. hex_digit (unat (take_bit 4 (drop_bit (4 * i) w)))) (rev [0..<16])"

definition chain_input :: "string \<Rightarrow> nat \<Rightarrow> string \<Rightarrow> string \<Rightarrow> string \<Rightarrow> string \<Rightarrow> string" where
  "chain_input prev_hash event_id actor action outcome details_json =
     prev_hash @ ''|'' @ show_nat event_id @ ''|'' @ actor @ ''|'' @ action @ ''|'' @ outcome @ ''|'' @ details_json"

definition chain_step :: "string \<Rightarrow> nat \<Rightarrow> string \<Rightarrow> string \<Rightarrow> string \<Rightarrow> string \<Rightarrow> string" where
  "chain_step prev_hash event_id actor action outcome details_json =
     hex16 (fold fnv_round (chain_input prev_hash event_id actor action outcome details_json) fnv_offset)"

definition chain_genesis :: string where
  "chain_genesis = ''genesis-0000000000000000''"

section \<open>Sink\<close>

datatype audit_event_kind = Autonomous | Failover | Ingest | Security | Sql | Storage

record audit_event =
  ae_event_id :: nat
  ae_occurred_epoch_ms :: nat
  ae_actor :: string
  ae_action :: string
  ae_kind :: audit_event_kind
  ae_outcome :: string
  ae_details_json :: string
  ae_chain_hash :: string

record audit_sink =
  as_next_event_id :: nat
  as_events :: "audit_event list"
  as_prev_chain_hash :: string

definition audit_sink_new :: audit_sink where
  "audit_sink_new = \<lparr>as_next_event_id = 1, as_events = [], as_prev_chain_hash = chain_genesis\<rparr>"

definition audit_append ::
  "nat \<Rightarrow> audit_event_kind \<Rightarrow> string \<Rightarrow> string \<Rightarrow> string \<Rightarrow> string \<Rightarrow> audit_sink \<Rightarrow> audit_event \<times> audit_sink" where
  "audit_append now kind actor action outcome details_json sink =
     (let chain_hash = chain_step (as_prev_chain_hash sink) (as_next_event_id sink) actor action outcome details_json;
          event = \<lparr>ae_event_id = as_next_event_id sink, ae_occurred_epoch_ms = now, ae_actor = actor,
            ae_action = action, ae_kind = kind, ae_outcome = outcome, ae_details_json = details_json,
            ae_chain_hash = chain_hash\<rparr>
      in (event,
          \<lparr>as_next_event_id = as_next_event_id sink + 1, as_events = as_events sink @ [event],
           as_prev_chain_hash = chain_hash\<rparr>))"

definition audit_latest :: "nat \<Rightarrow> audit_sink \<Rightarrow> audit_event list" where
  "audit_latest max_items sink = drop (length (as_events sink) - max_items) (as_events sink)"

definition event_hash :: "string \<Rightarrow> audit_event \<Rightarrow> string" where
  "event_hash expected e =
     chain_step expected (ae_event_id e) (ae_actor e) (ae_action e) (ae_outcome e) (ae_details_json e)"

fun tamper_point_from :: "string \<Rightarrow> audit_event list \<Rightarrow> nat option" where
  "tamper_point_from expected [] = None"
| "tamper_point_from expected (e # es) =
     (if event_hash expected e \<noteq> ae_chain_hash e then Some (ae_event_id e)
      else tamper_point_from (event_hash expected e) es)"

definition verify_chain_tamper_point :: "audit_event list \<Rightarrow> nat option" where
  "verify_chain_tamper_point events = tamper_point_from chain_genesis events"

definition verify_chain :: "audit_event list \<Rightarrow> bool" where
  "verify_chain events \<longleftrightarrow> verify_chain_tamper_point events = None"

section \<open>Specification\<close>

text \<open>The appends of a client, in order, and edits of a stored event that leave its hash alone.\<close>

type_synonym audit_request = "nat \<times> audit_event_kind \<times> string \<times> string \<times> string \<times> string"

fun audit_run :: "audit_request list \<Rightarrow> audit_sink \<Rightarrow> audit_sink" where
  "audit_run [] sink = sink"
| "audit_run ((now, kind, actor, action, outcome, details) # rs) sink =
     audit_run rs (snd (audit_append now kind actor action outcome details sink))"

definition one_byte_differs :: "string \<Rightarrow> string \<Rightarrow> bool" where
  "one_byte_differs s t \<longleftrightarrow> (\<exists>xs c d ys. s = xs @ c # ys \<and> t = xs @ d # ys \<and> c \<noteq> d)"

definition one_byte_edit :: "audit_event \<Rightarrow> audit_event \<Rightarrow> bool" where
  "one_byte_edit e e' \<longleftrightarrow> (\<exists>s.
     one_byte_differs (ae_actor e) s \<and> e' = e\<lparr>ae_actor := s\<rparr> \<or>
     one_byte_differs (ae_action e) s \<and> e' = e\<lparr>ae_action := s\<rparr> \<or>
     one_byte_differs (ae_outcome e) s \<and> e' = e\<lparr>ae_outcome := s\<rparr> \<or>
     one_byte_differs (ae_details_json e) s \<and> e' = e\<lparr>ae_details_json := s\<rparr>)"

text \<open>
  The hash a chain ends with, and the invariant of the sink: an intact chain from the genesis value,
  numbered consecutively from one.
\<close>

fun end_hash :: "string \<Rightarrow> audit_event list \<Rightarrow> string" where
  "end_hash h [] = h"
| "end_hash h (e # es) = end_hash (ae_chain_hash e) es"

definition sink_inv :: "audit_sink \<Rightarrow> bool" where
  "sink_inv s \<longleftrightarrow>
     tamper_point_from chain_genesis (as_events s) = None \<and>
     as_prev_chain_hash s = end_hash chain_genesis (as_events s) \<and>
     map ae_event_id (as_events s) = [1..<Suc (length (as_events s))] \<and>
     as_next_event_id s = Suc (length (as_events s))"

section \<open>Injectivity of the hash\<close>

lemma fnv_prime_inverse: "fnv_prime * 14886173955864302971 = 1"
  by (simp add: fnv_prime_def)

lemma fnv_prime_cancel:
  assumes "a * fnv_prime = b * fnv_prime"
  shows "a = b"
proof -
  have "a * (fnv_prime * 14886173955864302971) = b * (fnv_prime * 14886173955864302971)"
    using assms by (simp add: mult.assoc [symmetric])
  then show ?thesis by (simp only: fnv_prime_inverse mult_1_right)
qed

lemma xor_cancel_left:
  fixes a b c :: "64 word"
  assumes "c XOR a = c XOR b"
  shows "a = b"
proof -
  have "(c XOR c) XOR a = (c XOR c) XOR b" using assms by (simp only: xor.assoc)
  then show ?thesis by simp
qed

lemma xor_cancel_right: "a XOR c = b XOR c \<Longrightarrow> a = b" for a b c :: "64 word"
  by (rule xor_cancel_left [of c]) (simp add: xor.commute)

lemma of_char_word_inj:
  assumes "(of_nat (of_char c) :: 64 word) = of_nat (of_char d)"
  shows "c = d"
proof -
  have nat: "unat (of_nat (of_char c) :: 64 word) = of_char c" for c
  proof -
    have "unat (of_nat (of_char c) :: 64 word) = of_char c mod 2 ^ 64" by (simp add: unsigned_of_nat take_bit_eq_mod)
    moreover have "of_char c < (2 ^ 64 :: nat)" by (rule less_trans [of _ 256]) simp_all
    ultimately show ?thesis by simp
  qed
  from assms have "(of_char c :: nat) = of_char d" by (metis nat)
  then show ?thesis by simp
qed

lemma fnv_round_inj: "fnv_round b h = fnv_round b h' \<Longrightarrow> h = h'"
  unfolding fnv_round_def by (drule fnv_prime_cancel) (rule xor_cancel_right)

lemma fnv_round_byte_inj: "fnv_round b h = fnv_round c h \<Longrightarrow> b = c"
  unfolding fnv_round_def by (drule fnv_prime_cancel, drule xor_cancel_left, rule of_char_word_inj)

lemma fold_fnv_inj: "fold fnv_round s h = fold fnv_round s h' \<Longrightarrow> h = h'"
  by (induction s arbitrary: h h') (auto dest: fnv_round_inj)

lemma fold_fnv_one_byte: "one_byte_differs s t \<Longrightarrow> fold fnv_round s h \<noteq> fold fnv_round t h"
  unfolding one_byte_differs_def by (auto dest!: fold_fnv_inj fnv_round_byte_inj)

lemma hex_digit_inj:
  assumes "m < 16" "n < 16" "hex_digit m = hex_digit n"
  shows "m = n"
proof -
  have code: "of_char (hex_digit k) = (if k < 10 then 48 + k else 87 + k)" if "k < 16" for k :: nat
    using that by (simp add: hex_digit_def of_char_of)
  from assms(3) have "(of_char (hex_digit m) :: nat) = of_char (hex_digit n)" by simp
  then show ?thesis using code [OF assms(1)] code [OF assms(2)] assms(1,2) by (auto split: if_splits)
qed

lemma nibble_less: "unat (take_bit 4 (w :: 64 word)) < 16"
proof -
  have "unat (take_bit 4 w) = take_bit 4 (unat w)" by (simp add: unsigned_take_bit_eq)
  then show ?thesis by (simp add: take_bit_eq_mod)
qed

lemma hex16_inj:
  assumes "hex16 v = hex16 w"
  shows "v = w"
proof (rule bit_word_eqI)
  fix n assume n: "n < LENGTH(64)"
  have "\<forall>i\<in>set (rev [0..<16]). hex_digit (unat (take_bit 4 (drop_bit (4 * i) v))) =
      hex_digit (unat (take_bit 4 (drop_bit (4 * i) w)))"
    using assms by (simp only: hex16_def map_eq_conv)
  with n have "hex_digit (unat (take_bit 4 (drop_bit (4 * (n div 4)) v))) =
      hex_digit (unat (take_bit 4 (drop_bit (4 * (n div 4)) w)))"
    by auto
  then have "take_bit 4 (drop_bit (4 * (n div 4)) v) = take_bit 4 (drop_bit (4 * (n div 4)) w)"
    using hex_digit_inj [OF nibble_less nibble_less] by (metis unsigned_word_eqI)
  then have "bit (take_bit 4 (drop_bit (4 * (n div 4)) v)) (n mod 4) =
      bit (take_bit 4 (drop_bit (4 * (n div 4)) w)) (n mod 4)"
    by simp
  then show "bit v n = bit w n" by (simp add: bit_take_bit_iff bit_drop_bit_eq)
qed

section \<open>Edits of an event\<close>

lemma one_byte_differs_context:
  assumes "one_byte_differs s t"
  shows "one_byte_differs (u @ s) (u @ t)" "one_byte_differs (c # s) (c # t)" "one_byte_differs (s @ v) (t @ v)"
proof -
  obtain xs c' d ys where "s = xs @ c' # ys" "t = xs @ d # ys" "c' \<noteq> d"
    using assms unfolding one_byte_differs_def by blast
  then have "s = xs @ c' # ys \<and> t = xs @ d # ys \<and> c' \<noteq> d"
    "u @ s = (u @ xs) @ c' # ys \<and> u @ t = (u @ xs) @ d # ys \<and> c' \<noteq> d"
    "c # s = (c # xs) @ c' # ys \<and> c # t = (c # xs) @ d # ys \<and> c' \<noteq> d"
    "s @ v = xs @ c' # (ys @ v) \<and> t @ v = xs @ d # (ys @ v) \<and> c' \<noteq> d"
    by simp_all
  then show "one_byte_differs (u @ s) (u @ t)" "one_byte_differs (c # s) (c # t)" "one_byte_differs (s @ v) (t @ v)"
    unfolding one_byte_differs_def by blast+
qed

lemma one_byte_edit_hash:
  assumes "one_byte_edit e e'"
  shows "event_hash prev e' \<noteq> event_hash prev e" "ae_event_id e' = ae_event_id e"
    "ae_chain_hash e' = ae_chain_hash e"
proof -
  let ?input = "\<lambda>e. chain_input prev (ae_event_id e) (ae_actor e) (ae_action e) (ae_outcome e) (ae_details_json e)"
  obtain s where
    "one_byte_differs (ae_actor e) s \<and> e' = e\<lparr>ae_actor := s\<rparr> \<or>
     one_byte_differs (ae_action e) s \<and> e' = e\<lparr>ae_action := s\<rparr> \<or>
     one_byte_differs (ae_outcome e) s \<and> e' = e\<lparr>ae_outcome := s\<rparr> \<or>
     one_byte_differs (ae_details_json e) s \<and> e' = e\<lparr>ae_details_json := s\<rparr>"
    using assms unfolding one_byte_edit_def by blast
  then have "one_byte_differs (?input e) (?input e')"
    by (auto simp: chain_input_def intro!: one_byte_differs_context)
  from fold_fnv_one_byte [OF this, of fnv_offset] show "event_hash prev e' \<noteq> event_hash prev e"
    unfolding event_hash_def chain_step_def by (metis hex16_inj)
  from assms show "ae_event_id e' = ae_event_id e" "ae_chain_hash e' = ae_chain_hash e"
    unfolding one_byte_edit_def by auto
qed

section \<open>Walking the chain\<close>

lemma tamper_point_append:
  "tamper_point_from h (es @ fs) =
     (case tamper_point_from h es of Some i \<Rightarrow> Some i | None \<Rightarrow> tamper_point_from (end_hash h es) fs)"
  by (induction es arbitrary: h) (auto split: option.splits)

lemma end_hash_snoc [simp]: "end_hash h (es @ [e]) = ae_chain_hash e"
  by (induction es arbitrary: h) auto

lemma sink_inv_new: "sink_inv audit_sink_new"
  by (simp add: sink_inv_def audit_sink_new_def)

lemma sink_inv_append:
  "sink_inv s \<Longrightarrow> sink_inv (snd (audit_append now kind actor action outcome details s))"
  by (simp add: sink_inv_def audit_append_def Let_def tamper_point_append event_hash_def)

lemma sink_inv_run: "sink_inv s \<Longrightarrow> sink_inv (audit_run rs s)"
  by (induction rs s rule: audit_run.induct) (simp_all add: sink_inv_append)

lemma audit_run_length: "length (as_events (audit_run rs s)) = length (as_events s) + length rs"
  by (induction rs s rule: audit_run.induct) (simp_all add: audit_append_def Let_def)

lemma tamper_detected:
  assumes "tamper_point_from h (es @ e # fs) = None" "one_byte_edit e e'"
  shows "tamper_point_from h (es @ e' # fs) = Some (ae_event_id e)"
  using assms(1) one_byte_edit_hash(1) [OF assms(2), of "end_hash h es"] one_byte_edit_hash(2,3) [OF assms(2)]
  by (simp add: tamper_point_append split: option.splits if_splits)

lemma verify_prefix: "verify_chain (es @ fs) \<Longrightarrow> verify_chain es"
  by (auto simp: verify_chain_def verify_chain_tamper_point_def tamper_point_append split: option.splits)

text \<open>Neither the kind nor the time of an event is part of the hash.\<close>

lemma tamper_point_ignores_kind_and_time:
  "verify_chain_tamper_point (map (\<lambda>e. e\<lparr>ae_kind := f e, ae_occurred_epoch_ms := g e\<rparr>) es) =
     verify_chain_tamper_point es"
proof -
  have "tamper_point_from h (map (\<lambda>e. e\<lparr>ae_kind := f e, ae_occurred_epoch_ms := g e\<rparr>) es) = tamper_point_from h es" for h
    by (induction es arbitrary: h) (simp_all add: event_hash_def)
  then show ?thesis by (simp add: verify_chain_tamper_point_def)
qed

text \<open>The separator is not escaped: text can move from one field to the next.\<close>

lemma chain_step_field_shift:
  "chain_step h i (a @ ''|'' @ b) c ou d = chain_step h i a (b @ ''|'' @ c) ou d"
  by (simp add: chain_step_def chain_input_def)

section \<open>Properties\<close>

text \<open>
  The audit sink keeps an intact chain. After any sequence of appends the events are numbered from
  one without a gap, none is lost, and the chain verifies.
\<close>

theorem audit_sink_intact:
  "verify_chain (as_events (audit_run rs audit_sink_new)) \<and>
   map ae_event_id (as_events (audit_run rs audit_sink_new)) = [1..<Suc (length rs)]"
  using sink_inv_run [OF sink_inv_new, of rs] audit_run_length [of rs audit_sink_new]
  by (simp add: sink_inv_def verify_chain_def verify_chain_tamper_point_def audit_sink_new_def)

text \<open>
  C11: Changing one byte of a stored event is always detected. If in a log written by the sink one byte
  of the actor, the action, the outcome or the details of one event is replaced by another, the walk
  over the chain reports exactly that event, wherever it is and whatever follows it. The 64-bit hash
  cannot collide on such a change.
\<close>

theorem audit_tamper_detected:
  assumes "i < length rs" "one_byte_edit (as_events (audit_run rs audit_sink_new) ! i) e'"
  shows "verify_chain_tamper_point ((as_events (audit_run rs audit_sink_new))[i := e']) = Some (Suc i)"
proof -
  let ?es = "as_events (audit_run rs audit_sink_new)"
  have inv: "sink_inv (audit_run rs audit_sink_new)" by (rule sink_inv_run [OF sink_inv_new])
  have len: "length ?es = length rs" by (simp add: audit_run_length audit_sink_new_def)
  then have i: "i < length ?es" using assms(1) by simp
  have "map ae_event_id ?es ! i = [1..<Suc (length ?es)] ! i" using inv by (simp add: sink_inv_def)
  then have id: "ae_event_id (?es ! i) = Suc i" using i by (simp del: upt_Suc)
  have "tamper_point_from chain_genesis (take i ?es @ ?es ! i # drop (Suc i) ?es) = None"
    using inv i by (simp add: sink_inv_def id_take_nth_drop [symmetric])
  from tamper_detected [OF this assms(2)] show ?thesis
    using i id by (simp add: verify_chain_tamper_point_def upd_conv_take_nth_drop)
qed

theorem audit_tamper_detected_witness:
  "verify_chain_tamper_point
     ((as_events (audit_run [(5, Sql, ''op'', ''drop'', ''ok'', ''{}''), (6, Sql, ''op'', ''grant'', ''denied'', ''{}''),
         (7, Sql, ''op'', ''read'', ''ok'', ''{}'')] audit_sink_new))
      [1 := (as_events (audit_run [(5, Sql, ''op'', ''drop'', ''ok'', ''{}''), (6, Sql, ''op'', ''grant'', ''denied'', ''{}''),
         (7, Sql, ''op'', ''read'', ''ok'', ''{}'')] audit_sink_new) ! 1)\<lparr>ae_actor := ''ox''\<rparr>]) = Some 2"
proof -
  have "one_byte_differs ''op'' ''ox''"
    unfolding one_byte_differs_def
    by (rule exI [of _ "''o''"], rule exI [of _ "CHR ''p''"], rule exI [of _ "CHR ''x''"], rule exI [of _ "[]"]) simp
  then show ?thesis
    using audit_tamper_detected [of 1 "[(5, Sql, ''op'', ''drop'', ''ok'', ''{}''),
        (6, Sql, ''op'', ''grant'', ''denied'', ''{}''), (7, Sql, ''op'', ''read'', ''ok'', ''{}'')]"]
    by (simp add: one_byte_edit_def audit_append_def Let_def audit_sink_new_def)
qed

end
