(* ===== verification/Database_Catalog.thy ===== *)
theory Database_Catalog
  imports Vng_Prelude Vng_Text
begin

text \<open>
  The database catalog of \<^verbatim>\<open>crates/voltnuerongrid-meta/src/lib.rs\<close>: the parser for database names,
  the catalog with its create, drop and lookup operations, and the layout of the metadata schema. The
  \<^verbatim>\<open>BTreeMap\<close> is the list of its entries in key order. Names are ASCII; the time of creation is an
  argument. The JSON form of the catalog is left to the serialisation library.
\<close>

section \<open>Names\<close>

datatype database_name_error =
    EmptyName
  | TooLong nat
  | InvalidStart char
  | InvalidChar char
  | Reserved string

definition ascii_alphabetic :: "char \<Rightarrow> bool" where
  "ascii_alphabetic c \<longleftrightarrow> (let n = of_char c :: nat in 65 \<le> n \<and> n \<le> 90 \<or> 97 \<le> n \<and> n \<le> 122)"

definition ascii_digit :: "char \<Rightarrow> bool" where
  "ascii_digit c \<longleftrightarrow> (let n = of_char c :: nat in 48 \<le> n \<and> n \<le> 57)"

definition name_char :: "char \<Rightarrow> bool" where
  "name_char c \<longleftrightarrow> ascii_alphabetic c \<or> ascii_digit c \<or> c = CHR ''_''"

definition name_start :: "char \<Rightarrow> bool" where
  "name_start c \<longleftrightarrow> ascii_alphabetic c \<or> c = CHR ''_''"

definition reserved_names :: "string list" where
  "reserved_names = [''metadata'', ''information_schema'', ''pg_catalog'', ''vng_system'']"

definition database_name_parse :: "string \<Rightarrow> (string, database_name_error) result" where
  "database_name_parse input =
     (let trimmed = trim input
      in if trimmed = [] then Err EmptyName
         else if 63 < length trimmed then Err (TooLong (length trimmed))
         else
           (let lower = to_lowercase trimmed
            in if \<not> name_start (hd lower) then Err (InvalidStart (hd lower))
               else case find (\<lambda>c. \<not> name_char c) lower of
                      Some ch \<Rightarrow> Err (InvalidChar ch)
                    | None \<Rightarrow> if lower \<in> set reserved_names then Err (Reserved lower) else Ok lower))"

section \<open>Catalog\<close>

record database =
  db_name :: string
  db_created_at_ms :: nat
  db_owner :: "string option"
  db_description :: "string option"

datatype database_catalog_error =
    DatabaseAlreadyExists string
  | DatabaseNotFound string
  | InvalidName database_name_error

type_synonym database_catalog = "(string \<times> database) list"

definition non_blank :: "string option \<Rightarrow> string option" where
  "non_blank s = (case map_option trim s of Some t \<Rightarrow> if t = [] then None else Some t | None \<Rightarrow> None)"

definition catalog_create ::
  "string \<Rightarrow> nat \<Rightarrow> string option \<Rightarrow> string option \<Rightarrow> database_catalog \<Rightarrow>
     (database \<times> database_catalog, database_catalog_error) result" where
  "catalog_create name now_ms owner description cat =
     (case database_name_parse name of
        Inl e \<Rightarrow> Err (InvalidName e)
      | Inr parsed \<Rightarrow>
          if map_of cat parsed \<noteq> None then Err (DatabaseAlreadyExists parsed)
          else
            (let db = \<lparr>db_name = parsed, db_created_at_ms = now_ms, db_owner = non_blank owner,
                       db_description = non_blank description\<rparr>
             in Ok (db, insort_key fst (parsed, db) cat)))"

definition catalog_drop_database ::
  "string \<Rightarrow> bool \<Rightarrow> database_catalog \<Rightarrow> (database option \<times> database_catalog, database_catalog_error) result" where
  "catalog_drop_database name if_exists cat =
     (case database_name_parse name of
        Inl e \<Rightarrow> Err (InvalidName e)
      | Inr parsed \<Rightarrow>
          (case map_of cat parsed of
             Some db \<Rightarrow> Ok (Some db, AList.delete parsed cat)
           | None \<Rightarrow> if if_exists then Ok (None, cat) else Err (DatabaseNotFound parsed)))"

definition catalog_get :: "string \<Rightarrow> database_catalog \<Rightarrow> database option" where
  "catalog_get name cat =
     (case database_name_parse name of Inl e \<Rightarrow> None | Inr parsed \<Rightarrow> map_of cat parsed)"

definition catalog_exists :: "string \<Rightarrow> database_catalog \<Rightarrow> bool" where
  "catalog_exists name cat \<longleftrightarrow> catalog_get name cat \<noteq> None"

definition catalog_list :: "database_catalog \<Rightarrow> database list" where
  "catalog_list cat = map snd cat"

section \<open>Metadata schema\<close>

datatype metadata_table =
    Databases | Schemas | Tables | Columns | Indexes | Views | Routines | Triggers | Users | Roles | Grants | Settings

definition metadata_all :: "metadata_table list" where
  "metadata_all =
     [Databases, Schemas, Tables, Columns, Indexes, Views, Routines, Triggers, Users, Roles, Grants, Settings]"

fun metadata_name :: "metadata_table \<Rightarrow> string" where
  "metadata_name Databases = ''databases''"
| "metadata_name Schemas = ''schemas''"
| "metadata_name Tables = ''tables''"
| "metadata_name Columns = ''columns''"
| "metadata_name Indexes = ''indexes''"
| "metadata_name Views = ''views''"
| "metadata_name Routines = ''routines''"
| "metadata_name Triggers = ''triggers''"
| "metadata_name Users = ''users''"
| "metadata_name Roles = ''roles''"
| "metadata_name Grants = ''grants''"
| "metadata_name Settings = ''settings''"

fun metadata_columns :: "metadata_table \<Rightarrow> string list" where
  "metadata_columns Databases = [''name'', ''owner'', ''created_at_ms'', ''description'']"
| "metadata_columns Schemas = [''database_name'', ''schema_name'']"
| "metadata_columns Tables = [''database_name'', ''schema_name'', ''table_name'', ''kind'', ''created_at_ms'']"
| "metadata_columns Columns =
     [''database_name'', ''schema_name'', ''table_name'', ''column_name'', ''ordinal_position'', ''data_type'', ''is_nullable'']"
| "metadata_columns Indexes =
     [''database_name'', ''schema_name'', ''table_name'', ''index_name'', ''column_name'', ''is_unique'']"
| "metadata_columns Views = [''database_name'', ''schema_name'', ''view_name'', ''definition'']"
| "metadata_columns Routines = [''database_name'', ''schema_name'', ''routine_name'', ''language'', ''kind'']"
| "metadata_columns Triggers = [''database_name'', ''schema_name'', ''trigger_name'', ''table_name'', ''event'']"
| "metadata_columns Users = [''database_name'', ''username'', ''created_at_ms'']"
| "metadata_columns Roles = [''database_name'', ''role_name'']"
| "metadata_columns Grants = [''database_name'', ''role_name'', ''object'', ''privilege'']"
| "metadata_columns Settings = [''database_name'', ''key'', ''value'', ''scope'']"

definition metadata_parse_name :: "string \<Rightarrow> metadata_table option" where
  "metadata_parse_name input =
     (let n = to_lowercase (trim input)
      in if n = ''databases'' then Some Databases
         else if n = ''schemas'' then Some Schemas
         else if n = ''tables'' then Some Tables
         else if n = ''columns'' then Some Columns
         else if n = ''indexes'' then Some Indexes
         else if n = ''views'' then Some Views
         else if n = ''routines'' then Some Routines
         else if n = ''triggers'' then Some Triggers
         else if n = ''users'' then Some Users
         else if n = ''roles'' then Some Roles
         else if n = ''grants'' then Some Grants
         else if n = ''settings'' then Some Settings
         else None)"

definition metadata_schema_layout :: "(string \<times> string list) list" where
  "metadata_schema_layout = map (\<lambda>t. (metadata_name t, metadata_columns t)) metadata_all"

section \<open>Specification\<close>

text \<open>
  A database name as the type promises it: one to 63 of the characters \<open>a-z\<close>, \<open>0-9\<close> and underscore,
  no digit in front, not reserved.
\<close>

definition lower_name_char :: "char \<Rightarrow> bool" where
  "lower_name_char c \<longleftrightarrow> (97 \<le> (of_char c :: nat) \<and> (of_char c :: nat) \<le> 122) \<or> ascii_digit c \<or> c = CHR ''_''"

definition valid_database_name :: "string \<Rightarrow> bool" where
  "valid_database_name n \<longleftrightarrow>
     n \<noteq> [] \<and> length n \<le> 63 \<and> list_all lower_name_char n \<and> \<not> ascii_digit (hd n) \<and> n \<notin> set reserved_names"

definition catalog_wf :: "database_catalog \<Rightarrow> bool" where
  "catalog_wf cat \<longleftrightarrow>
     sorted (map fst cat) \<and> distinct (map fst cat) \<and>
     list_all (\<lambda>(k, d). db_name d = k \<and> valid_database_name k) cat"

inductive catalog_op :: "database_catalog \<Rightarrow> database_catalog \<Rightarrow> bool" where
  op_create: "catalog_create name now owner description cat = Ok (d, cat') \<Longrightarrow> catalog_op cat cat'"
| op_drop: "catalog_drop_database name if_exists cat = Ok (d, cat') \<Longrightarrow> catalog_op cat cat'"

section \<open>Names are canonical\<close>

lemma ascii_lower_code:
  "of_char (ascii_lower c) = (let n = (of_char c :: nat) in if 65 \<le> n \<and> n \<le> 90 then n + 32 else n)"
  by (simp add: ascii_lower_def Let_def of_char_of)

lemma lower_not_upper: "\<not> (65 \<le> (of_char (ascii_lower c) :: nat) \<and> (of_char (ascii_lower c) :: nat) \<le> 90)"
  by (simp add: ascii_lower_code Let_def)

lemma lower_name_char_lower: "name_char (ascii_lower c) \<Longrightarrow> lower_name_char (ascii_lower c)"
  using lower_not_upper [of c] by (auto simp: name_char_def lower_name_char_def ascii_alphabetic_def Let_def)

lemma ascii_lower_idem: "ascii_lower (ascii_lower c) = ascii_lower c"
  using lower_not_upper [of c] unfolding ascii_lower_def [of "ascii_lower c"] Let_def by (simp only: if_False)

lemma to_lowercase_idem [simp]: "to_lowercase (to_lowercase s) = to_lowercase s"
  by (simp add: to_lowercase_def ascii_lower_idem)

lemma digit_not_start: "name_start c \<Longrightarrow> \<not> ascii_digit c"
  by (auto simp: name_start_def ascii_alphabetic_def ascii_digit_def Let_def)

lemma parse_OkD:
  assumes "database_name_parse input = Ok n"
  shows "n = to_lowercase (trim input)" "trim input \<noteq> []" "length n \<le> 63" "name_start (hd n)"
    "list_all name_char n" "n \<notin> set reserved_names"
  using assms
  by (auto simp: database_name_parse_def Let_def to_lowercase_def find_None_iff list_all_iff
      split: if_splits option.splits)

lemma parse_valid:
  assumes "database_name_parse input = Ok n"
  shows "valid_database_name n"
proof -
  note d = parse_OkD [OF assms]
  have "list_all lower_name_char n"
    using d(5) lower_name_char_lower unfolding d(1) to_lowercase_def by (auto simp: list_all_iff)
  with d digit_not_start show ?thesis by (auto simp: valid_database_name_def to_lowercase_def)
qed

lemma lower_name_char_facts:
  assumes "lower_name_char c"
  shows "\<not> is_whitespace c" "ascii_lower c = c" "name_char c" "\<not> ascii_digit c \<Longrightarrow> name_start c"
  using assms
  by (auto simp: lower_name_char_def is_whitespace_def ascii_lower_def name_char_def name_start_def
      ascii_alphabetic_def ascii_digit_def Let_def)

lemma valid_parse:
  assumes "valid_database_name n"
  shows "database_name_parse n = Ok n"
proof -
  have cs: "lower_name_char c" if "c \<in> set n" for c
    using assms that by (auto simp: valid_database_name_def list_all_iff)
  have trim: "trim n = n"
    by (rule trim_id) (use assms cs lower_name_char_facts(1) in \<open>auto simp: valid_database_name_def\<close>)
  have lower: "to_lowercase n = n"
    unfolding to_lowercase_def by (rule map_idI) (use cs lower_name_char_facts(2) in blast)
  have "find (\<lambda>c. \<not> name_char c) n = None"
    using cs lower_name_char_facts(3) by (auto simp: find_None_iff)
  moreover have "name_start (hd n)"
    using assms cs [of "hd n"] lower_name_char_facts(4) by (auto simp: valid_database_name_def)
  ultimately show ?thesis
    using assms trim lower by (auto simp: database_name_parse_def valid_database_name_def)
qed

section \<open>The catalog is a map of canonical names\<close>

lemma catalog_create_OkD:
  assumes "catalog_create name now owner description cat = Ok (d, cat')"
  obtains k where "database_name_parse name = Ok k" "map_of cat k = None"
    "d = \<lparr>db_name = k, db_created_at_ms = now, db_owner = non_blank owner, db_description = non_blank description\<rparr>"
    "cat' = insort_key fst (k, d) cat"
  using assms by (auto simp: catalog_create_def Let_def split: sum.splits if_splits)

lemma delete_absent: "map_of xs k = None \<Longrightarrow> AList.delete k xs = xs"
  by (induction xs) (auto split: if_splits)

lemma catalog_drop_OkD:
  assumes "catalog_drop_database name if_exists cat = Ok (r, cat')"
  obtains k where "database_name_parse name = Ok k" "r = map_of cat k" "cat' = AList.delete k cat"
  using assms
  by (auto simp: catalog_drop_database_def delete_absent split: sum.splits option.splits if_splits)

lemma catalog_wf_create [inv_laws]:
  assumes "catalog_wf cat" "catalog_create name now owner description cat = Ok (d, cat')"
  shows "catalog_wf cat'"
proof -
  obtain k where k: "database_name_parse name = Ok k" "map_of cat k = None" "db_name d = k"
    "cat' = insort_key fst (k, d) cat"
    using assms(2) by (rule catalog_create_OkD) auto
  have "distinct (map fst cat')"
    using assms(1) k(2,4) by (simp add: catalog_wf_def map_of_eq_None_iff distinct_insort_key)
  then show ?thesis
    using assms(1) k(3,4) parse_valid [OF k(1)]
    by (auto simp: catalog_wf_def sorted_insort_key list_all_iff set_insort_key)
qed

lemma catalog_wf_drop [inv_laws]:
  assumes "catalog_wf cat" "catalog_drop_database name if_exists cat = Ok (d, cat')"
  shows "catalog_wf cat'"
  using assms(2)
proof (rule catalog_drop_OkD)
  fix k assume "cat' = AList.delete k cat"
  then show ?thesis
    using assms(1) by (auto simp: catalog_wf_def AList.delete_eq list_all_iff sorted_filter distinct_map_fst_filter)
qed

interpretation catalogs: invariant_system "\<lambda>c. c = []" catalog_op catalog_wf
proof
  show "c = [] \<Longrightarrow> catalog_wf c" for c by (simp add: catalog_wf_def)
  show "catalog_wf c \<Longrightarrow> catalog_op c c' \<Longrightarrow> catalog_wf c'" for c c'
    by (auto elim!: catalog_op.cases intro: inv_laws)
qed

lemma catalog_create_map:
  "case catalog_create name now owner description cat of
     Inr (d, cat') \<Rightarrow>
       catalog_get name cat = None \<and>
       (\<forall>other. catalog_get other cat' =
          (if database_name_parse other = database_name_parse name then Some d else catalog_get other cat))
   | Inl e \<Rightarrow> (case database_name_parse name of
       Inl e' \<Rightarrow> e = InvalidName e' | Inr k \<Rightarrow> e = DatabaseAlreadyExists k \<and> catalog_exists name cat)"
proof (cases "catalog_create name now owner description cat")
  case (Inl e)
  then show ?thesis
    by (auto simp: catalog_create_def catalog_exists_def catalog_get_def Let_def split: sum.splits if_splits)
next
  case (Inr p)
  obtain d cat' where p: "p = (d, cat')" by (cases p)
  from Inr p obtain k where "database_name_parse name = Ok k" "map_of cat k = None" "cat' = insort_key fst (k, d) cat"
    by (auto elim: catalog_create_OkD)
  then show ?thesis
    using Inr p by (auto simp: catalog_get_def map_of_insort_key map_of_eq_None_iff split: sum.splits)
qed

lemma catalog_drop_map:
  "case catalog_drop_database name if_exists cat of
     Inr (r, cat') \<Rightarrow>
       r = catalog_get name cat \<and>
       (\<forall>other. catalog_get other cat' =
          (if database_name_parse other = database_name_parse name then None else catalog_get other cat))
   | Inl e \<Rightarrow> \<not> catalog_exists name cat"
proof (cases "catalog_drop_database name if_exists cat")
  case (Inl e)
  then show ?thesis
    by (auto simp: catalog_drop_database_def catalog_exists_def catalog_get_def split: sum.splits option.splits if_splits)
next
  case (Inr p)
  obtain r cat' where p: "p = (r, cat')" by (cases p)
  from Inr p obtain k where "database_name_parse name = Ok k" "r = map_of cat k" "cat' = AList.delete k cat"
    by (auto elim: catalog_drop_OkD)
  then show ?thesis using Inr p by (auto simp: catalog_get_def split: sum.splits)
qed

lemma catalog_get_spelling: "database_name_parse a = database_name_parse b \<Longrightarrow> catalog_get a cat = catalog_get b cat"
  by (simp add: catalog_get_def)

lemma database_name_parse_spelling:
  assumes "to_lowercase (trim a) = to_lowercase (trim b)"
  shows "database_name_parse a = database_name_parse b"
proof -
  have "length (trim a) = length (trim b)"
    using arg_cong [OF assms, of length] by (simp add: to_lowercase_def)
  then show ?thesis using assms by (auto simp: database_name_parse_def Let_def)
qed

lemma metadata_parse_iff: "metadata_parse_name input = Some t \<longleftrightarrow> to_lowercase (trim input) = metadata_name t"
  by (cases t) (auto simp: metadata_parse_name_def Let_def)

section \<open>Properties\<close>



text \<open>
  The catalog is a map from canonical names. Creating a database succeeds exactly when the name is
  valid and not taken in any spelling; afterwards every spelling of the name finds the new database and
  every other name reads as before. Dropping a database makes every spelling of it absent, returns what
  was stored and keeps all others.
\<close>

theorem database_catalog_map:
  "(case catalog_create name now owner description cat of
     Inr (d, cat') \<Rightarrow>
       catalog_get name cat = None \<and>
       (\<forall>other. catalog_get other cat' =
          (if database_name_parse other = database_name_parse name then Some d else catalog_get other cat))
   | Inl e \<Rightarrow> (case database_name_parse name of
       Inl e' \<Rightarrow> e = InvalidName e' | Inr k \<Rightarrow> e = DatabaseAlreadyExists k \<and> catalog_exists name cat)) \<and>
   (case catalog_drop_database name if_exists cat of
     Inr (r, cat') \<Rightarrow>
       r = catalog_get name cat \<and>
       (\<forall>other. catalog_get other cat' =
          (if database_name_parse other = database_name_parse name then None else catalog_get other cat))
   | Inl e \<Rightarrow> \<not> catalog_exists name cat)"
  by (rule conjI [OF catalog_create_map catalog_drop_map])

text \<open>
  The metadata tables are found by their names: resolving a name gives a table exactly when the
  trimmed name in lower case is the name the table is published under; so every published name resolves
  to its own table, and the layout lists twelve tables with distinct names, none twice.
\<close>

theorem metadata_names_roundtrip:
  "(metadata_parse_name input = Some t \<longleftrightarrow> to_lowercase (trim input) = metadata_name t) \<and>
   metadata_parse_name (metadata_name t) = Some t \<and> t \<in> set metadata_all \<and>
   distinct (map fst metadata_schema_layout) \<and>
   map_of metadata_schema_layout (metadata_name t) = Some (metadata_columns t)"
proof (intro conjI)
  have "to_lowercase (trim (metadata_name t)) = metadata_name t" by (cases t; simp; code_simp)
  then show "metadata_parse_name (metadata_name t) = Some t" by (simp add: metadata_parse_iff)
  show "distinct (map fst metadata_schema_layout)"
    by (simp add: metadata_schema_layout_def metadata_all_def)
  show "map_of metadata_schema_layout (metadata_name t) = Some (metadata_columns t)"
    by (cases t) (simp_all add: metadata_schema_layout_def metadata_all_def)
  show "t \<in> set metadata_all" by (cases t) (simp_all add: metadata_all_def)
qed (rule metadata_parse_iff)

end
