(* ===== verification/Cache.thy ===== *)
theory Cache
  imports Vng_Prelude Vng_Text
begin

text \<open>
  The distributed cache of \<^verbatim>\<open>crates/voltnuerongrid-opt/src/lib.rs\<close>: entries with a time to live,
  partitions with a capacity, least-recently-used eviction and a circuit breaker, and the manager that
  owns the partitions. Cached values are a type parameter (JSON values of the serialisation library);
  arithmetic on them, which only \<^verbatim>\<open>increment\<close> uses, is an argument. A hash map is the list of its
  entries in the order the code meets them. The clock is an argument. Ratios in the statistics are
  floating-point and left out.
\<close>

section \<open>Entries\<close>

record 'v cache_entry =
  ce_value :: 'v
  ce_created_at_ms :: nat
  ce_last_accessed_ms :: nat
  ce_access_count :: nat
  ce_ttl_ms :: "nat option"
  ce_partition_key :: string

definition cache_entry_new :: "'v \<Rightarrow> string \<Rightarrow> nat option \<Rightarrow> nat \<Rightarrow> 'v cache_entry" where
  "cache_entry_new v partition_key ttl_ms now_ms =
     \<lparr>ce_value = v, ce_created_at_ms = now_ms, ce_last_accessed_ms = now_ms, ce_access_count = 0,
      ce_ttl_ms = ttl_ms, ce_partition_key = partition_key\<rparr>"

definition is_expired :: "nat \<Rightarrow> 'v cache_entry \<Rightarrow> bool" where
  "is_expired now_ms e = (case ce_ttl_ms e of Some ttl \<Rightarrow> ttl < now_ms - ce_created_at_ms e | None \<Rightarrow> False)"

definition touch :: "nat \<Rightarrow> 'v cache_entry \<Rightarrow> 'v cache_entry" where
  "touch now_ms e = e\<lparr>ce_last_accessed_ms := now_ms, ce_access_count := ce_access_count e + 1\<rparr>"

section \<open>Policy, breaker and errors\<close>

datatype eviction_policy = Lru | Lfu | Ttl

record cache_resilience_policy =
  cp_eviction_policy :: eviction_policy
  cp_default_ttl_ms :: "nat option"
  cp_max_entries_per_partition :: nat
  cp_failure_threshold :: nat
  cp_half_open_after_ms :: nat

definition cache_policy_default :: cache_resilience_policy where
  "cache_policy_default =
     \<lparr>cp_eviction_policy = Lru, cp_default_ttl_ms = Some 300000, cp_max_entries_per_partition = 10000,
      cp_failure_threshold = 5, cp_half_open_after_ms = 30000\<rparr>"

datatype circuit_breaker_state = BreakerClosed | BreakerOpen nat | BreakerHalfOpen

datatype cache_error = CircuitOpen string | PartitionNotFound string | SerializationError string

record cache_rebalance_result =
  rb_partition_id :: string
  rb_entries_before :: nat
  rb_entries_evicted :: nat
  rb_entries_after :: nat
  rb_rebalanced_at_ms :: nat

section \<open>Partitions\<close>

record 'v cache_partition =
  pt_partition_id :: string
  pt_entries :: "(string \<times> 'v cache_entry) list"
  pt_circuit_breaker :: circuit_breaker_state
  pt_consecutive_failures :: nat
  pt_policy :: cache_resilience_policy
  pt_total_hits :: nat
  pt_total_misses :: nat
  pt_total_evictions :: nat
  pt_last_rebalance_ms :: "nat option"

definition cache_partition_new :: "string \<Rightarrow> cache_resilience_policy \<Rightarrow> 'v cache_partition" where
  "cache_partition_new partition_id policy =
     \<lparr>pt_partition_id = partition_id, pt_entries = [], pt_circuit_breaker = BreakerClosed,
      pt_consecutive_failures = 0, pt_policy = policy, pt_total_hits = 0, pt_total_misses = 0,
      pt_total_evictions = 0, pt_last_rebalance_ms = None\<rparr>"

definition partition_get :: "string \<Rightarrow> nat \<Rightarrow> 'v cache_partition \<Rightarrow> 'v option \<times> 'v cache_partition" where
  "partition_get key now_ms p =
     (case map_of (pt_entries p) key of
        None \<Rightarrow> (None, p\<lparr>pt_total_misses := pt_total_misses p + 1\<rparr>)
      | Some e \<Rightarrow>
          if is_expired now_ms e
          then (None, p\<lparr>pt_entries := AList.delete key (pt_entries p), pt_total_misses := pt_total_misses p + 1\<rparr>)
          else (Some (ce_value e),
                p\<lparr>pt_entries := AList.update key (touch now_ms e) (pt_entries p), pt_total_hits := pt_total_hits p + 1\<rparr>))"

definition circuit_is_open :: "nat \<Rightarrow> 'v cache_partition \<Rightarrow> bool" where
  "circuit_is_open now_ms p =
     (case pt_circuit_breaker p of
        BreakerOpen opened_at_ms \<Rightarrow> now_ms - opened_at_ms < cp_half_open_after_ms (pt_policy p)
      | _ \<Rightarrow> False)"

definition evict_expired :: "nat \<Rightarrow> 'v cache_partition \<Rightarrow> nat \<times> 'v cache_partition" where
  "evict_expired now_ms p =
     (let count = length (filter (\<lambda>(k, e). is_expired now_ms e) (pt_entries p))
      in (count, p\<lparr>pt_entries := filter (\<lambda>(k, e). \<not> is_expired now_ms e) (pt_entries p),
                   pt_total_evictions := pt_total_evictions p + count\<rparr>))"

text \<open>\<^verbatim>\<open>min_by_key\<close>: the first entry with the least time of access.\<close>

fun lru_entry :: "(string \<times> 'v cache_entry) list \<Rightarrow> (string \<times> 'v cache_entry) option" where
  "lru_entry [] = None"
| "lru_entry (x # xs) =
     (case lru_entry xs of
        None \<Rightarrow> Some x
      | Some y \<Rightarrow> if ce_last_accessed_ms (snd x) \<le> ce_last_accessed_ms (snd y) then Some x else Some y)"

definition evict_lru_if_full :: "nat \<Rightarrow> 'v cache_partition \<Rightarrow> 'v cache_partition" where
  "evict_lru_if_full now_ms p =
     (if length (pt_entries p) < cp_max_entries_per_partition (pt_policy p) then p
      else
        (let p1 = snd (evict_expired now_ms p)
         in if length (pt_entries p1) < cp_max_entries_per_partition (pt_policy p1) then p1
            else case lru_entry (pt_entries p1) of
                   None \<Rightarrow> p1
                 | Some (k, e) \<Rightarrow>
                     p1\<lparr>pt_entries := AList.delete k (pt_entries p1), pt_total_evictions := pt_total_evictions p1 + 1\<rparr>))"

definition partition_set ::
  "string \<Rightarrow> 'v \<Rightarrow> nat option \<Rightarrow> nat \<Rightarrow> 'v cache_partition \<Rightarrow> ('v cache_partition, cache_error) result" where
  "partition_set key v ttl_ms now_ms p =
     (if circuit_is_open now_ms p then Err (CircuitOpen (pt_partition_id p))
      else
        (let p1 = (case pt_circuit_breaker p of BreakerOpen t \<Rightarrow> p\<lparr>pt_circuit_breaker := BreakerHalfOpen\<rparr> | _ \<Rightarrow> p);
             effective_ttl = (case ttl_ms of Some t \<Rightarrow> Some t | None \<Rightarrow> cp_default_ttl_ms (pt_policy p1));
             p2 = evict_lru_if_full now_ms p1;
             entry = cache_entry_new v (pt_partition_id p2) effective_ttl now_ms
         in Ok (p2\<lparr>pt_entries := AList.update key entry (pt_entries p2)\<rparr>)))"

definition partition_invalidate :: "string \<Rightarrow> 'v cache_partition \<Rightarrow> bool \<times> 'v cache_partition" where
  "partition_invalidate key p =
     (map_of (pt_entries p) key \<noteq> None, p\<lparr>pt_entries := AList.delete key (pt_entries p)\<rparr>)"

definition partition_invalidate_all :: "'v cache_partition \<Rightarrow> nat \<times> 'v cache_partition" where
  "partition_invalidate_all p = (length (pt_entries p), p\<lparr>pt_entries := []\<rparr>)"

definition partition_keys :: "nat \<Rightarrow> 'v cache_partition \<Rightarrow> string list" where
  "partition_keys now_ms p = map fst (filter (\<lambda>(k, e). \<not> is_expired now_ms e) (pt_entries p))"

definition partition_expire :: "string \<Rightarrow> nat \<Rightarrow> nat \<Rightarrow> 'v cache_partition \<Rightarrow> bool \<times> 'v cache_partition" where
  "partition_expire key ttl_ms now_ms p =
     (case map_of (pt_entries p) key of
        None \<Rightarrow> (False, p\<lparr>pt_entries := AList.delete key (pt_entries p)\<rparr>)
      | Some e \<Rightarrow>
          if is_expired now_ms e then (False, p\<lparr>pt_entries := AList.delete key (pt_entries p)\<rparr>)
          else (True, p\<lparr>pt_entries :=
                  AList.update key (e\<lparr>ce_ttl_ms := Some ttl_ms, ce_created_at_ms := now_ms\<rparr>) (pt_entries p)\<rparr>))"

text \<open>\<open>as_f64\<close>, \<open>add\<close>, \<open>zero\<close> and \<open>json\<close> are the number type and its JSON form.\<close>

definition partition_increment ::
  "('v \<Rightarrow> 'f option) \<Rightarrow> ('f \<Rightarrow> 'f \<Rightarrow> 'f) \<Rightarrow> 'f \<Rightarrow> ('f \<Rightarrow> 'v) \<Rightarrow> string \<Rightarrow> 'f \<Rightarrow> nat option \<Rightarrow> nat \<Rightarrow>
     'v cache_partition \<Rightarrow> ('f \<times> 'v cache_partition, cache_error) result" where
  "partition_increment as_f64 add zero json key delta ttl_ms now_ms p =
     (let current =
            (case map_of (pt_entries p) key of
               Some e \<Rightarrow>
                 if is_expired now_ms e then zero
                 else (case as_f64 (ce_value e) of Some x \<Rightarrow> x | None \<Rightarrow> zero)
             | None \<Rightarrow> zero);
          new_val = add current delta
      in case partition_set key (json new_val) ttl_ms now_ms p of
           Inl e \<Rightarrow> Err e
         | Inr p' \<Rightarrow> Ok (new_val, p'))"

definition record_failure :: "nat \<Rightarrow> 'v cache_partition \<Rightarrow> 'v cache_partition" where
  "record_failure now_ms p =
     (let n = pt_consecutive_failures p + 1;
          p1 = p\<lparr>pt_consecutive_failures := n\<rparr>
      in if cp_failure_threshold (pt_policy p) \<le> n then p1\<lparr>pt_circuit_breaker := BreakerOpen now_ms\<rparr> else p1)"

definition record_success :: "'v cache_partition \<Rightarrow> 'v cache_partition" where
  "record_success p = p\<lparr>pt_consecutive_failures := 0, pt_circuit_breaker := BreakerClosed\<rparr>"

definition partition_rebalance :: "nat \<Rightarrow> 'v cache_partition \<Rightarrow> cache_rebalance_result \<times> 'v cache_partition" where
  "partition_rebalance now_ms p =
     (let (evicted, p1) = evict_expired now_ms p
      in (\<lparr>rb_partition_id = pt_partition_id p, rb_entries_before = length (pt_entries p), rb_entries_evicted = evicted,
           rb_entries_after = length (pt_entries p1), rb_rebalanced_at_ms = now_ms\<rparr>,
          p1\<lparr>pt_last_rebalance_ms := Some now_ms\<rparr>))"

text \<open>The expiry time is a 64-bit sum.\<close>

definition snapshot_entries :: "'v cache_partition \<Rightarrow> (string \<times> 'v \<times> nat option) list" where
  "snapshot_entries p =
     map (\<lambda>(k, e). (k, ce_value e, map_option (\<lambda>ttl. (ce_created_at_ms e + ttl) mod 2 ^ 64) (ce_ttl_ms e))) (pt_entries p)"

definition partition_evict_by_prefix :: "string \<Rightarrow> 'v cache_partition \<Rightarrow> 'v cache_partition" where
  "partition_evict_by_prefix prefix p = p\<lparr>pt_entries := filter (\<lambda>(k, e). \<not> starts_with k prefix) (pt_entries p)\<rparr>"

section \<open>Manager\<close>

record 'v cache_manager =
  cm_partitions :: "(string \<times> 'v cache_partition) list"
  cm_default_policy :: cache_resilience_policy

definition cache_manager_new :: "cache_resilience_policy \<Rightarrow> 'v cache_manager" where
  "cache_manager_new policy = \<lparr>cm_partitions = [], cm_default_policy = policy\<rparr>"

definition ensure_partition :: "string \<Rightarrow> 'v cache_manager \<Rightarrow> 'v cache_partition" where
  "ensure_partition partition_id m =
     (case map_of (cm_partitions m) partition_id of
        Some p \<Rightarrow> p
      | None \<Rightarrow> cache_partition_new partition_id (cm_default_policy m))"

definition put_partition :: "string \<Rightarrow> 'v cache_partition \<Rightarrow> 'v cache_manager \<Rightarrow> 'v cache_manager" where
  "put_partition partition_id p m = m\<lparr>cm_partitions := AList.update partition_id p (cm_partitions m)\<rparr>"

text \<open>An operation on a partition that must exist.\<close>

definition on_partition ::
  "string \<Rightarrow> ('v cache_partition \<Rightarrow> 'r \<times> 'v cache_partition) \<Rightarrow> 'v cache_manager \<Rightarrow>
     ('r \<times> 'v cache_manager, cache_error) result" where
  "on_partition partition_id f m =
     (case map_of (cm_partitions m) partition_id of
        None \<Rightarrow> Err (PartitionNotFound partition_id)
      | Some p \<Rightarrow> (let (r, p') = f p in Ok (r, put_partition partition_id p' m)))"

definition manager_get ::
  "string \<Rightarrow> string \<Rightarrow> nat \<Rightarrow> 'v cache_manager \<Rightarrow> ('v option \<times> 'v cache_manager, cache_error) result" where
  "manager_get partition_id key now_ms m = on_partition partition_id (partition_get key now_ms) m"

text \<open>A partition created for a write that is refused stays in the manager.\<close>

definition manager_set ::
  "string \<Rightarrow> string \<Rightarrow> 'v \<Rightarrow> nat option \<Rightarrow> nat \<Rightarrow> 'v cache_manager \<Rightarrow> (unit, cache_error) result \<times> 'v cache_manager" where
  "manager_set partition_id key v ttl_ms now_ms m =
     (let p = ensure_partition partition_id m
      in case partition_set key v ttl_ms now_ms p of
           Inl e \<Rightarrow> (Err e, put_partition partition_id p m)
         | Inr p' \<Rightarrow> (Ok (), put_partition partition_id p' m))"

definition manager_invalidate ::
  "string \<Rightarrow> string \<Rightarrow> 'v cache_manager \<Rightarrow> (bool \<times> 'v cache_manager, cache_error) result" where
  "manager_invalidate partition_id key m = on_partition partition_id (partition_invalidate key) m"

definition invalidate_partition ::
  "string \<Rightarrow> 'v cache_manager \<Rightarrow> (nat \<times> 'v cache_manager, cache_error) result" where
  "invalidate_partition partition_id m = on_partition partition_id partition_invalidate_all m"

definition rebalance_all :: "nat \<Rightarrow> 'v cache_manager \<Rightarrow> cache_rebalance_result list \<times> 'v cache_manager" where
  "rebalance_all now_ms m =
     (map (\<lambda>(i, p). fst (partition_rebalance now_ms p)) (cm_partitions m),
      m\<lparr>cm_partitions := map (\<lambda>(i, p). (i, snd (partition_rebalance now_ms p))) (cm_partitions m)\<rparr>)"

definition total_entry_count :: "'v cache_manager \<Rightarrow> nat" where
  "total_entry_count m = sum_list (map (\<lambda>(i, p). length (pt_entries p)) (cm_partitions m))"

definition keys_in_partition ::
  "string \<Rightarrow> nat \<Rightarrow> 'v cache_manager \<Rightarrow> (string list, cache_error) result" where
  "keys_in_partition partition_id now_ms m =
     (case map_of (cm_partitions m) partition_id of
        None \<Rightarrow> Err (PartitionNotFound partition_id)
      | Some p \<Rightarrow> Ok (partition_keys now_ms p))"

definition expire_key ::
  "string \<Rightarrow> string \<Rightarrow> nat \<Rightarrow> nat \<Rightarrow> 'v cache_manager \<Rightarrow> (bool \<times> 'v cache_manager, cache_error) result" where
  "expire_key partition_id key ttl_ms now_ms m = on_partition partition_id (partition_expire key ttl_ms now_ms) m"

definition increment_key ::
  "('v \<Rightarrow> 'f option) \<Rightarrow> ('f \<Rightarrow> 'f \<Rightarrow> 'f) \<Rightarrow> 'f \<Rightarrow> ('f \<Rightarrow> 'v) \<Rightarrow> string \<Rightarrow> string \<Rightarrow> 'f \<Rightarrow> nat option \<Rightarrow> nat \<Rightarrow>
     'v cache_manager \<Rightarrow> ('f, cache_error) result \<times> 'v cache_manager" where
  "increment_key as_f64 add zero json partition_id key delta ttl_ms now_ms m =
     (let p = ensure_partition partition_id m
      in case partition_increment as_f64 add zero json key delta ttl_ms now_ms p of
           Inl e \<Rightarrow> (Err e, put_partition partition_id p m)
         | Inr (x, p') \<Rightarrow> (Ok x, put_partition partition_id p' m))"

text \<open>The persisted form: for each partition its entries with their expiry times.\<close>

definition snapshot_to_json :: "'v cache_manager \<Rightarrow> (string \<times> (string \<times> 'v \<times> nat option) list) list" where
  "snapshot_to_json m = map (\<lambda>(i, p). (i, snapshot_entries p)) (cm_partitions m)"

definition restore_entry :: "nat \<Rightarrow> string \<Rightarrow> string \<times> 'v \<times> nat option \<Rightarrow> 'v cache_manager \<Rightarrow> 'v cache_manager" where
  "restore_entry now_ms pid ent m =
     (case ent of (key, v, expires_at_ms) \<Rightarrow>
        (case expires_at_ms of
           Some exp \<Rightarrow> if exp \<le> now_ms then m else snd (manager_set pid key v (Some (exp - now_ms)) now_ms m)
         | None \<Rightarrow> snd (manager_set pid key v None now_ms m)))"

definition restore_from_json ::
  "(string \<times> (string \<times> 'v \<times> nat option) list) list \<Rightarrow> nat \<Rightarrow> 'v cache_manager \<Rightarrow> 'v cache_manager" where
  "restore_from_json data now_ms m = fold (\<lambda>(pid, entries) m. fold (restore_entry now_ms pid) entries m) data m"

definition manager_evict_by_prefix :: "string \<Rightarrow> 'v cache_manager \<Rightarrow> 'v cache_manager" where
  "manager_evict_by_prefix prefix m =
     m\<lparr>cm_partitions := map (\<lambda>(i, p). (i, partition_evict_by_prefix prefix p)) (cm_partitions m)\<rparr>"

section \<open>Specification\<close>

text \<open>What a reader gets for a key at a time, and the steps of a partition.\<close>

definition live :: "nat \<Rightarrow> 'v cache_partition \<Rightarrow> string \<Rightarrow> 'v option" where
  "live t p key =
     (case map_of (pt_entries p) key of Some e \<Rightarrow> if is_expired t e then None else Some (ce_value e) | None \<Rightarrow> None)"

definition partition_wf :: "'v cache_partition \<Rightarrow> bool" where
  "partition_wf p \<longleftrightarrow>
     distinct (map fst (pt_entries p)) \<and> length (pt_entries p) \<le> max 1 (cp_max_entries_per_partition (pt_policy p))"

inductive partition_step :: "'v cache_partition \<Rightarrow> 'v cache_partition \<Rightarrow> bool" where
  step_get: "partition_step p (snd (partition_get key now p))"
| step_set: "partition_set key v ttl now p = Ok p' \<Longrightarrow> partition_step p p'"
| step_invalidate: "partition_step p (snd (partition_invalidate key p))"
| step_invalidate_all: "partition_step p (snd (partition_invalidate_all p))"
| step_expire: "partition_step p (snd (partition_expire key ttl now p))"
| step_evict_expired: "partition_step p (snd (evict_expired now p))"
| step_failure: "partition_step p (record_failure now p)"
| step_success: "partition_step p (record_success p)"
| step_rebalance: "partition_step p (snd (partition_rebalance now p))"
| step_evict_by_prefix: "partition_step p (partition_evict_by_prefix prefix p)"

text \<open>An entry of a full partition that was accessed no later than any live one.\<close>

definition lru_victim :: "nat \<Rightarrow> 'v cache_partition \<Rightarrow> string \<Rightarrow> bool" where
  "lru_victim now p k \<longleftrightarrow>
     cp_max_entries_per_partition (pt_policy p) \<le> length (pt_entries p) \<and>
     (\<exists>e. map_of (pt_entries p) k = Some e \<and>
        (\<forall>(k', e')\<in>set (pt_entries p). \<not> is_expired now e' \<longrightarrow> ce_last_accessed_ms e \<le> ce_last_accessed_ms e'))"

text \<open>
  Restoring one entry into its partition, the entries a restore leaves, and the snapshots whose expiry
  times are exact.
\<close>

definition restore_into :: "nat \<Rightarrow> string \<times> 'v \<times> nat option \<Rightarrow> 'v cache_partition \<Rightarrow> 'v cache_partition" where
  "restore_into now ent p =
     (case ent of (key, v, expires) \<Rightarrow>
        (case expires of
           Some exp \<Rightarrow>
             if exp \<le> now then p
             else (case partition_set key v (Some (exp - now)) now p of Inl e \<Rightarrow> p | Inr p' \<Rightarrow> p')
         | None \<Rightarrow> (case partition_set key v None now p of Inl e \<Rightarrow> p | Inr p' \<Rightarrow> p')))"

definition restored_entries :: "nat \<Rightarrow> string \<Rightarrow> (string \<times> 'v \<times> nat option) list \<Rightarrow> (string \<times> 'v cache_entry) list" where
  "restored_entries now i ents =
     List.map_filter (\<lambda>(k, v, exp). case exp of
        Some x \<Rightarrow> if x \<le> now then None else Some (k, cache_entry_new v i (Some (x - now)) now)
      | None \<Rightarrow> None) ents"

definition snapshot_safe :: "nat \<Rightarrow> 'v cache_partition \<Rightarrow> bool" where
  "snapshot_safe now p \<longleftrightarrow>
     (\<forall>(k, e)\<in>set (pt_entries p). ce_created_at_ms e \<le> now \<and>
        (\<exists>ttl. ce_ttl_ms e = Some ttl \<and> ce_created_at_ms e + ttl < 2 ^ 64))"

definition read_entries :: "nat \<Rightarrow> (string \<times> 'v cache_entry) list \<Rightarrow> string \<Rightarrow> 'v option" where
  "read_entries t es k =
     (case map_of es k of Some e \<Rightarrow> if is_expired t e then None else Some (ce_value e) | None \<Rightarrow> None)"

section \<open>Reading and evicting\<close>

lemma partition_get_live: "fst (partition_get key t p) = live t p key"
  by (simp add: partition_get_def live_def split: option.splits)

lemma lru_entry_Some: "xs \<noteq> [] \<Longrightarrow> lru_entry xs \<noteq> None"
  by (cases xs) (auto split: option.splits)

lemma lru_entry_min:
  "lru_entry xs = Some y \<Longrightarrow>
     y \<in> set xs \<and> (\<forall>x\<in>set xs. ce_last_accessed_ms (snd y) \<le> ce_last_accessed_ms (snd x))"
proof (induction xs arbitrary: y)
  case (Cons x xs)
  show ?case
  proof (cases "lru_entry xs")
    case None
    then have "xs = []" using lru_entry_Some by blast
    with Cons.prems show ?thesis by simp
  next
    case (Some z)
    from Cons.IH [OF this] have z: "z \<in> set xs" "\<forall>x\<in>set xs. ce_last_accessed_ms (snd z) \<le> ce_last_accessed_ms (snd x)"
      by simp_all
    show ?thesis
    proof (cases "ce_last_accessed_ms (snd x) \<le> ce_last_accessed_ms (snd z)")
      case True
      with Cons.prems Some have "y = x" by simp
      with True z show ?thesis using order_trans by auto
    next
      case False
      with Cons.prems Some have "y = z" by simp
      with False z show ?thesis by auto
    qed
  qed
qed simp

lemma length_delete: "map_of xs k \<noteq> None \<Longrightarrow> length (AList.delete k xs) < length xs"
  by (induction xs) (auto simp: AList.delete_eq le_imp_less_Suc)

lemma length_delete_le: "length (AList.delete k xs) \<le> length xs"
  by (simp add: AList.delete_eq)

lemma length_update: "length (AList.update k v xs) = length xs + (if map_of xs k = None then 1 else 0)"
  by (induction xs) auto

lemma update_fresh: "map_of xs k = None \<Longrightarrow> AList.update k v xs = xs @ [(k, v)]"
  by (induction xs) (auto split: if_splits)

lemma expired_later: "is_expired now e \<Longrightarrow> now \<le> t \<Longrightarrow> is_expired t e"
  by (auto simp: is_expired_def split: option.splits)

lemma evict_lru_frame [simp]:
  "pt_policy (evict_lru_if_full now p) = pt_policy p"
  "pt_partition_id (evict_lru_if_full now p) = pt_partition_id p"
  "pt_circuit_breaker (evict_lru_if_full now p) = pt_circuit_breaker p"
  by (simp_all add: evict_lru_if_full_def evict_expired_def Let_def split: option.splits)

lemma evict_lru_not_full:
  "length (pt_entries p) < cp_max_entries_per_partition (pt_policy p) \<Longrightarrow> evict_lru_if_full now p = p"
  by (simp add: evict_lru_if_full_def)

lemma evict_lru_cases:
  obtains (kept) "length (pt_entries p) < cp_max_entries_per_partition (pt_policy p)"
      "pt_entries (evict_lru_if_full now p) = pt_entries p"
  | (expired) "cp_max_entries_per_partition (pt_policy p) \<le> length (pt_entries p)"
      "pt_entries (evict_lru_if_full now p) = filter (\<lambda>(k, e). \<not> is_expired now e) (pt_entries p)"
      "length (pt_entries (evict_lru_if_full now p)) < cp_max_entries_per_partition (pt_policy p) \<or>
         pt_entries (evict_lru_if_full now p) = []"
  | (victim) k e where "cp_max_entries_per_partition (pt_policy p) \<le> length (pt_entries p)"
      "lru_entry (filter (\<lambda>(k, e). \<not> is_expired now e) (pt_entries p)) = Some (k, e)"
      "pt_entries (evict_lru_if_full now p) = AList.delete k (filter (\<lambda>(k, e). \<not> is_expired now e) (pt_entries p))"
proof -
  let ?es = "filter (\<lambda>(k, e). \<not> is_expired now e) (pt_entries p)"
  show thesis
  proof (cases "length (pt_entries p) < cp_max_entries_per_partition (pt_policy p)")
    case True
    then show thesis using kept by (simp add: evict_lru_not_full)
  next
    case full: False
    show thesis
    proof (cases "length ?es < cp_max_entries_per_partition (pt_policy p) \<or> ?es = []")
      case True
      with full show thesis
        by (intro expired) (auto simp: evict_lru_if_full_def evict_expired_def Let_def)
    next
      case False
      then obtain k e where "lru_entry ?es = Some (k, e)" using lru_entry_Some [of ?es] by fastforce
      with full False show thesis
        by (intro victim [of k e]) (simp_all add: evict_lru_if_full_def evict_expired_def Let_def)
    qed
  qed
qed

lemma evict_lru_room:
  assumes "partition_wf p"
  shows "distinct (map fst (pt_entries (evict_lru_if_full now p)))"
    and "length (pt_entries (evict_lru_if_full now p)) < max 1 (cp_max_entries_per_partition (pt_policy p))"
proof -
  let ?es = "filter (\<lambda>(k, e). \<not> is_expired now e) (pt_entries p)"
  have d: "distinct (map fst ?es)" and l: "length ?es \<le> length (pt_entries p)"
    using assms by (simp_all add: partition_wf_def distinct_map_fst_filter)
  show "distinct (map fst (pt_entries (evict_lru_if_full now p)))"
  proof (cases rule: evict_lru_cases [of p now])
    case kept
    with assms show ?thesis by (simp add: partition_wf_def)
  next
    case expired
    with d show ?thesis by simp
  next
    case (victim k e)
    then show ?thesis using distinct_delete [OF d, of k] by simp
  qed
  show "length (pt_entries (evict_lru_if_full now p)) < max 1 (cp_max_entries_per_partition (pt_policy p))"
  proof (cases rule: evict_lru_cases [of p now])
    case (victim k e)
    then have "(k, e) \<in> set ?es" using lru_entry_min by blast
    then have "map_of ?es k \<noteq> None" using d by (simp add: in_set_map_of)
    from length_delete [OF this] l have "length (AList.delete k ?es) < length (pt_entries p)" by (rule less_le_trans)
    with victim(3) assms show ?thesis by (simp add: partition_wf_def)
  qed auto
qed

lemma live_filter_expired:
  assumes "distinct (map fst (pt_entries p))" "now \<le> t"
    "pt_entries q = filter (\<lambda>(k, e). \<not> is_expired now e) (pt_entries p)"
  shows "live t q k = live t p k"
  using assms expired_later
  by (auto simp: live_def map_of_filter_distinct [OF assms(1), where P = "\<lambda>k e. \<not> is_expired now e"] split: option.splits)

lemma evict_lru_live:
  assumes "distinct (map fst (pt_entries p))" "now \<le> t"
  shows "\<exists>victim. \<forall>k. live t (evict_lru_if_full now p) k = live t p k \<or> k = victim \<and> lru_victim now p k"
proof (cases rule: evict_lru_cases [of p now])
  case kept
  then show ?thesis by (simp add: live_def)
next
  case expired
  then show ?thesis using live_filter_expired [OF assms expired(2)] by blast
next
  case (victim k e)
  let ?es = "filter (\<lambda>(k, e). \<not> is_expired now e) (pt_entries p)"
  have min: "(k, e) \<in> set ?es" "\<forall>(k', e')\<in>set ?es. ce_last_accessed_ms e \<le> ce_last_accessed_ms e'"
    using lru_entry_min [OF victim(2)] by auto
  have "map_of (pt_entries p) k = Some e" using min(1) assms(1) by simp
  with min victim(1) have v: "lru_victim now p k" by (auto simp: lru_victim_def)
  have "live t (evict_lru_if_full now p) k' = live t p k'" if "k' \<noteq> k" for k'
  proof -
    have "live t (evict_lru_if_full now p) k' = live t (p\<lparr>pt_entries := ?es\<rparr>) k'"
      using that victim(3) by (simp add: live_def)
    also have "\<dots> = live t p k'" by (rule live_filter_expired [OF assms]) simp
    finally show ?thesis .
  qed
  then have "live t (evict_lru_if_full now p) k' = live t p k' \<or> k' = k \<and> lru_victim now p k'" for k'
    using v by (cases "k' = k") simp_all
  then show ?thesis by (intro exI [of _ k] allI)
qed

lemma partition_set_OkD:
  assumes "partition_set key v ttl now p = Ok p'"
  shows "pt_entries p' = AList.update key
      (cache_entry_new v (pt_partition_id p) (case ttl of Some t \<Rightarrow> Some t | None \<Rightarrow> cp_default_ttl_ms (pt_policy p)) now)
      (pt_entries (evict_lru_if_full now p))"
    and "pt_policy p' = pt_policy p" "\<not> circuit_is_open now p" "pt_partition_id p' = pt_partition_id p"
proof -
  have e: "pt_entries (evict_lru_if_full now (p\<lparr>pt_circuit_breaker := b\<rparr>)) = pt_entries (evict_lru_if_full now p)" for b
    by (simp add: evict_lru_if_full_def evict_expired_def Let_def split: option.splits)
  show "pt_entries p' = AList.update key
      (cache_entry_new v (pt_partition_id p) (case ttl of Some t \<Rightarrow> Some t | None \<Rightarrow> cp_default_ttl_ms (pt_policy p)) now)
      (pt_entries (evict_lru_if_full now p))"
    and "pt_policy p' = pt_policy p" "\<not> circuit_is_open now p" "pt_partition_id p' = pt_partition_id p"
    using assms by (auto simp: partition_set_def Let_def e split: if_splits circuit_breaker_state.splits cong: option.case_cong)
qed

section \<open>The partition invariant\<close>

lemma partition_wf_set [inv_laws]:
  assumes "partition_wf p" "partition_set key v ttl now p = Ok p'"
  shows "partition_wf p'"
  using evict_lru_room [OF assms(1), of now] partition_set_OkD [OF assms(2)]
  by (auto simp: partition_wf_def distinct_fst_update length_update)

lemma partition_wf_fewer:
  assumes "partition_wf p" "pt_entries q = filter P (pt_entries p)" "pt_policy q = pt_policy p"
  shows "partition_wf q"
  using assms length_filter_le [of P "pt_entries p"]
  by (auto simp: partition_wf_def distinct_map_fst_filter simp del: length_filter_le)

lemma partition_wf_update:
  assumes "partition_wf p" "map_of (pt_entries p) key = Some e" "pt_entries q = AList.update key e' (pt_entries p)"
    "pt_policy q = pt_policy p"
  shows "partition_wf q"
  using assms by (auto simp: partition_wf_def distinct_fst_update length_update)

lemma partition_wf_step: "partition_step p q \<Longrightarrow> partition_wf p \<Longrightarrow> partition_wf q"
proof (induction rule: partition_step.induct)
  case (step_get p key now)
  show ?case
  proof (cases "map_of (pt_entries p) key")
    case None
    with step_get show ?thesis by (simp add: partition_get_def partition_wf_def)
  next
    case (Some e)
    with step_get show ?thesis
      by (auto simp: partition_get_def AList.delete_eq intro: partition_wf_fewer partition_wf_update)
  qed
next
  case (step_expire p key ttl now)
  then show ?case
    by (cases "map_of (pt_entries p) key")
       (auto simp: partition_expire_def AList.delete_eq intro: partition_wf_fewer partition_wf_update)
next
  case (step_set key v ttl now p p')
  then show ?case by (blast intro: partition_wf_set)
next
  case (step_invalidate p key)
  then show ?case by (auto simp: partition_invalidate_def AList.delete_eq intro: partition_wf_fewer)
next
  case (step_evict_expired p now)
  then show ?case by (auto simp: evict_expired_def Let_def intro: partition_wf_fewer)
next
  case (step_rebalance p now)
  then show ?case by (auto simp: partition_rebalance_def evict_expired_def Let_def intro: partition_wf_fewer)
next
  case (step_evict_by_prefix p prefix)
  then show ?case by (auto simp: partition_evict_by_prefix_def intro: partition_wf_fewer)
qed (auto simp: partition_wf_def partition_invalidate_all_def record_failure_def record_success_def Let_def)

interpretation partitions: invariant_system "\<lambda>p. \<exists>i policy. p = cache_partition_new i policy" partition_step partition_wf
proof
  show "\<exists>i policy. p = cache_partition_new i policy \<Longrightarrow> partition_wf p" for p :: "'v cache_partition"
    by (auto simp: partition_wf_def cache_partition_new_def)
qed (rule partition_wf_step)

lemma partition_policy_step: "partition_step p q \<Longrightarrow> pt_policy q = pt_policy p"
  by (induction rule: partition_step.induct)
     (auto simp: partition_get_def partition_expire_def partition_invalidate_def partition_invalidate_all_def
       record_failure_def record_success_def partition_rebalance_def evict_expired_def partition_evict_by_prefix_def
       Let_def dest: partition_set_OkD(2) split: option.splits)

lemma partition_policy_reaches: "reaches partition_step p q \<Longrightarrow> pt_policy q = pt_policy p"
  by (induction rule: reaches.induct) (simp_all add: partition_policy_step)

section \<open>The circuit breaker\<close>

lemma fold_record_failure:
  "pt_consecutive_failures (fold record_failure fs p) = pt_consecutive_failures p + length fs \<and>
   pt_policy (fold record_failure fs p) = pt_policy p \<and>
   pt_partition_id (fold record_failure fs p) = pt_partition_id p \<and>
   (fs \<noteq> [] \<longrightarrow> cp_failure_threshold (pt_policy p) \<le> pt_consecutive_failures p + length fs \<longrightarrow>
      pt_circuit_breaker (fold record_failure fs p) = BreakerOpen (last fs))"
  by (induction fs rule: rev_induct) (auto simp: record_failure_def Let_def)

lemma partition_set_half_open:
  assumes "pt_circuit_breaker p = BreakerOpen t0" "cp_half_open_after_ms (pt_policy p) \<le> now - t0"
  shows "\<exists>p'. partition_set key v ttl now p = Ok p' \<and> pt_circuit_breaker p' = BreakerHalfOpen \<and>
    pt_consecutive_failures p' = pt_consecutive_failures p \<and> pt_policy p' = pt_policy p"
  using assms
  by (auto simp: partition_set_def circuit_is_open_def Let_def evict_lru_if_full_def evict_expired_def split: option.splits)

section \<open>Restoring a snapshot\<close>

lemma ensure_put [simp]:
  "ensure_partition pid' (put_partition pid p m) = (if pid' = pid then p else ensure_partition pid' m)"
  by (simp add: ensure_partition_def put_partition_def split: option.splits)

lemma restore_entry_partition:
  "ensure_partition pid' (restore_entry now pid ent m) =
     (if pid' = pid then restore_into now ent (ensure_partition pid m) else ensure_partition pid' m)"
  by (cases ent)
     (auto simp: restore_entry_def restore_into_def manager_set_def Let_def split: option.splits sum.splits)

lemma restore_entries_partition:
  "ensure_partition pid' (fold (restore_entry now pid) ents m) =
     (if pid' = pid then fold (restore_into now) ents (ensure_partition pid m) else ensure_partition pid' m)"
  by (induction ents arbitrary: m) (auto simp: restore_entry_partition)

lemma restore_partitions:
  assumes "distinct (map fst data)"
  shows "ensure_partition pid (restore_from_json data now m) =
     (case map_of data pid of
        Some ents \<Rightarrow> fold (restore_into now) ents (ensure_partition pid m)
      | None \<Rightarrow> ensure_partition pid m)"
  using assms
proof (induction data arbitrary: m)
  case (Cons d data)
  obtain pid' ents where d: "d = (pid', ents)" by (cases d)
  have "restore_from_json (d # data) now m = restore_from_json data now (fold (restore_entry now pid') ents m)"
    by (simp add: restore_from_json_def d)
  with Cons.IH [of "fold (restore_entry now pid') ents m"] Cons.prems
  have IH: "ensure_partition pid (restore_from_json (d # data) now m) =
      (case map_of data pid of
         Some es \<Rightarrow> fold (restore_into now) es (ensure_partition pid (fold (restore_entry now pid') ents m))
       | None \<Rightarrow> ensure_partition pid (fold (restore_entry now pid') ents m))"
    by simp
  show ?case
  proof (cases "pid = pid'")
    case True
    with Cons.prems d have "map_of data pid = None" by (simp add: map_of_eq_None_iff)
    with IH True d show ?thesis by (simp add: restore_entries_partition)
  next
    case False
    with IH d show ?thesis by (simp add: restore_entries_partition split: option.splits)
  qed
qed (simp add: restore_from_json_def)

lemma restore_into_fresh:
  assumes "pt_circuit_breaker p = BreakerClosed" "map_of (pt_entries p) k = None"
    "length (pt_entries p) < cp_max_entries_per_partition (pt_policy p)" "\<not> x \<le> now"
  shows "restore_into now (k, v, Some x) p =
    p\<lparr>pt_entries := pt_entries p @ [(k, cache_entry_new v (pt_partition_id p) (Some (x - now)) now)]\<rparr>"
  using assms
  by (simp add: restore_into_def partition_set_def circuit_is_open_def Let_def evict_lru_not_full update_fresh)

lemma fold_restore_into:
  assumes "pt_circuit_breaker p = BreakerClosed" "distinct (map fst ents)" "\<forall>(k, v, exp)\<in>set ents. exp \<noteq> None"
    "\<forall>k\<in>fst ` set ents. map_of (pt_entries p) k = None"
    "length (pt_entries p) + length ents \<le> cp_max_entries_per_partition (pt_policy p)"
  shows "pt_entries (fold (restore_into now) ents p) =
    pt_entries p @ restored_entries now (pt_partition_id p) ents"
  using assms
proof (induction ents arbitrary: p)
  case (Cons ent ents)
  obtain k v x where ent: "ent = (k, v, Some x)" using Cons.prems(3) by (cases ent) auto
  show ?case
  proof (cases "x \<le> now")
    case True
    then have "restore_into now ent p = p" by (simp add: ent restore_into_def)
    with True Cons ent show ?thesis by (simp add: restored_entries_def map_filter_simps)
  next
    case False
    let ?q = "p\<lparr>pt_entries := pt_entries p @ [(k, cache_entry_new v (pt_partition_id p) (Some (x - now)) now)]\<rparr>"
    have q: "restore_into now ent p = ?q"
      unfolding ent by (rule restore_into_fresh) (use Cons.prems False ent in auto)
    have "pt_entries (fold (restore_into now) ents ?q) =
        pt_entries ?q @ restored_entries now (pt_partition_id ?q) ents"
      by (rule Cons.IH) (use Cons.prems ent in \<open>auto simp: map_add_def split: option.splits\<close>)
    with q False ent show ?thesis by (simp add: restored_entries_def map_filter_simps)
  qed
qed (simp add: restored_entries_def map_filter_simps)

lemma read_restored:
  assumes "distinct (map fst es)" "now < t"
    "\<forall>(k, e)\<in>set es. ce_created_at_ms e \<le> now \<and> (\<exists>ttl. ce_ttl_ms e = Some ttl \<and> ce_created_at_ms e + ttl < 2 ^ 64)"
  shows "read_entries t (restored_entries now i
      (map (\<lambda>(k, e). (k, ce_value e, map_option (\<lambda>ttl. (ce_created_at_ms e + ttl) mod 2 ^ 64) (ce_ttl_ms e))) es)) k =
    read_entries t es k"
  using assms
proof (induction es)
  case (Cons a es)
  obtain k' e where a: "a = (k', e)" by (cases a)
  obtain ttl where ttl: "ce_ttl_ms e = Some ttl" "ce_created_at_ms e + ttl < 2 ^ 64" "ce_created_at_ms e \<le> now"
    using Cons.prems(3) a by auto
  let ?f = "map (\<lambda>(k, e). (k, ce_value e, map_option (\<lambda>ttl. (ce_created_at_ms e + ttl) mod 2 ^ 64) (ce_ttl_ms e)))"
  have IH: "read_entries t (restored_entries now i (?f es)) k = read_entries t es k" using Cons by simp
  have step: "restored_entries now i (?f (a # es)) =
      (if ce_created_at_ms e + ttl \<le> now then [] else [(k', cache_entry_new (ce_value e) i (Some (ce_created_at_ms e + ttl - now)) now)]) @
      restored_entries now i (?f es)"
    using ttl a by (simp add: restored_entries_def map_filter_simps)
  show ?case
  proof (cases "k = k'")
    case False
    with IH step a show ?thesis by (simp add: read_entries_def)
  next
    case True
    then have none: "map_of es k = None" using Cons.prems(1) a by (simp add: map_of_eq_None_iff)
    then have "read_entries t (restored_entries now i (?f es)) k = None" using IH by (simp add: read_entries_def)
    with True step a ttl Cons.prems(2) show ?thesis
      by (auto simp: read_entries_def is_expired_def cache_entry_new_def split: option.splits)
  qed
qed (simp add: restored_entries_def map_filter_simps read_entries_def)

section \<open>Two surprises\<close>

text \<open>Overwriting a key of a full partition evicts another key although no room is needed.\<close>

lemma cache_overwrite_evicts:
  "let policy = cache_policy_default\<lparr>cp_max_entries_per_partition := 2\<rparr>;
       p = (cache_partition_new ''p'' policy)\<lparr>pt_entries :=
         [(''a'', cache_entry_new (1 :: nat) ''p'' None 0), (''b'', cache_entry_new 2 ''p'' None 5)]\<rparr>
   in map_option (map fst) (case partition_set ''b'' 3 None 9 p of Inr p' \<Rightarrow> Some (pt_entries p') | Inl e \<Rightarrow> None) = Some [''b'']"
  by (simp add: Let_def partition_set_def circuit_is_open_def cache_partition_new_def evict_lru_if_full_def
      evict_expired_def is_expired_def cache_entry_new_def)

text \<open>An entry without a time to live gets the default one when it is restored, and expires.\<close>

lemma cache_restore_adds_ttl:
  "let p = (cache_partition_new ''p'' cache_policy_default)\<lparr>pt_entries := [(''a'', cache_entry_new (1 :: nat) ''p'' None 0)]\<rparr>;
       m = restore_from_json [(''p'', snapshot_entries p)] 10 (cache_manager_new cache_policy_default)
   in fst (partition_get ''a'' 300011 p) = Some 1 \<and> fst (partition_get ''a'' 300011 (ensure_partition ''p'' m)) = None"
  by (simp add: Let_def restore_from_json_def restore_entry_def manager_set_def ensure_partition_def put_partition_def
      cache_manager_new_def snapshot_entries_def partition_set_def circuit_is_open_def cache_partition_new_def
      evict_lru_if_full_def cache_entry_new_def cache_policy_default_def partition_get_def is_expired_def)

section \<open>Properties\<close>

text \<open>
  C35: A cached value is returned until it expires, and a write evicts at most one live entry. After a
  successful write the key reads as the written value exactly as long as its time to live (the default
  one when none is given) has not run out. Every other key reads as before at every later time, with at
  most one exception: when the partition was full, an entry that was accessed no later than any live one.
\<close>

theorem cache_set_get:
  assumes "partition_wf p" "partition_set key v ttl now p = Ok p'" "now \<le> t"
  shows "fst (partition_get key t p') =
      (case (case ttl of Some x \<Rightarrow> Some x | None \<Rightarrow> cp_default_ttl_ms (pt_policy p)) of
         Some x \<Rightarrow> if t - now \<le> x then Some v else None
       | None \<Rightarrow> Some v) \<and>
    (\<exists>victim. \<forall>k. k \<noteq> key \<longrightarrow>
       fst (partition_get k t p') = fst (partition_get k t p) \<or> k = victim \<and> lru_victim now p k)"
proof (intro conjI)
  note e = partition_set_OkD(1) [OF assms(2)]
  show "fst (partition_get key t p') =
      (case (case ttl of Some x \<Rightarrow> Some x | None \<Rightarrow> cp_default_ttl_ms (pt_policy p)) of
         Some x \<Rightarrow> if t - now \<le> x then Some v else None | None \<Rightarrow> Some v)"
    by (auto simp: partition_get_live live_def e cache_entry_new_def is_expired_def split: option.splits)
  have other: "live t p' k = live t (evict_lru_if_full now p) k" if "k \<noteq> key" for k
    using that by (simp add: live_def e)
  obtain victim where "\<forall>k. live t (evict_lru_if_full now p) k = live t p k \<or> k = victim \<and> lru_victim now p k"
    using evict_lru_live [OF _ assms(3)] assms(1) by (auto simp: partition_wf_def)
  then have "\<forall>k. k \<noteq> key \<longrightarrow> live t p' k = live t p k \<or> k = victim \<and> lru_victim now p k" by (simp add: other)
  then show "\<exists>victim. \<forall>k. k \<noteq> key \<longrightarrow>
      fst (partition_get k t p') = fst (partition_get k t p) \<or> k = victim \<and> lru_victim now p k"
    unfolding partition_get_live by (rule exI [of _ victim])
qed

theorem cache_set_get_witness:
  "fst (partition_get ''a'' 105 (case partition_set ''a'' (7 :: int) (Some 10) 100
     (cache_partition_new ''p'' cache_policy_default) of Inr p \<Rightarrow> p)) = Some 7"
proof -
  let ?p = "cache_partition_new ''p'' cache_policy_default :: int cache_partition"
  obtain p' where "partition_set ''a'' 7 (Some 10) 100 ?p = Ok p'"
    by (simp add: partition_set_def circuit_is_open_def cache_partition_new_def Let_def)
  moreover have "partition_wf ?p" by (simp add: partition_wf_def cache_partition_new_def)
  ultimately show ?thesis using cache_set_get [of ?p "''a''" 7 "Some 10" 100 p' 105] by simp
qed

text \<open>
  A partition never outgrows its capacity. Under every sequence of the partition's operations, with
  any clock readings, it holds at most its configured number of entries (one when that is zero), no key
  twice, and its policy does not change.
\<close>

theorem cache_capacity:
  assumes "reaches partition_step (cache_partition_new i policy) p"
  shows "length (pt_entries p) \<le> max 1 (cp_max_entries_per_partition policy) \<and>
    distinct (map fst (pt_entries p)) \<and> pt_policy p = policy"
proof -
  have "pt_policy p = policy"
    using partition_policy_reaches [OF assms] by (simp add: cache_partition_new_def)
  moreover have "partition_wf p" using partitions.reachable_inv [OF _ assms] by blast
  ultimately show ?thesis by (simp add: partition_wf_def)
qed

theorem cache_capacity_witness:
  "length (pt_entries (snd (partition_get ''k'' 5 (cache_partition_new ''p'' cache_policy_default :: int cache_partition)))) \<le> 10000"
proof -
  let ?p = "cache_partition_new ''p'' cache_policy_default :: int cache_partition"
  have "reaches partition_step ?p (snd (partition_get ''k'' 5 ?p))" by (rule reaches_single, rule step_get)
  from cache_capacity [OF this] show ?thesis by (simp add: cache_policy_default_def)
qed

text \<open>
  The circuit breaker. Once the consecutive failures reach the threshold, every write is refused
  with the partition's name until the cool-down since the last failure is over; the first write after
  that is accepted and half-opens the breaker, one more failure then opens it again at once, and a
  success closes it so that writes are accepted.
\<close>

theorem cache_breaker:
  assumes "fs \<noteq> []" "cp_failure_threshold (pt_policy p) \<le> pt_consecutive_failures p + length fs"
  shows "(now - last fs < cp_half_open_after_ms (pt_policy p) \<longrightarrow>
      partition_set key v ttl now (fold record_failure fs p) = Err (CircuitOpen (pt_partition_id p))) \<and>
    (cp_half_open_after_ms (pt_policy p) \<le> now - last fs \<longrightarrow>
      (\<exists>p'. partition_set key v ttl now (fold record_failure fs p) = Ok p' \<and>
         pt_circuit_breaker p' = BreakerHalfOpen \<and>
         pt_circuit_breaker (record_failure t p') = BreakerOpen t)) \<and>
    (\<exists>p'. partition_set key v ttl now (record_success (fold record_failure fs p)) = Ok p')"
proof (intro conjI impI)
  let ?q = "fold record_failure fs p"
  note q = fold_record_failure [of fs p]
  have op: "pt_circuit_breaker ?q = BreakerOpen (last fs)" using q assms by blast
  show "partition_set key v ttl now ?q = Err (CircuitOpen (pt_partition_id p))"
    if "now - last fs < cp_half_open_after_ms (pt_policy p)"
    using that q op by (simp add: partition_set_def circuit_is_open_def)
  show "\<exists>p'. partition_set key v ttl now ?q = Ok p' \<and> pt_circuit_breaker p' = BreakerHalfOpen \<and>
      pt_circuit_breaker (record_failure t p') = BreakerOpen t"
    if le: "cp_half_open_after_ms (pt_policy p) \<le> now - last fs"
  proof -
    obtain p' where "partition_set key v ttl now ?q = Ok p'" "pt_circuit_breaker p' = BreakerHalfOpen"
      "pt_consecutive_failures p' = pt_consecutive_failures ?q" "pt_policy p' = pt_policy ?q"
      using partition_set_half_open [OF op, of now key v ttl] le q by auto
    moreover from this q assms have "pt_circuit_breaker (record_failure t p') = BreakerOpen t"
      by (simp add: record_failure_def Let_def)
    ultimately show ?thesis by blast
  qed
  show "\<exists>p'. partition_set key v ttl now (record_success ?q) = Ok p'"
    by (simp add: partition_set_def circuit_is_open_def record_success_def Let_def)
qed

theorem cache_breaker_witness:
  "partition_set ''k'' (1 :: int) None 29999
     (fold record_failure [0, 0, 0, 0, 0] (cache_partition_new ''p'' cache_policy_default)) = Err (CircuitOpen ''p'')"
  using cache_breaker [of "[0, 0, 0, 0, 0]" "cache_partition_new ''p'' cache_policy_default" 29999 "''k''" "1 :: int" None]
  by (simp add: cache_partition_new_def cache_policy_default_def)

text \<open>
  Restoring a cache snapshot keeps the entries and their expiry. If every entry has a time to live,
  the expiry times fit 64 bits and each partition fits the capacity of the new manager, then after
  restoring the snapshot into an empty manager every key of every partition reads, at every later time,
  exactly as it would have read in the original cache.
\<close>

theorem cache_restore_roundtrip:
  fixes p :: "'v cache_partition"
  assumes "distinct (map fst (cm_partitions m))" "map_of (cm_partitions m) pid = Some p"
    "distinct (map fst (pt_entries p))" "snapshot_safe now p"
    "length (pt_entries p) \<le> cp_max_entries_per_partition policy" "now < t"
  shows "fst (partition_get k t (ensure_partition pid
      (restore_from_json (snapshot_to_json m) now (cache_manager_new policy)))) = fst (partition_get k t p)"
proof -
  let ?new = "cache_partition_new pid policy :: 'v cache_partition"
  have json: "distinct (map fst (snapshot_to_json m))" "map_of (snapshot_to_json m) pid = Some (snapshot_entries p)"
    using assms(1,2) by (simp_all add: snapshot_to_json_def comp_def case_prod_unfold map_of_map [unfolded case_prod_unfold])
  have "ensure_partition pid (cache_manager_new policy) = ?new"
    by (simp add: ensure_partition_def cache_manager_new_def)
  with restore_partitions [OF json(1), of pid now "cache_manager_new policy"] json(2)
  have r: "ensure_partition pid (restore_from_json (snapshot_to_json m) now (cache_manager_new policy)) =
      fold (restore_into now) (snapshot_entries p) ?new"
    by simp
  have "pt_entries (fold (restore_into now) (snapshot_entries p) ?new) =
      pt_entries ?new @ restored_entries now (pt_partition_id ?new) (snapshot_entries p)"
    by (rule fold_restore_into)
       (use assms in \<open>auto simp: cache_partition_new_def snapshot_entries_def snapshot_safe_def comp_def case_prod_unfold\<close>)
  then have "live t (fold (restore_into now) (snapshot_entries p) ?new) k =
      read_entries t (restored_entries now pid (snapshot_entries p)) k"
    by (simp add: live_def read_entries_def cache_partition_new_def)
  also have "\<dots> = read_entries t (pt_entries p) k"
    unfolding snapshot_entries_def
    by (rule read_restored) (use assms in \<open>auto simp: snapshot_safe_def\<close>)
  finally show ?thesis by (simp add: partition_get_live r live_def read_entries_def)
qed

theorem cache_restore_roundtrip_witness:
  "\<exists>p :: int cache_partition. fst (partition_get ''k'' 110 p) = Some 7 \<and>
     fst (partition_get ''k'' 110 (ensure_partition ''p'' (restore_from_json
       (snapshot_to_json \<lparr>cm_partitions = [(''p'', p)], cm_default_policy = cache_policy_default\<rparr>) 105
       (cache_manager_new cache_policy_default)))) = Some 7"
proof -
  let ?p = "(cache_partition_new ''p'' cache_policy_default)\<lparr>pt_entries :=
    [(''k'', cache_entry_new 7 ''p'' (Some 10) 100)]\<rparr> :: int cache_partition"
  have "fst (partition_get ''k'' 110 ?p) = Some 7"
    by (simp add: partition_get_def is_expired_def cache_entry_new_def)
  moreover have "snapshot_safe 105 ?p" by (simp add: snapshot_safe_def cache_entry_new_def)
  ultimately show ?thesis
    using cache_restore_roundtrip [of "\<lparr>cm_partitions = [(''p'', ?p)], cm_default_policy = cache_policy_default\<rparr>"
        "''p''" ?p 105 cache_policy_default 110 "''k''"]
    by (intro exI [of _ ?p]) (simp add: cache_policy_default_def)
qed

end
