(* ===== verification/Access_Control.thy ===== *)
theory Access_Control
  imports Vng_Prelude Vng_Text
begin

text \<open>
  Access control and the security configuration of \<^verbatim>\<open>crates/voltnuerongrid-auth/src/lib.rs\<close>: the
  role-based privilege matrix with its scope patterns, the validation of the configuration and its
  properties-file reader, and the choice of the key-management key among the primary and the failover
  candidates. The providers that ask an external command for a key are an argument. The JSON and YAML
  readers belong to the serialisation libraries.
\<close>

section \<open>Scopes\<close>

definition eq_ignore_ascii_case :: "string \<Rightarrow> string \<Rightarrow> bool" where
  "eq_ignore_ascii_case a b \<longleftrightarrow> to_lowercase a = to_lowercase b"

definition scope_segments :: "string \<Rightarrow> string list" where
  "scope_segments s = filter (\<lambda>seg. seg \<noteq> []) (split_str ''/'' s)"

definition is_placeholder :: "string \<Rightarrow> bool" where
  "is_placeholder s \<longleftrightarrow> starts_with s ''{'' \<and> ends_with s ''}''"

fun match_segments :: "string list \<Rightarrow> string list \<Rightarrow> bool" where
  "match_segments (a # as) (r # rs) =
     (if a = ''*'' then True
      else if is_placeholder a then (if r = [] then False else match_segments as rs)
      else if \<not> eq_ignore_ascii_case a r then False
      else match_segments as rs)"
| "match_segments [] rs = (rs = [])"
| "match_segments as [] = (as = [''*''])"

definition scope_matches :: "string \<Rightarrow> string \<Rightarrow> bool" where
  "scope_matches allowed_scope requested_scope =
     (if trim allowed_scope = ''*'' then True
      else match_segments (scope_segments (trim allowed_scope)) (scope_segments (trim requested_scope)))"

section \<open>Privilege matrix\<close>

datatype privilege_action = ReadAction | WriteAction | ExecuteAction | ManageAction

record resource_grant =
  rg_resource :: string
  rg_scopes :: "string list"
  rg_actions :: "privilege_action list"

definition grant_allows :: "resource_grant \<Rightarrow> string \<Rightarrow> string \<Rightarrow> privilege_action \<Rightarrow> bool" where
  "grant_allows g resource scope action \<longleftrightarrow>
     eq_ignore_ascii_case (rg_resource g) resource \<and> action \<in> set (rg_actions g) \<and>
     list_ex (\<lambda>allowed. scope_matches allowed scope) (rg_scopes g)"

type_synonym rbac_matrix = "string \<rightharpoonup> resource_grant list"

definition role_key :: "string \<Rightarrow> string" where
  "role_key role = to_lowercase (trim role)"

definition grants_for_role :: "string \<Rightarrow> rbac_matrix \<Rightarrow> resource_grant list" where
  "grants_for_role role m = (case m (role_key role) of Some gs \<Rightarrow> gs | None \<Rightarrow> [])"

definition grant_role :: "string \<Rightarrow> resource_grant \<Rightarrow> rbac_matrix \<Rightarrow> rbac_matrix" where
  "grant_role role g m = m(role_key role \<mapsto> grants_for_role role m @ [g])"

definition rbac_allows :: "string \<Rightarrow> string \<Rightarrow> string \<Rightarrow> privilege_action \<Rightarrow> rbac_matrix \<Rightarrow> bool" where
  "rbac_allows role resource scope action m =
     list_ex (\<lambda>g. grant_allows g resource scope action) (grants_for_role role m)"

section \<open>Security configuration\<close>

record security_config =
  sc_admin_api_key_env :: string
  sc_admin_header_name :: string
  sc_tls_required :: bool
  sc_mtls_required :: bool
  sc_encryption_at_rest_required :: bool
  sc_kms_key_ref_env :: string
  sc_kms_failover_key_ref_envs :: "string list"
  sc_allowed_operator_roles :: "string list"
  sc_token_ttl_seconds :: nat

fun validate_failover :: "(string \<rightharpoonup> string) \<Rightarrow> string list \<Rightarrow> (unit, string) result" where
  "validate_failover seen [] = Ok ()"
| "validate_failover seen (env_name # envs) =
     (let trimmed = trim env_name; normalized = to_lowercase trimmed
      in if normalized = [] then Err ''kms failover env names must not be empty''
         else case seen normalized of
                Some previous \<Rightarrow> Err (''kms failover env names must be unique; duplicate detected for '' @ previous)
              | None \<Rightarrow> validate_failover (seen(normalized \<mapsto> trimmed)) envs)"

definition validate_config :: "security_config \<Rightarrow> (unit, string) result" where
  "validate_config c =
     (if trim (sc_admin_api_key_env c) = [] then Err ''admin_api_key_env must not be empty''
      else if trim (sc_admin_header_name c) = [] \<or> \<not> starts_with (sc_admin_header_name c) ''x-''
        then Err (''admin_header_name must start with '' @ [CHR 0x27] @ ''x-'' @ [CHR 0x27])
      else if sc_mtls_required c \<and> \<not> sc_tls_required c then Err ''mtls_required=true requires tls_required=true''
      else if sc_encryption_at_rest_required c \<and> trim (sc_kms_key_ref_env c) = []
        then Err ''kms_key_ref_env must not be empty when encryption_at_rest_required=true''
      else
        (let primary_env = trim (sc_kms_key_ref_env c);
             primary_normalized = to_lowercase primary_env;
             seen = (if primary_normalized = [] then Map.empty else [primary_normalized \<mapsto> primary_env])
         in case validate_failover seen (sc_kms_failover_key_ref_envs c) of
              Inl e \<Rightarrow> Err e
            | Inr _ \<Rightarrow>
                if sc_allowed_operator_roles c = [] then Err ''allowed_operator_roles must not be empty''
                else if sc_token_ttl_seconds c < 60 then Err ''token_ttl_seconds must be >= 60''
                else Ok ()))"

definition parse_bool :: "string \<Rightarrow> (bool, string) result" where
  "parse_bool s =
     (if to_lowercase (trim s) = ''true'' then Ok True
      else if to_lowercase (trim s) = ''false'' then Ok False
      else Err ''boolean value must be true or false'')"

text \<open>The values the properties reader has met so far.\<close>

record security_draft =
  sd_admin_api_key_env :: "string option"
  sd_admin_header_name :: "string option"
  sd_tls_required :: "bool option"
  sd_mtls_required :: "bool option"
  sd_encryption_at_rest_required :: "bool option"
  sd_kms_key_ref_env :: "string option"
  sd_kms_failover_key_ref_envs :: "string list option"
  sd_allowed_operator_roles :: "string list option"
  sd_token_ttl_seconds :: "nat option"

definition empty_draft :: security_draft where
  "empty_draft =
     \<lparr>sd_admin_api_key_env = None, sd_admin_header_name = None, sd_tls_required = None, sd_mtls_required = None,
      sd_encryption_at_rest_required = None, sd_kms_key_ref_env = None, sd_kms_failover_key_ref_envs = None,
      sd_allowed_operator_roles = None, sd_token_ttl_seconds = None\<rparr>"

definition comma_list :: "string \<Rightarrow> string list" where
  "comma_list s = filter (\<lambda>v. v \<noteq> []) (map trim (split_str '','' s))"

definition set_property :: "string \<Rightarrow> string \<Rightarrow> security_draft \<Rightarrow> (security_draft, string) result" where
  "set_property key v d =
     (if key = ''security.adminApiKeyEnv'' then Ok (d\<lparr>sd_admin_api_key_env := Some v\<rparr>)
      else if key = ''security.adminHeaderName'' then Ok (d\<lparr>sd_admin_header_name := Some v\<rparr>)
      else if key = ''security.tlsRequired'' then
        (case parse_bool v of Inl e \<Rightarrow> Err e | Inr b \<Rightarrow> Ok (d\<lparr>sd_tls_required := Some b\<rparr>))
      else if key = ''security.mtlsRequired'' then
        (case parse_bool v of Inl e \<Rightarrow> Err e | Inr b \<Rightarrow> Ok (d\<lparr>sd_mtls_required := Some b\<rparr>))
      else if key = ''security.encryptionAtRestRequired'' then
        (case parse_bool v of Inl e \<Rightarrow> Err e | Inr b \<Rightarrow> Ok (d\<lparr>sd_encryption_at_rest_required := Some b\<rparr>))
      else if key = ''security.kmsKeyRefEnv'' then Ok (d\<lparr>sd_kms_key_ref_env := Some v\<rparr>)
      else if key = ''security.kmsFailoverKeyRefEnvs'' then Ok (d\<lparr>sd_kms_failover_key_ref_envs := Some (comma_list v)\<rparr>)
      else if key = ''security.allowedOperatorRoles'' then Ok (d\<lparr>sd_allowed_operator_roles := Some (comma_list v)\<rparr>)
      else if key = ''security.tokenTtlSeconds'' then
        (case parse_uint 64 v of
           Some n \<Rightarrow> Ok (d\<lparr>sd_token_ttl_seconds := Some n\<rparr>)
         | None \<Rightarrow> Err ''security.tokenTtlSeconds must be integer'')
      else Ok d)"

fun read_properties :: "string list \<Rightarrow> security_draft \<Rightarrow> (security_draft, string) result" where
  "read_properties [] d = Ok d"
| "read_properties (line # lines) d =
     (let trimmed = trim line
      in if trimmed = [] \<or> starts_with trimmed ''#'' \<or> starts_with trimmed ''!'' then read_properties lines d
         else case splitn 2 (CHR ''='') trimmed of
                [key, v] \<Rightarrow>
                  (case set_property (trim key) (trim v) d of
                     Inl e \<Rightarrow> Err e
                   | Inr d' \<Rightarrow> read_properties lines d')
              | _ \<Rightarrow> read_properties lines d)"

definition required :: "string \<Rightarrow> 'a option \<Rightarrow> ('a, string) result" where
  "required name x = (case x of Some v \<Rightarrow> Ok v | None \<Rightarrow> Err (''missing '' @ name))"

definition and_then :: "('a, 'e) result \<Rightarrow> ('a \<Rightarrow> ('b, 'e) result) \<Rightarrow> ('b, 'e) result" where
  "and_then r f = (case r of Inl e \<Rightarrow> Err e | Inr x \<Rightarrow> f x)"

definition draft_config :: "security_draft \<Rightarrow> (security_config, string) result" where
  "draft_config d =
     and_then (required ''security.adminApiKeyEnv'' (sd_admin_api_key_env d)) (\<lambda>api.
     and_then (required ''security.adminHeaderName'' (sd_admin_header_name d)) (\<lambda>header.
     and_then (required ''security.tlsRequired'' (sd_tls_required d)) (\<lambda>tls.
     and_then (required ''security.mtlsRequired'' (sd_mtls_required d)) (\<lambda>mtls.
     and_then (required ''security.encryptionAtRestRequired'' (sd_encryption_at_rest_required d)) (\<lambda>enc.
     and_then (required ''security.kmsKeyRefEnv'' (sd_kms_key_ref_env d)) (\<lambda>kms.
     and_then (required ''security.allowedOperatorRoles'' (sd_allowed_operator_roles d)) (\<lambda>roles.
     and_then (required ''security.tokenTtlSeconds'' (sd_token_ttl_seconds d)) (\<lambda>ttl.
       Ok \<lparr>sc_admin_api_key_env = api, sc_admin_header_name = header, sc_tls_required = tls, sc_mtls_required = mtls,
           sc_encryption_at_rest_required = enc, sc_kms_key_ref_env = kms,
           sc_kms_failover_key_ref_envs =
             (case sd_kms_failover_key_ref_envs d of Some envs \<Rightarrow> envs | None \<Rightarrow> []),
           sc_allowed_operator_roles = roles, sc_token_ttl_seconds = ttl\<rparr>))))))))"

definition from_properties_str :: "string \<Rightarrow> (security_config, string) result" where
  "from_properties_str input =
     and_then (read_properties (buf_lines input) empty_draft) (\<lambda>d.
     and_then (draft_config d) (\<lambda>config.
     and_then (validate_config config) (\<lambda>_. Ok config)))"

section \<open>Key management\<close>

fun add_candidates :: "string list \<Rightarrow> string list \<Rightarrow> string list" where
  "add_candidates cs [] = cs"
| "add_candidates cs (env_name # envs) =
     (if trim env_name = [] then add_candidates cs envs
      else if list_ex (\<lambda>c. eq_ignore_ascii_case c (trim env_name)) cs then add_candidates cs envs
      else add_candidates (cs @ [trim env_name]) envs)"

definition kms_key_candidates :: "security_config \<Rightarrow> string list" where
  "kms_key_candidates c =
     add_candidates (if trim (sc_kms_key_ref_env c) = [] then [] else [trim (sc_kms_key_ref_env c)])
       (sc_kms_failover_key_ref_envs c)"

record kms_key_resolution =
  kr_selected_env :: string
  kr_key_ref :: string
  kr_failover_used :: bool

fun resolve_candidates ::
  "(string \<Rightarrow> (string option, string) result) \<Rightarrow> nat \<Rightarrow> string list \<Rightarrow> (kms_key_resolution option, string) result" where
  "resolve_candidates lookup index [] = Ok None"
| "resolve_candidates lookup index (env_name # envs) =
     and_then (lookup env_name) (\<lambda>v.
       case v of
         Some x \<Rightarrow>
           if trim x \<noteq> [] then Ok (Some \<lparr>kr_selected_env = env_name, kr_key_ref = trim x, kr_failover_used = (0 < index)\<rparr>)
           else resolve_candidates lookup (Suc index) envs
       | None \<Rightarrow> resolve_candidates lookup (Suc index) envs)"

definition resolve_kms_key_ref_from_env_map ::
  "security_config \<Rightarrow> (string \<rightharpoonup> string) \<Rightarrow> (kms_key_resolution, string) result" where
  "resolve_kms_key_ref_from_env_map c env_values =
     and_then (resolve_candidates (\<lambda>n. Ok (env_values n)) 0 (kms_key_candidates c)) (\<lambda>r.
       case r of
         Some k \<Rightarrow> Ok k
       | None \<Rightarrow> Err (''no configured kms key reference resolved from env candidates: '' @ join '', '' (kms_key_candidates c)))"

definition resolve_kms_key_ref_with_provider ::
  "security_config \<Rightarrow> (string \<Rightarrow> (string option, string) result) \<Rightarrow> (kms_key_resolution, string) result" where
  "resolve_kms_key_ref_with_provider c lookup =
     and_then (resolve_candidates lookup 0 (kms_key_candidates c)) (\<lambda>r.
       case r of
         Some k \<Rightarrow> Ok k
       | None \<Rightarrow> Err (''no configured kms key reference resolved from provider candidates: '' @ join '', '' (kms_key_candidates c)))"

section \<open>Specification\<close>

text \<open>A path of plain segments, and the values a lookup offers.\<close>

definition plain_segment :: "string \<Rightarrow> bool" where
  "plain_segment s \<longleftrightarrow> s \<noteq> [] \<and> CHR ''/'' \<notin> set s \<and> s \<noteq> ''*'' \<and> \<not> is_placeholder s \<and> list_all (\<lambda>c. \<not> is_whitespace c) s"

definition same_segments :: "string list \<Rightarrow> string list \<Rightarrow> bool" where
  "same_segments = list_all2 eq_ignore_ascii_case"

definition offers :: "(string \<rightharpoonup> string) \<Rightarrow> string \<Rightarrow> string option" where
  "offers env n = (case env n of Some x \<Rightarrow> if trim x = [] then None else Some (trim x) | None \<Rightarrow> None)"

definition grant_all :: "(string \<times> resource_grant) list \<Rightarrow> rbac_matrix" where
  "grant_all gs = fold (\<lambda>(role, g). grant_role role g) gs Map.empty"

section \<open>Matching\<close>

lemma split_slash_join:
  assumes "xs \<noteq> []" "\<forall>x\<in>set xs. CHR ''/'' \<notin> set x"
  shows "split_str ''/'' (join ''/'' xs) = xs"
proof (rule split_str_join)
  show "\<forall>x\<in>set xs. sep_safe ''/'' x"
  proof
    fix x assume "x \<in> set xs"
    with assms(2) have x: "CHR ''/'' \<notin> set x" by blast
    show "sep_safe ''/'' x"
      unfolding sep_safe_def
    proof (intro allI impI)
      fix i assume i: "i < length x"
      then have "drop i x = x ! i # drop (Suc i) x" by (simp add: Cons_nth_drop_Suc)
      moreover have "x ! i \<noteq> CHR ''/''" using x nth_mem [OF i] by metis
      ultimately show "\<not> starts_with (drop i x @ ''/'') ''/''" by (simp add: starts_with_def)
    qed
  qed
qed (use assms in simp_all)

lemma match_plain:
  assumes "\<forall>l\<in>set ls. plain_segment l"
  shows "match_segments ls rs \<longleftrightarrow> same_segments ls rs"
    and "match_segments (ls @ [''*'']) rs \<longleftrightarrow> length ls \<le> length rs \<and> same_segments ls (take (length ls) rs)"
proof -
  have plain: "l \<noteq> ''*'' \<and> \<not> is_placeholder l" if "l \<in> set ls" for l using that assms by (simp add: plain_segment_def)
  from plain show "match_segments ls rs \<longleftrightarrow> same_segments ls rs"
  proof (induction ls arbitrary: rs)
    case (Cons l ls)
    then show ?case by (cases rs) (auto simp: same_segments_def)
  qed (simp add: same_segments_def)
  from plain show "match_segments (ls @ [''*'']) rs \<longleftrightarrow> length ls \<le> length rs \<and> same_segments ls (take (length ls) rs)"
  proof (induction ls arbitrary: rs)
    case Nil
    then show ?case by (cases rs) (simp_all add: same_segments_def)
  next
    case (Cons l ls)
    then show ?case by (cases rs) (auto simp: same_segments_def)
  qed
qed

lemma join_chars: "set (join sep xs) \<subseteq> set sep \<union> (\<Union>x\<in>set xs. set x)"
  by (induction sep xs rule: join.induct) auto

lemma trim_no_whitespace: "\<forall>c\<in>set s. \<not> is_whitespace c \<Longrightarrow> trim s = s"
  by (rule trim_id) auto

lemma scope_path:
  assumes "xs \<noteq> []" "\<forall>x\<in>set xs. x \<noteq> [] \<and> CHR ''/'' \<notin> set x \<and> list_all (\<lambda>c. \<not> is_whitespace c) x"
  shows "trim (join ''/'' xs) = join ''/'' xs" "scope_segments (join ''/'' xs) = xs"
    "join ''/'' xs = ''*'' \<longleftrightarrow> xs = [''*'']"
proof -
  show "trim (join ''/'' xs) = join ''/'' xs"
    by (rule trim_no_whitespace) (use join_chars [of "''/''" xs] assms(2) in \<open>auto simp: list_all_iff is_whitespace_def\<close>)
  have split: "split_str ''/'' (join ''/'' xs) = xs" by (rule split_slash_join) (use assms in auto)
  then show "scope_segments (join ''/'' xs) = xs" using assms(2) by (simp add: scope_segments_def filter_id_conv)
  have "split_str ''/'' ''*'' = [''*'']" using split_slash_join [of "[''*'']"] by simp
  then show "join ''/'' xs = ''*'' \<longleftrightarrow> xs = [''*'']" using split by auto
qed

section \<open>Grants\<close>

lemma rbac_allows_grant:
  "rbac_allows role resource scope action (grant_role role' g m) \<longleftrightarrow>
     rbac_allows role resource scope action m \<or> role_key role' = role_key role \<and> grant_allows g resource scope action"
  by (auto simp: rbac_allows_def grant_role_def grants_for_role_def)

lemma rbac_allows_fold:
  "rbac_allows role resource scope action (fold (\<lambda>(role, g). grant_role role g) gs m) \<longleftrightarrow>
     rbac_allows role resource scope action m \<or>
     (\<exists>(r, g)\<in>set gs. role_key r = role_key role \<and> grant_allows g resource scope action)"
proof (induction gs arbitrary: m)
  case (Cons rg gs)
  obtain r g where "rg = (r, g)" by (cases rg)
  with Cons show ?case by (auto simp: rbac_allows_grant)
qed simp

section \<open>Key candidates\<close>

lemma resolve_candidates_env:
  "case resolve_candidates (\<lambda>n. Ok (env n)) index cs of
     Inl e \<Rightarrow> False
   | Inr None \<Rightarrow> list_all (\<lambda>n. offers env n = None) cs
   | Inr (Some k) \<Rightarrow> (\<exists>i < length cs. kr_selected_env k = cs ! i \<and> offers env (cs ! i) = Some (kr_key_ref k) \<and>
       list_all (\<lambda>n. offers env n = None) (take i cs) \<and> kr_failover_used k = (0 < index + i))"
proof (induction cs arbitrary: index)
  case (Cons n cs)
  show ?case
  proof (cases "offers env n")
    case (Some x)
    then have "resolve_candidates (\<lambda>n. Ok (env n)) index (n # cs) =
        Ok (Some \<lparr>kr_selected_env = n, kr_key_ref = x, kr_failover_used = (0 < index)\<rparr>)"
      by (auto simp: offers_def and_then_def split: option.splits if_splits)
    with Some show ?thesis by (auto intro: exI [of _ 0])
  next
    case None
    then have step: "resolve_candidates (\<lambda>n. Ok (env n)) index (n # cs) = resolve_candidates (\<lambda>n. Ok (env n)) (Suc index) cs"
      by (auto simp: offers_def and_then_def split: option.splits if_splits)
    show ?thesis
    proof (cases "resolve_candidates (\<lambda>n. Ok (env n)) (Suc index) cs")
      case (Inl e)
      with Cons.IH [of "Suc index"] show ?thesis by simp
    next
      case (Inr r)
      show ?thesis
      proof (cases r)
        case None
        with Inr Cons.IH [of "Suc index"] \<open>offers env n = None\<close> step show ?thesis by simp
      next
        case (Some k)
        with Inr Cons.IH [of "Suc index"] obtain i where "i < length cs" "kr_selected_env k = cs ! i"
          "offers env (cs ! i) = Some (kr_key_ref k)" "list_all (\<lambda>n. offers env n = None) (take i cs)" "kr_failover_used k"
          by auto
        with Inr Some \<open>offers env n = None\<close> step show ?thesis by (auto intro!: exI [of _ "Suc i"])
      qed
    qed
  qed
qed simp

lemma add_candidates_distinct:
  assumes "validate_failover seen envs = Ok ()" "dom seen = to_lowercase ` set cs"
  shows "add_candidates cs envs = cs @ map trim envs"
  using assms
proof (induction envs arbitrary: seen cs)
  case (Cons e envs)
  from Cons.prems(1) have e: "to_lowercase (trim e) \<noteq> []" "seen (to_lowercase (trim e)) = None"
    "validate_failover (seen(to_lowercase (trim e) \<mapsto> trim e)) envs = Ok ()"
    by (auto simp: Let_def split: if_splits option.splits)
  then have "trim e \<noteq> []" by (auto simp: to_lowercase_def)
  moreover have "\<not> list_ex (\<lambda>c. eq_ignore_ascii_case c (trim e)) cs"
  proof
    assume "list_ex (\<lambda>c. eq_ignore_ascii_case c (trim e)) cs"
    then obtain c' where "c' \<in> set cs" "to_lowercase c' = to_lowercase (trim e)"
      unfolding list_ex_iff eq_ignore_ascii_case_def by blast
    then have "to_lowercase (trim e) \<in> to_lowercase ` set cs" by (metis imageI)
    with Cons.prems(2) e(2) show False by auto
  qed
  moreover have "add_candidates (cs @ [trim e]) envs = (cs @ [trim e]) @ map trim envs"
    by (rule Cons.IH [OF e(3)]) (simp only: dom_fun_upd Cons.prems(2), simp)
  ultimately show ?case by simp
qed simp

lemma validate_config_OkD:
  assumes "validate_config c = Ok ()"
  shows "kms_key_candidates c =
      (if trim (sc_kms_key_ref_env c) = [] then [] else [trim (sc_kms_key_ref_env c)]) @
      map trim (sc_kms_failover_key_ref_envs c)"
    and "60 \<le> sc_token_ttl_seconds c" "sc_allowed_operator_roles c \<noteq> []" "sc_mtls_required c \<Longrightarrow> sc_tls_required c"
proof -
  let ?p = "trim (sc_kms_key_ref_env c)"
  have "validate_failover (if to_lowercase ?p = [] then Map.empty else [to_lowercase ?p \<mapsto> ?p])
      (sc_kms_failover_key_ref_envs c) = Ok ()"
    and *: "60 \<le> sc_token_ttl_seconds c" "sc_allowed_operator_roles c \<noteq> []" "sc_mtls_required c \<Longrightarrow> sc_tls_required c"
    using assms by (auto simp: validate_config_def Let_def split: if_splits sum.splits)
  then show "kms_key_candidates c = (if ?p = [] then [] else [?p]) @ map trim (sc_kms_failover_key_ref_envs c)"
    unfolding kms_key_candidates_def
    by (intro add_candidates_distinct [where seen = "if to_lowercase ?p = [] then Map.empty else [to_lowercase ?p \<mapsto> ?p]"])
       (auto simp: to_lowercase_def)
  from * show "60 \<le> sc_token_ttl_seconds c" "sc_allowed_operator_roles c \<noteq> []" "sc_mtls_required c \<Longrightarrow> sc_tls_required c"
    by auto
qed

lemma from_properties_valid: "from_properties_str input = Ok c \<Longrightarrow> validate_config c = Ok ()"
  by (auto simp: from_properties_str_def and_then_def split: sum.splits)

section \<open>Properties\<close>


text \<open>
  C13: What a scope pattern covers. A path of plain segments covers exactly the scopes with the same
  segments up to case; the path followed by a star covers exactly the scopes that start with these
  segments, the path itself included. A grant on one subtree never reaches outside it.
\<close>

theorem scope_patterns:
  assumes "ls \<noteq> []" "\<forall>l\<in>set ls. plain_segment l"
  shows "(scope_matches (join ''/'' ls) req \<longleftrightarrow> same_segments ls (scope_segments (trim req))) \<and>
    (scope_matches (join ''/'' (ls @ [''*''])) req \<longleftrightarrow>
       length ls \<le> length (scope_segments (trim req)) \<and>
       same_segments ls (take (length ls) (scope_segments (trim req))))"
proof -
  have p: "\<forall>x\<in>set ls. x \<noteq> [] \<and> CHR ''/'' \<notin> set x \<and> list_all (\<lambda>c. \<not> is_whitespace c) x"
    and ps: "\<forall>x\<in>set (ls @ [''*'']). x \<noteq> [] \<and> CHR ''/'' \<notin> set x \<and> list_all (\<lambda>c. \<not> is_whitespace c) x"
    using assms(2) by (auto simp: plain_segment_def is_whitespace_def)
  have "ls \<noteq> [''*'']" using assms(2) by (auto simp: plain_segment_def)
  then show ?thesis
    using scope_path [OF assms(1) p] scope_path [OF _ ps] match_plain [OF assms(2)] assms(1)
    by (auto simp: scope_matches_def)
qed

theorem scope_patterns_witness:
  "scope_matches ''db/sales/*'' '' DB/Sales/orders/1 '' \<and> \<not> scope_matches ''db/sales/*'' ''db/salesforce/orders''"
proof -
  have "\<forall>l\<in>set [''db'', ''sales'']. plain_segment l" by code_simp
  note w = scope_patterns [of "[''db'', ''sales'']", OF _ this]
  have "scope_segments (trim '' DB/Sales/orders/1 '') = [''DB'', ''Sales'', ''orders'', ''1'']"
    "scope_segments (trim ''db/salesforce/orders'') = [''db'', ''salesforce'', ''orders'']"
    "same_segments [''db'', ''sales''] [''DB'', ''Sales'']" "\<not> same_segments [''db'', ''sales''] [''db'', ''salesforce'']"
    by code_simp+
  then show ?thesis using w [of "'' DB/Sales/orders/1 ''"] w [of "''db/salesforce/orders''"] by simp
qed

text \<open>
  Choosing the encryption key. For a valid configuration the candidates are the primary variable
  followed by all failover variables in order, none dropped. The key chosen is the first candidate
  whose value is not blank; the failover flag says exactly whether that is not the first candidate; and
  the choice fails only when no candidate has a value.
\<close>

theorem kms_key_choice:
  assumes "validate_config c = Ok ()"
  shows "kms_key_candidates c =
      (if trim (sc_kms_key_ref_env c) = [] then [] else [trim (sc_kms_key_ref_env c)]) @
      map trim (sc_kms_failover_key_ref_envs c) \<and>
    (case resolve_kms_key_ref_from_env_map c env of
       Inl e \<Rightarrow> list_all (\<lambda>n. offers env n = None) (kms_key_candidates c)
     | Inr k \<Rightarrow> (\<exists>i < length (kms_key_candidates c).
         kr_selected_env k = kms_key_candidates c ! i \<and>
         offers env (kms_key_candidates c ! i) = Some (kr_key_ref k) \<and>
         list_all (\<lambda>n. offers env n = None) (take i (kms_key_candidates c)) \<and>
         kr_failover_used k = (0 < i)))"
proof (rule conjI [OF validate_config_OkD(1) [OF assms]])
  let ?cs = "kms_key_candidates c"
  note spec = resolve_candidates_env [where env = env and index = 0 and cs = ?cs]
  show "case resolve_kms_key_ref_from_env_map c env of
       Inl e \<Rightarrow> list_all (\<lambda>n. offers env n = None) ?cs
     | Inr k \<Rightarrow> (\<exists>i < length ?cs. kr_selected_env k = ?cs ! i \<and> offers env (?cs ! i) = Some (kr_key_ref k) \<and>
         list_all (\<lambda>n. offers env n = None) (take i ?cs) \<and> kr_failover_used k = (0 < i))"
  proof (cases "resolve_candidates (\<lambda>n. Ok (env n)) 0 ?cs")
    case (Inl e)
    with spec show ?thesis by simp
  next
    case (Inr r)
    with spec show ?thesis by (cases r) (simp_all add: resolve_kms_key_ref_from_env_map_def and_then_def)
  qed
qed

theorem kms_key_choice_witness:
  "\<exists>c. validate_config c = Ok () \<and> kms_key_candidates c = [''MAIN'', ''BACKUP'']"
proof -
  let ?c = "\<lparr>sc_admin_api_key_env = ''K'', sc_admin_header_name = ''x-k'', sc_tls_required = True, sc_mtls_required = False,
    sc_encryption_at_rest_required = True, sc_kms_key_ref_env = ''MAIN'', sc_kms_failover_key_ref_envs = ['' BACKUP''],
    sc_allowed_operator_roles = [''admin''], sc_token_ttl_seconds = 60\<rparr>"
  have t: "trim ''K'' = ''K''" "trim ''x-k'' = ''x-k''" "trim ''MAIN'' = ''MAIN''" "trim '' BACKUP'' = ''BACKUP''"
    "to_lowercase ''MAIN'' = ''main''" "to_lowercase ''BACKUP'' = ''backup''" "starts_with ''x-k'' ''x-''"
    by code_simp+
  then have v: "validate_config ?c = Ok ()" by (simp add: validate_config_def Let_def)
  with kms_key_choice [OF v] t show ?thesis by (intro exI [of _ ?c]) simp
qed

end
