(* ===== verification/Pg_Wire.thy ===== *)
theory Pg_Wire
  imports Vng_Prelude Vng_Text "HOL-Library.Word" "HOL-Library.Sublist"
begin

text \<open>
  The PostgreSQL wire protocol of \<^verbatim>\<open>services/voltnuerongridd/src/helpers/pg_wire.rs\<close> and the loop of
  \<^verbatim>\<open>pg_listener.rs\<close> that takes messages from the receive buffer. Bytes are characters; 32-bit lengths
  are words, and the cast of a signed length to \<^verbatim>\<open>usize\<close> keeps the sign extension of the code. A slice
  out of range is the value \<open>None\<close>. Decoding bytes that are not UTF-8 is an argument (\<open>lossy\<close>). Running
  a query and writing to the socket are not part of the loop modelled here.
\<close>

abbreviation nul :: char where "nul \<equiv> CHR 0x00"

section \<open>Integers\<close>

definition put_i32 :: "32 word \<Rightarrow> string" where
  "put_i32 v =
     (let n = unat v in map char_of [n div 16777216, n div 65536 mod 256, n div 256 mod 256, n mod 256])"

definition put_i16 :: "16 word \<Rightarrow> string" where
  "put_i16 v = (let n = unat v in map char_of [n div 256, n mod 256])"

definition put_cstr :: "string \<Rightarrow> string" where
  "put_cstr s = s @ [nul]"

definition i32_from_be_bytes :: "char \<Rightarrow> char \<Rightarrow> char \<Rightarrow> char \<Rightarrow> 32 word" where
  "i32_from_be_bytes a b c d =
     of_nat (of_char a * 16777216 + of_char b * 65536 + of_char c * 256 + of_char d)"

text \<open>\<^verbatim>\<open>as usize\<close> on an \<^verbatim>\<open>i32\<close>.\<close>

definition as_usize :: "32 word \<Rightarrow> nat" where
  "as_usize v = nat (sint v mod 2 ^ 64)"

section \<open>Startup packet\<close>

definition ssl_request_code :: "32 word" where
  "ssl_request_code = 80877103"

definition protocol_version_3 :: "32 word" where
  "protocol_version_3 = 196608"

record startup_message =
  sm_protocol_version :: "32 word"
  sm_parameters :: "(string \<times> string) list"

definition startup_get :: "string \<Rightarrow> startup_message \<Rightarrow> string option" where
  "startup_get key m = map_option snd (find (\<lambda>p. fst p = key) (sm_parameters m))"

datatype startup_decode = Startup startup_message | SslRequest | Incomplete

text \<open>The bytes before the next zero byte and those after it.\<close>

definition take_cstr :: "string \<Rightarrow> (string \<times> string) option" where
  "take_cstr body =
     (case dropWhile (\<lambda>b. b \<noteq> nul) body of [] \<Rightarrow> None | _ # rest \<Rightarrow> Some (takeWhile (\<lambda>b. b \<noteq> nul) body, rest))"

lemma take_cstr_length: "take_cstr body = Some (s, rest) \<Longrightarrow> length rest < length body"
proof -
  assume a: "take_cstr body = Some (s, rest)"
  then have "length (dropWhile (\<lambda>b. b \<noteq> nul) body) = Suc (length rest)"
    by (auto simp: take_cstr_def split: list.splits)
  then show ?thesis using length_dropWhile_le [of "\<lambda>b. b \<noteq> nul" body] by simp
qed

function startup_params ::
  "(string \<Rightarrow> string) \<Rightarrow> string \<Rightarrow> ((string \<times> string) list, string) result" where
  "startup_params lossy body =
     (case take_cstr body of
        None \<Rightarrow> Ok []
      | Some (key, rest) \<Rightarrow>
          if lossy key = [] then Ok []
          else
            (case take_cstr rest of
               None \<Rightarrow> Err ''startup parameter value not NUL-terminated''
             | Some (v, rest') \<Rightarrow>
                 (case startup_params lossy rest' of
                    Inl e \<Rightarrow> Err e
                  | Inr ps \<Rightarrow> Ok ((lossy key, lossy v) # ps))))"
  by pat_completeness auto
termination
proof (relation "measure (\<lambda>(lossy, body). length body)", goal_cases)
  case (2 lossy body x key rest y v rest')
  then show ?case using take_cstr_length [of body key rest] take_cstr_length [of rest v rest'] by simp
qed simp

declare startup_params.simps [simp del]

definition decode_startup :: "(string \<Rightarrow> string) \<Rightarrow> string \<Rightarrow> (startup_decode, string) result" where
  "decode_startup lossy buf =
     (if length buf < 4 then Ok Incomplete
      else
        (let len = as_usize (i32_from_be_bytes (buf ! 0) (buf ! 1) (buf ! 2) (buf ! 3))
         in if len < 8 then Err (''startup length too small: '' @ show_nat len)
            else if length buf < len then Ok Incomplete
            else
              (let code = i32_from_be_bytes (buf ! 4) (buf ! 5) (buf ! 6) (buf ! 7)
               in if code = ssl_request_code then Ok SslRequest
                  else
                    (case startup_params lossy (drop 8 (take len buf)) of
                       Inl e \<Rightarrow> Err e
                     | Inr ps \<Rightarrow> Ok (Startup \<lparr>sm_protocol_version = code, sm_parameters = ps\<rparr>)))))"

section \<open>Frontend messages\<close>

datatype frontend_message = Query string | Password string | Terminate | OtherMessage char

definition message_of :: "(string \<Rightarrow> string) \<Rightarrow> char \<Rightarrow> string \<Rightarrow> frontend_message" where
  "message_of lossy tag body =
     (if tag = CHR ''Q'' then Query (lossy (takeWhile (\<lambda>b. b \<noteq> nul) body))
      else if tag = CHR ''p'' then Password (lossy (takeWhile (\<lambda>b. b \<noteq> nul) body))
      else if tag = CHR ''X'' then Terminate
      else OtherMessage tag)"

definition decode_frontend_message ::
  "(string \<Rightarrow> string) \<Rightarrow> string \<Rightarrow> ((frontend_message \<times> nat) option, string) result option" where
  "decode_frontend_message lossy buf =
     (if length buf < 5 then Some (Ok None)
      else
        (let len = as_usize (i32_from_be_bytes (buf ! 1) (buf ! 2) (buf ! 3) (buf ! 4))
         in if len < 4 then Some (Err (''frontend message length too small: '' @ show_nat len))
            else
              (let total = (1 + len) mod 2 ^ 64
               in if length buf < total then Some (Ok None)
                  else if total < 5 then None
                  else Some (Ok (Some (message_of lossy (buf ! 0) (drop 5 (take total buf)), total))))))"

text \<open>The receive loop: what it has taken from the buffer and how it stands.\<close>

datatype pump_state = Waiting string | Closed | Failed string | Panicked

lemma decode_consumes:
  "decode_frontend_message lossy buf = Some (Ok (Some (m, k))) \<Longrightarrow> 5 \<le> k \<and> k \<le> length buf"
  by (auto simp: decode_frontend_message_def Let_def split: if_splits)

function pump :: "(string \<Rightarrow> string) \<Rightarrow> string \<Rightarrow> frontend_message list \<times> pump_state" where
  "pump lossy buf =
     (case decode_frontend_message lossy buf of
        None \<Rightarrow> ([], Panicked)
      | Some (Inl e) \<Rightarrow> ([], Failed e)
      | Some (Inr None) \<Rightarrow> ([], Waiting buf)
      | Some (Inr (Some (m, k))) \<Rightarrow>
          if m = Terminate then ([], Closed)
          else (let (ms, st) = pump lossy (drop k buf) in (m # ms, st)))"
  by pat_completeness auto
termination
proof (relation "measure (\<lambda>(lossy, buf). length buf)", goal_cases)
  case (2 lossy buf)
  then show ?case by (auto dest!: decode_consumes)
qed simp

declare pump.simps [simp del]

section \<open>Backend messages\<close>

definition frame :: "char \<Rightarrow> string \<Rightarrow> string" where
  "frame tag payload = tag # put_i32 (of_nat (length payload + 4)) @ payload"

datatype transaction_status = TxIdle | InTransaction | TxFailed

fun status_byte :: "transaction_status \<Rightarrow> char" where
  "status_byte TxIdle = CHR ''I''"
| "status_byte InTransaction = CHR ''T''"
| "status_byte TxFailed = CHR ''E''"

definition encode_authentication_ok :: string where
  "encode_authentication_ok = frame (CHR ''R'') (put_i32 0)"

definition encode_authentication_cleartext_password :: string where
  "encode_authentication_cleartext_password = frame (CHR ''R'') (put_i32 3)"

definition encode_parameter_status :: "string \<Rightarrow> string \<Rightarrow> string" where
  "encode_parameter_status key v = frame (CHR ''S'') (put_cstr key @ put_cstr v)"

definition encode_backend_key_data :: "32 word \<Rightarrow> 32 word \<Rightarrow> string" where
  "encode_backend_key_data process_id secret_key = frame (CHR ''K'') (put_i32 process_id @ put_i32 secret_key)"

definition encode_ready_for_query :: "transaction_status \<Rightarrow> string" where
  "encode_ready_for_query status = frame (CHR ''Z'') [status_byte status]"

definition encode_row_description :: "(string \<times> 32 word) list \<Rightarrow> string" where
  "encode_row_description descs =
     frame (CHR ''T'')
       (put_i16 (of_nat (length descs)) @
        concat (map (\<lambda>(name, type_oid). put_cstr name @ put_i32 0 @ put_i16 0 @ put_i32 type_oid @ put_i16 (- 1) @
          put_i32 (- 1) @ put_i16 0) descs))"

definition encode_cell :: "string option \<Rightarrow> string" where
  "encode_cell cell = (case cell of Some s \<Rightarrow> put_i32 (of_nat (length s)) @ s | None \<Rightarrow> put_i32 (- 1))"

definition encode_data_row :: "string option list \<Rightarrow> string" where
  "encode_data_row cells =
     frame (CHR ''D'') (put_i16 (of_nat (length cells)) @ concat (map encode_cell cells))"

definition encode_command_complete :: "string \<Rightarrow> string" where
  "encode_command_complete tag = frame (CHR ''C'') (put_cstr tag)"

definition encode_error_response :: "string \<Rightarrow> string \<Rightarrow> string" where
  "encode_error_response sqlstate message =
     frame (CHR ''E'')
       (''S'' @ put_cstr ''ERROR'' @ ''C'' @ put_cstr sqlstate @ ''M'' @ put_cstr message @ [nul])"

definition command_tag :: "string \<Rightarrow> nat \<Rightarrow> string" where
  "command_tag sql row_count =
     (let upper = to_uppercase (trim_start sql)
      in if starts_with upper ''SELECT'' then ''SELECT '' @ show_nat row_count
         else if starts_with upper ''INSERT'' then ''INSERT 0 '' @ show_nat row_count
         else if starts_with upper ''UPDATE'' then ''UPDATE '' @ show_nat row_count
         else if starts_with upper ''DELETE'' then ''DELETE '' @ show_nat row_count
         else if starts_with upper ''CREATE'' then ''CREATE''
         else if starts_with upper ''DROP'' then ''DROP''
         else if starts_with upper ''BEGIN'' \<or> starts_with upper ''START'' then ''BEGIN''
         else if starts_with upper ''COMMIT'' then ''COMMIT''
         else if starts_with upper ''ROLLBACK'' then ''ROLLBACK''
         else (case split_whitespace upper of w # _ \<Rightarrow> w | [] \<Rightarrow> ''OK''))"

section \<open>Specification\<close>

text \<open>
  The bytes a client sends for a message and for the startup packet; the receive loop over the chunks
  the socket delivers; and a reader for data rows as the protocol describes them.
\<close>

fun frontend_bytes :: "frontend_message \<Rightarrow> string" where
  "frontend_bytes (Query s) = frame (CHR ''Q'') (put_cstr s)"
| "frontend_bytes (Password s) = frame (CHR ''p'') (put_cstr s)"
| "frontend_bytes Terminate = frame (CHR ''X'') []"
| "frontend_bytes (OtherMessage t) = frame t []"

fun sendable :: "(string \<Rightarrow> string) \<Rightarrow> frontend_message \<Rightarrow> bool" where
  "sendable lossy (Query s) = (nul \<notin> set s \<and> lossy s = s \<and> length s + 6 < 2 ^ 31)"
| "sendable lossy (Password s) = (nul \<notin> set s \<and> lossy s = s \<and> length s + 6 < 2 ^ 31)"
| "sendable lossy Terminate = False"
| "sendable lossy (OtherMessage t) = (t \<noteq> CHR ''Q'' \<and> t \<noteq> CHR ''p'' \<and> t \<noteq> CHR ''X'')"

fun receive :: "(string \<Rightarrow> string) \<Rightarrow> pump_state \<Rightarrow> string list \<Rightarrow> frontend_message list \<times> pump_state" where
  "receive lossy st [] = ([], st)"
| "receive lossy st (chunk # chunks) =
     (case st of
        Waiting r \<Rightarrow>
          (let (ms, st') = pump lossy (r @ chunk); (ms', st'') = receive lossy st' chunks in (ms @ ms', st''))
      | _ \<Rightarrow> ([], st))"

definition startup_bytes :: "32 word \<Rightarrow> (string \<times> string) list \<Rightarrow> string" where
  "startup_bytes version params =
     (let body = put_i32 version @ concat (map (\<lambda>(k, v). put_cstr k @ put_cstr v) params) @ [nul]
      in put_i32 (of_nat (length body + 4)) @ body)"

fun read_cells :: "nat \<Rightarrow> string \<Rightarrow> string option list option" where
  "read_cells 0 bs = (if bs = [] then Some [] else None)"
| "read_cells (Suc n) (a # b # c # d # bs) =
     (let l = i32_from_be_bytes a b c d
      in if l = - 1 then map_option (Cons None) (read_cells n bs)
         else if length bs < as_usize l then None
         else map_option (Cons (Some (take (as_usize l) bs))) (read_cells n (drop (as_usize l) bs)))"
| "read_cells (Suc n) _ = None"

fun read_data_row :: "string \<Rightarrow> string option list option" where
  "read_data_row (t # a # b # c # d # h # l # bs) =
     (if t = CHR ''D'' \<and> as_usize (i32_from_be_bytes a b c d) = length bs + 6
      then read_cells (of_char h * 256 + of_char l) bs else None)"
| "read_data_row _ = None"

section \<open>Integers on the wire\<close>

lemma byte_sum:
  "256 * q + r = n \<Longrightarrow> 256 * q' + r' = q \<Longrightarrow> 256 * q'' + r'' = q' \<Longrightarrow>
     q'' * 16777216 + r'' * 65536 + r' * 256 + r = (n :: nat)"
  by simp

lemma i32_bytes:
  "\<exists>a b c d. put_i32 v = [a, b, c, d] \<and> i32_from_be_bytes a b c d = v"
proof -
  let ?n = "unat v"
  have n: "?n < 4294967296" using unsigned_less [of v] by simp
  have q: "?n div 65536 = ?n div 256 div 256" "?n div 16777216 = ?n div 256 div 256 div 256"
    by (simp_all add: div_mult2_eq [symmetric])
  have top: "?n div 16777216 < 256" using n by (simp add: div_less_iff_less_mult)
  have sum: "?n div 16777216 * 16777216 + ?n div 65536 mod 256 * 65536 + ?n div 256 mod 256 * 256 + ?n mod 256 = ?n"
    unfolding q
    by (rule byte_sum [OF mult_div_mod_eq [of 256 ?n] mult_div_mod_eq [of 256 "?n div 256"] mult_div_mod_eq [of 256 "?n div 256 div 256"]])
  have "(of_char (char_of (?n div 16777216)) :: nat) = ?n div 16777216"
    "(of_char (char_of (?n div 65536 mod 256)) :: nat) = ?n div 65536 mod 256"
    "(of_char (char_of (?n div 256 mod 256)) :: nat) = ?n div 256 mod 256"
    "(of_char (char_of (?n mod 256)) :: nat) = ?n mod 256"
    using top by (simp_all add: of_char_of)
  then have "i32_from_be_bytes (char_of (?n div 16777216)) (char_of (?n div 65536 mod 256)) (char_of (?n div 256 mod 256))
      (char_of (?n mod 256)) = v"
    unfolding i32_from_be_bytes_def by (simp only: sum) simp
  then show ?thesis by (simp add: put_i32_def Let_def)
qed

lemma length_put_i32 [simp]: "length (put_i32 v) = 4"
  by (simp add: put_i32_def Let_def)

lemma as_usize_of_nat: "n < 2 ^ 31 \<Longrightarrow> as_usize (of_nat n) = n"
proof -
  assume n: "n < 2 ^ 31"
  have "sint (of_nat n :: 32 word) = int n"
    using n by (simp add: signed_of_nat signed_take_bit_int_eq_self)
  then show ?thesis using n by (simp add: as_usize_def nat_mod_distrib)
qed

lemma not_minus_one: "n < 2 ^ 31 \<Longrightarrow> (of_nat n :: 32 word) \<noteq> - 1"
proof
  assume n: "n < 2 ^ 31" and eq: "(of_nat n :: 32 word) = - 1"
  have "as_usize (- 1) = 18446744073709551615" by (simp add: as_usize_def)
  with n eq as_usize_of_nat [OF n] show False by simp
qed

section \<open>Decoding one message\<close>

lemma decode_append:
  assumes "decode_frontend_message lossy a \<noteq> Some (Ok None)"
  shows "decode_frontend_message lossy (a @ b) = decode_frontend_message lossy a"
proof -
  have len: "5 \<le> length a"
    by (rule ccontr) (use assms in \<open>simp add: decode_frontend_message_def\<close>)
  let ?len = "as_usize (i32_from_be_bytes (a ! 1) (a ! 2) (a ! 3) (a ! 4))"
  have n: "(a @ b) ! 0 = a ! 0" "(a @ b) ! 1 = a ! 1" "(a @ b) ! 2 = a ! 2" "(a @ b) ! 3 = a ! 3" "(a @ b) ! 4 = a ! 4"
    using len by (auto simp: nth_append)
  show ?thesis
  proof (cases "?len < 4")
    case True
    with len n show ?thesis by (simp add: decode_frontend_message_def Let_def)
  next
    case False
    with assms len have "\<not> length a < (1 + ?len) mod 2 ^ 64"
      by (auto simp: decode_frontend_message_def Let_def)
    then have t: "(1 + ?len) mod 2 ^ 64 \<le> length a" "take ((1 + ?len) mod 2 ^ 64) (a @ b) = take ((1 + ?len) mod 2 ^ 64) a"
      by simp_all
    then show ?thesis using False len n by (simp add: decode_frontend_message_def Let_def)
  qed
qed

lemma decode_frame:
  assumes "length payload + 5 < 2 ^ 31"
  shows "decode_frontend_message lossy (frame tag payload @ rest) =
    Some (Ok (Some (message_of lossy tag payload, length payload + 5)))"
proof -
  obtain a b c d where bytes: "put_i32 (of_nat (length payload + 4)) = [a, b, c, d]"
    "i32_from_be_bytes a b c d = of_nat (length payload + 4)"
    using i32_bytes by blast
  have "as_usize (of_nat (length payload + 4)) = length payload + 4" using assms by (intro as_usize_of_nat) simp
  moreover have "(1 + (length payload + 4)) mod 2 ^ 64 = length payload + 5" using assms by simp
  moreover have "drop 5 (take (length payload + 5) (tag # a # b # c # d # payload @ rest)) = payload"
    by (simp add: drop_take eval_nat_numeral)
  ultimately show ?thesis
    using bytes by (simp add: decode_frontend_message_def frame_def Let_def del: of_nat_add)
qed

lemma length_frame [simp]: "length (frame tag payload) = length payload + 5"
  by (simp add: frame_def)

lemma decode_frontend_bytes:
  assumes "sendable lossy m"
  shows "decode_frontend_message lossy (frontend_bytes m @ rest) = Some (Ok (Some (m, length (frontend_bytes m))))"
  using assms by (cases m) (auto simp: decode_frame put_cstr_def message_of_def)

lemma pump_frontend_bytes:
  assumes "list_all (sendable lossy) ms"
  shows "pump lossy (concat (map frontend_bytes ms)) = (ms, Waiting [])"
  using assms
proof (induction ms)
  case Nil
  show ?case by (simp add: pump.simps [of lossy "[]"] decode_frontend_message_def)
next
  case (Cons m ms)
  then have "m \<noteq> Terminate" by auto
  with Cons decode_frontend_bytes [of lossy m "concat (map frontend_bytes ms)"] show ?case
    by (simp add: pump.simps [of lossy "frontend_bytes m @ concat (map frontend_bytes ms)"])
qed

section \<open>Chunks\<close>

lemma pump_append:
  "pump lossy (a @ b) =
     (case pump lossy a of
        (ms, Waiting r) \<Rightarrow> (let (ms', st) = pump lossy (r @ b) in (ms @ ms', st))
      | (ms, st) \<Rightarrow> (ms, st))"
proof (induction lossy a rule: pump.induct)
  case (1 lossy a)
  show ?case
  proof (cases "decode_frontend_message lossy a = Some (Ok None)")
    case True
    then show ?thesis by (simp add: pump.simps [of lossy a])
  next
    case False
    note app = decode_append [OF False, of b]
    show ?thesis
    proof (cases "decode_frontend_message lossy a")
      case None
      then show ?thesis by (simp add: pump.simps [of lossy a] pump.simps [of lossy "a @ b"] app)
    next
      case (Some r)
      show ?thesis
      proof (cases r)
        case (Inl e)
        with Some show ?thesis by (simp add: pump.simps [of lossy a] pump.simps [of lossy "a @ b"] app)
      next
        case (Inr s)
        with False Some obtain m k where s: "s = Some (m, k)" by (cases s) auto
        then have k: "k \<le> length a" using Some Inr decode_consumes by blast
        show ?thesis
        proof (cases "m = Terminate")
          case True
          with Some Inr s show ?thesis by (simp add: pump.simps [of lossy a] pump.simps [of lossy "a @ b"] app)
        next
          case False
          from 1 [OF Some Inr s refl False] k Some Inr s False show ?thesis
            by (simp add: pump.simps [of lossy a] pump.simps [of lossy "a @ b"] app Let_def split: prod.splits pump_state.splits)
        qed
      qed
    qed
  qed
qed

lemma pump_waiting: "pump lossy buf = (ms, Waiting r) \<Longrightarrow> pump lossy r = ([], Waiting r)"
proof (induction lossy buf arbitrary: ms rule: pump.induct)
  case (1 lossy buf)
  show ?case
  proof (cases "decode_frontend_message lossy buf = Some (Ok None)")
    case True
    with "1.prems" show ?thesis by (auto simp: pump.simps [of lossy buf] pump.simps [of lossy r])
  next
    case False
    with "1.prems" obtain m k ms' where d: "decode_frontend_message lossy buf = Some (Ok (Some (m, k)))" "m \<noteq> Terminate"
      "pump lossy (drop k buf) = (ms', Waiting r)"
      by (auto simp: pump.simps [of lossy buf] Let_def split: option.splits sum.splits if_splits prod.splits)
    show ?thesis by (rule "1.IH" [OF d(1) refl refl refl d(2,3)])
  qed
qed

lemma receive_pump:
  "receive lossy (Waiting r) chunks = (if chunks = [] then ([], Waiting r) else pump lossy (r @ concat chunks))"
proof (induction chunks arbitrary: r)
  case (Cons c chunks)
  obtain ms st where p: "pump lossy (r @ c) = (ms, st)" by (cases "pump lossy (r @ c)")
  show ?case
  proof (cases st)
    case (Waiting r')
    have "receive lossy (Waiting r) (c # chunks) =
        (let (ms', st') = receive lossy (Waiting r') chunks in (ms @ ms', st'))"
      using p Waiting by (simp add: Let_def)
    also have "receive lossy (Waiting r') chunks = pump lossy (r' @ concat chunks)"
      using Cons.IH [of r'] pump_waiting p Waiting by (cases "chunks = []") simp_all
    also have "(let (ms', st') = pump lossy (r' @ concat chunks) in (ms @ ms', st')) = pump lossy ((r @ c) @ concat chunks)"
      unfolding pump_append [of lossy "r @ c"] using p Waiting by simp
    finally show ?thesis by simp
  qed (use p pump_append [of lossy "r @ c" "concat chunks"] in \<open>cases chunks; simp\<close>)+
qed simp

section \<open>Startup packets\<close>

lemma take_cstr_put: "nul \<notin> set s \<Longrightarrow> take_cstr (put_cstr s @ rest) = Some (s, rest)"
  by (simp add: take_cstr_def put_cstr_def)

lemma startup_params_put:
  assumes "list_all (\<lambda>(k, v). k \<noteq> [] \<and> nul \<notin> set k \<and> nul \<notin> set v \<and> lossy k = k \<and> lossy v = v) params" "lossy [] = []"
  shows "startup_params lossy (concat (map (\<lambda>(k, v). put_cstr k @ put_cstr v) params) @ [nul]) = Ok params"
  using assms(1)
proof (induction params)
  case Nil
  have "take_cstr [nul] = Some ([], [])" by (simp add: take_cstr_def)
  then show ?case using assms(2) by (simp add: startup_params.simps [of lossy "[nul]"])
next
  case (Cons p params)
  obtain k v where p: "p = (k, v)" by (cases p)
  let ?rest = "concat (map (\<lambda>(k, v). put_cstr k @ put_cstr v) params) @ [nul]"
  have "k \<noteq> []" "nul \<notin> set k" "nul \<notin> set v" "lossy k = k" "lossy v = v" using Cons.prems p by auto
  with Cons show ?case
    by (simp add: p startup_params.simps [of lossy "put_cstr k @ put_cstr v @ ?rest"] take_cstr_put)
qed

section \<open>Data rows\<close>

lemma read_cells_encode:
  assumes "list_all (\<lambda>cell. case cell of Some s \<Rightarrow> length s < 2 ^ 31 | None \<Rightarrow> True) cells"
  shows "read_cells (length cells) (concat (map encode_cell cells)) = Some cells"
  using assms
proof (induction cells)
  case (Cons cell cells)
  show ?case
  proof (cases cell)
    case None
    obtain a b c d where "put_i32 (- 1) = [a, b, c, d]" "i32_from_be_bytes a b c d = - 1" using i32_bytes by blast
    with None Cons show ?thesis by (simp add: encode_cell_def Let_def)
  next
    case (Some s)
    then have s: "length s < 2 ^ 31" using Cons.prems by simp
    obtain a b c d where "put_i32 (of_nat (length s)) = [a, b, c, d]" "i32_from_be_bytes a b c d = of_nat (length s)"
      using i32_bytes by blast
    with Some Cons as_usize_of_nat [OF s] not_minus_one [OF s] show ?thesis by (simp add: encode_cell_def Let_def)
  qed
qed simp

lemma i16_count:
  assumes "n < 2 ^ 16"
  shows "\<exists>h l. put_i16 (of_nat n) = [h, l] \<and> of_char h * 256 + of_char l = n"
proof -
  have u: "unat (of_nat n :: 16 word) = n" using assms by (simp add: unsigned_of_nat take_bit_eq_mod)
  have "n div 256 < 256" using assms by (simp add: div_less_iff_less_mult)
  then have "of_char (char_of (n div 256)) * 256 + of_char (char_of (n mod 256)) = n" by (simp add: of_char_of)
  then show ?thesis unfolding put_i16_def Let_def u by auto
qed

section \<open>Properties\<close>



text \<open>
  Startup packets are read back: the packet with a protocol version and parameters decodes to that
  version and these parameters in order, whatever bytes follow, and every shorter prefix of it is
  reported as incomplete rather than as an error or a wrong message.
\<close>

theorem pg_startup_roundtrip:
  assumes "list_all (\<lambda>(k, v). k \<noteq> [] \<and> nul \<notin> set k \<and> nul \<notin> set v \<and> lossy k = k \<and> lossy v = v) params" "lossy [] = []"
    "version \<noteq> ssl_request_code" "length (startup_bytes version params) < 2 ^ 31"
  shows "decode_startup lossy (startup_bytes version params @ rest) =
      Ok (Startup \<lparr>sm_protocol_version = version, sm_parameters = params\<rparr>) \<and>
    (\<forall>n < length (startup_bytes version params). decode_startup lossy (take n (startup_bytes version params)) = Ok Incomplete)"
proof -
  define ps where "ps = concat (map (\<lambda>(k, v). put_cstr k @ put_cstr v) params) @ [nul]"
  obtain a b c d where v: "put_i32 version = [a, b, c, d]" "i32_from_be_bytes a b c d = version" using i32_bytes by blast
  obtain e f g h where l: "put_i32 (of_nat (8 + length ps)) = [e, f, g, h]"
    "i32_from_be_bytes e f g h = of_nat (8 + length ps)"
    using i32_bytes by blast
  have bytes: "startup_bytes version params = [e, f, g, h, a, b, c, d] @ ps"
    using v(1) l(1) by (simp add: startup_bytes_def Let_def ps_def [symmetric] del: of_nat_add)
  have usize: "as_usize (of_nat (8 + length ps)) = 8 + length ps" using assms(4) bytes by (intro as_usize_of_nat) simp
  have cut: "drop 8 (take (8 + length ps) ([e, f, g, h, a, b, c, d] @ ps @ rest)) = ps"
    by (simp add: drop_take eval_nat_numeral)
  have "decode_startup lossy (startup_bytes version params @ rest) =
      Ok (Startup \<lparr>sm_protocol_version = version, sm_parameters = params\<rparr>)"
    using usize l(2) v(2) assms(3) startup_params_put [OF assms(1,2)] cut
    by (simp add: bytes decode_startup_def Let_def ps_def [symmetric] del: of_nat_add)
  moreover have "decode_startup lossy (take n (startup_bytes version params)) = Ok Incomplete"
    if n: "n < length (startup_bytes version params)" for n
  proof (cases "n < 4")
    case True
    then show ?thesis using n by (simp add: decode_startup_def)
  next
    case False
    then have "take n (startup_bytes version params) ! 0 = e" "take n (startup_bytes version params) ! 1 = f"
      "take n (startup_bytes version params) ! 2 = g" "take n (startup_bytes version params) ! 3 = h"
      by (simp_all add: bytes eval_nat_numeral)
    with False n usize l(2) bytes show ?thesis by (simp add: decode_startup_def Let_def del: of_nat_add)
  qed
  ultimately show ?thesis by blast
qed

theorem pg_startup_roundtrip_witness:
  "decode_startup id (startup_bytes protocol_version_3 [(''user'', ''app''), (''database'', ''sales'')]) =
     Ok (Startup \<lparr>sm_protocol_version = protocol_version_3, sm_parameters = [(''user'', ''app''), (''database'', ''sales'')]\<rparr>)"
proof -
  have "length (startup_bytes protocol_version_3 [(''user'', ''app''), (''database'', ''sales'')]) < 2 ^ 31"
    by (simp add: startup_bytes_def Let_def put_cstr_def)
  with pg_startup_roundtrip [of id "[(''user'', ''app''), (''database'', ''sales'')]" protocol_version_3 "[]"]
  show ?thesis by (simp add: protocol_version_3_def ssl_request_code_def)
qed

text \<open>
  Data rows survive the wire. A reader of the protocol gets from an encoded row exactly the cells
  that were written, null cells and empty texts kept apart, for up to 32767 columns and any contents.
\<close>

theorem pg_data_row_roundtrip:
  assumes "length cells < 2 ^ 15" "length (encode_data_row cells) < 2 ^ 31"
    "list_all (\<lambda>cell. case cell of Some s \<Rightarrow> length s < 2 ^ 31 | None \<Rightarrow> True) cells"
  shows "read_data_row (encode_data_row cells) = Some cells"
proof -
  define body where "body = concat (map encode_cell cells)"
  obtain x y where c: "put_i16 (of_nat (length cells)) = [x, y]" "of_char x * 256 + of_char y = length cells"
    using i16_count [of "length cells"] assms(1) by auto
  obtain a b c' d where l: "put_i32 (of_nat (6 + length body)) = [a, b, c', d]"
    "i32_from_be_bytes a b c' d = of_nat (6 + length body)"
    using i32_bytes by blast
  have row: "encode_data_row cells = CHR ''D'' # a # b # c' # d # x # y # body"
    using c(1) l(1) by (simp add: encode_data_row_def frame_def body_def [symmetric] del: of_nat_add)
  have "as_usize (of_nat (6 + length body)) = 6 + length body"
    using assms(2) row by (intro as_usize_of_nat) simp
  then show ?thesis
    using row l(2) c(2) read_cells_encode [OF assms(3)] by (simp add: body_def [symmetric] del: of_nat_add)
qed

theorem pg_data_row_roundtrip_witness:
  "read_data_row (encode_data_row [Some ''1'', None, Some [], Some [nul, CHR ''x'']]) =
     Some [Some ''1'', None, Some [], Some [nul, CHR ''x'']]"
proof -
  have "length (encode_data_row [Some ''1'', None, Some [], Some [nul, CHR ''x'']]) < 2 ^ 31"
    by (simp add: encode_data_row_def frame_def encode_cell_def put_i16_def Let_def)
  then show ?thesis by (intro pg_data_row_roundtrip) simp_all
qed

text \<open>
  A message length of minus one crashes the connection handler. The length is cast to an unsigned
  size and one is added, which gives zero; the check that enough bytes have arrived passes and the body
  slice ends before it starts. Five bytes from a client that has not logged in are enough.
\<close>

theorem pg_negative_length_panics:
  "decode_frontend_message lossy (tag # put_i32 (- 1) @ rest) = None"
proof -
  obtain a b c d where "put_i32 (- 1) = [a, b, c, d]" "i32_from_be_bytes a b c d = - 1" using i32_bytes by blast
  moreover have "as_usize (- 1) = 18446744073709551615" by (simp add: as_usize_def)
  ultimately show ?thesis by (simp add: decode_frontend_message_def Let_def)
qed


end
