(* ===== verification/Htap_Sync.thy ===== *)
theory Htap_Sync
  imports Vng_Text
begin

text \<open>
  Replication of row mutations to analytical replicas: \<^verbatim>\<open>crates/voltnuerongrid-store/src/htap_sync.rs\<close>,
  the force-sync handler of \<^verbatim>\<open>services/voltnuerongridd/src/handlers/store.rs\<close> and the failover handoff of
  \<^verbatim>\<open>helpers/cluster.rs\<close>.

  The origin numbers the mutations of the row store from 1 and keeps those that were not acknowledged.
  A replica accepts a batch only when it continues its own sequence without gap, repetition og
  reordering. The locale \<open>mutation_feed\<close> is what a replica relies on: the feed cuts a stretch out of one
  numbered history. The origin and the in-memory transport are its interpretations. The analytical
  store is brought up to date by a handler in three critical sections (export, apply, acknowledge);
  other requests may append between them, which the step relation \<open>sync_step\<close> describes.

  Times and the decoder of JSON payloads are arguments; sequence numbers are natural numbers.
\<close>

section \<open>Mutations and reports\<close>

datatype mutation_op = Insert | Update | Delete

record row_mutation =
  rm_sequence :: nat
  rm_table :: string
  rm_primary_key :: string
  rm_payload_json :: string
  rm_op :: mutation_op

record sync_origin_checkpoint =
  cp_last_sequence :: nat
  cp_pending_count :: nat

record sync_origin_snapshot =
  sn_next_sequence :: nat
  sn_last_acknowledged_sequence :: nat
  sn_pending :: "row_mutation list"

record sequence_gap =
  gap_expected :: nat
  gap_actual :: nat

record out_of_order_sequence =
  ooo_previous :: nat
  ooo_current :: nat

record replica_replay_state =
  rr_node_id :: string
  rr_last_applied_sequence :: nat
  rr_applied :: "row_mutation list"

record replica_replay_report =
  rp_applied_count :: nat
  rp_last_applied_sequence :: nat
  rp_gaps :: "sequence_gap list"
  rp_duplicates :: "nat list"
  rp_out_of_order :: "out_of_order_sequence list"

section \<open>The in-memory transport\<close>

record replication_transport_event =
  ev_transport_sequence :: nat
  ev_source_node_id :: string
  ev_target_node_id :: string
  ev_transport :: string
  ev_mutation :: row_mutation

record replication_transport =
  tr_next_transport_sequence :: nat
  tr_next_mutation_sequence :: nat
  tr_events :: "replication_transport_event list"

definition transport_new :: replication_transport where
  "transport_new = \<lparr>tr_next_transport_sequence = 1, tr_next_mutation_sequence = 1, tr_events = []\<rparr>"

definition publish ::
  "string \<Rightarrow> string \<Rightarrow> string \<Rightarrow> string \<Rightarrow> string \<Rightarrow> string \<Rightarrow> mutation_op \<Rightarrow> replication_transport \<Rightarrow>
   replication_transport_event \<times> replication_transport" where
  "publish source_node target_node transport table primary_key payload_json op tr =
     (let event = \<lparr>ev_transport_sequence = tr_next_transport_sequence tr, ev_source_node_id = source_node,
                   ev_target_node_id = target_node, ev_transport = transport,
                   ev_mutation = \<lparr>rm_sequence = tr_next_mutation_sequence tr, rm_table = table,
                                  rm_primary_key = primary_key, rm_payload_json = payload_json, rm_op = op\<rparr>\<rparr>
      in (event, tr\<lparr>tr_next_transport_sequence := tr_next_transport_sequence tr + 1,
                    tr_next_mutation_sequence := tr_next_mutation_sequence tr + 1,
                    tr_events := tr_events tr @ [event]\<rparr>))"

definition for_target :: "string \<Rightarrow> replication_transport_event \<Rightarrow> bool" where
  "for_target target e = (ev_target_node_id e = target \<or> ev_target_node_id e = ''*'')"

definition export_for_target_since ::
  "replication_transport \<Rightarrow> string \<Rightarrow> nat \<Rightarrow> nat \<Rightarrow> row_mutation list" where
  "export_for_target_since tr target last_sequence max_items =
     map ev_mutation (take max_items
       (filter (\<lambda>e. for_target target e \<and> rm_sequence (ev_mutation e) > last_sequence) (tr_events tr)))"

definition pending_for_target :: "replication_transport \<Rightarrow> string \<Rightarrow> nat" where
  "pending_for_target tr target = length (filter (for_target target) (tr_events tr))"

section \<open>The sync origin\<close>

record sync_origin =
  or_next_sequence :: nat
  or_last_acknowledged_sequence :: nat
  or_pending :: "row_mutation list"
  or_last_mutation_epoch_ms :: nat

definition origin_new :: sync_origin where
  "origin_new = \<lparr>or_next_sequence = 1, or_last_acknowledged_sequence = 0, or_pending = [],
                 or_last_mutation_epoch_ms = 0\<rparr>"

definition origin_append ::
  "nat \<Rightarrow> string \<Rightarrow> string \<Rightarrow> string \<Rightarrow> mutation_op \<Rightarrow> sync_origin \<Rightarrow> row_mutation \<times> sync_origin" where
  "origin_append now_ms table primary_key payload_json op og =
     (let m = \<lparr>rm_sequence = or_next_sequence og, rm_table = table, rm_primary_key = primary_key,
               rm_payload_json = payload_json, rm_op = op\<rparr>
      in (m, og\<lparr>or_next_sequence := or_next_sequence og + 1, or_last_mutation_epoch_ms := now_ms,
                or_pending := or_pending og @ [m]\<rparr>))"

definition export_batch :: "sync_origin \<Rightarrow> nat \<Rightarrow> row_mutation list" where
  "export_batch og max_items = take max_items (or_pending og)"

definition export_since :: "sync_origin \<Rightarrow> nat \<Rightarrow> nat \<Rightarrow> row_mutation list" where
  "export_since og last_sequence max_items =
     take max_items (filter (\<lambda>m. rm_sequence m > last_sequence) (or_pending og))"

definition ack_through :: "nat \<Rightarrow> sync_origin \<Rightarrow> sync_origin" where
  "ack_through sequence og =
     og\<lparr>or_last_acknowledged_sequence := max (or_last_acknowledged_sequence og) sequence,
        or_pending := filter (\<lambda>m. rm_sequence m > sequence) (or_pending og)\<rparr>"

definition origin_checkpoint :: "sync_origin \<Rightarrow> sync_origin_checkpoint" where
  "origin_checkpoint og = \<lparr>cp_last_sequence = or_last_acknowledged_sequence og,
                           cp_pending_count = length (or_pending og)\<rparr>"

definition origin_snapshot :: "sync_origin \<Rightarrow> sync_origin_snapshot" where
  "origin_snapshot og =
     \<lparr>sn_next_sequence = or_next_sequence og,
      sn_last_acknowledged_sequence = or_last_acknowledged_sequence og, sn_pending = or_pending og\<rparr>"

definition origin_restore :: "sync_origin_snapshot \<Rightarrow> sync_origin" where
  "origin_restore sn =
     \<lparr>or_next_sequence = sn_next_sequence sn,
      or_last_acknowledged_sequence = sn_last_acknowledged_sequence sn, or_pending = sn_pending sn,
      or_last_mutation_epoch_ms = 0\<rparr>"

definition remove_sequence_for_fault_injection :: "nat \<Rightarrow> sync_origin \<Rightarrow> bool \<times> sync_origin" where
  "remove_sequence_for_fault_injection sequence og =
     (let kept = filter (\<lambda>m. rm_sequence m \<noteq> sequence) (or_pending og)
      in (length (or_pending og) \<noteq> length kept, og\<lparr>or_pending := kept\<rparr>))"

fun scan_gaps :: "nat \<Rightarrow> row_mutation list \<Rightarrow> sequence_gap list" where
  "scan_gaps expected [] = []"
| "scan_gaps expected (m # ms) =
     (if rm_sequence m \<noteq> expected
      then \<lparr>gap_expected = expected, gap_actual = rm_sequence m\<rparr> # scan_gaps (rm_sequence m + 1) ms
      else scan_gaps (expected + 1) ms)"

definition detect_sequence_gaps :: "row_mutation list \<Rightarrow> sequence_gap list" where
  "detect_sequence_gaps batch =
     (case sort_key rm_sequence batch of
        [] \<Rightarrow> []
      | m # ms \<Rightarrow> scan_gaps (rm_sequence m) (m # ms))"

fun scan_duplicates :: "nat list \<Rightarrow> row_mutation list \<Rightarrow> nat list" where
  "scan_duplicates seen [] = []"
| "scan_duplicates seen (m # ms) =
     (if rm_sequence m \<in> set seen then rm_sequence m # scan_duplicates seen ms
      else scan_duplicates (rm_sequence m # seen) ms)"

definition detect_duplicate_sequences :: "row_mutation list \<Rightarrow> nat list" where
  "detect_duplicate_sequences batch = scan_duplicates [] batch"

fun detect_out_of_order :: "row_mutation list \<Rightarrow> out_of_order_sequence list" where
  "detect_out_of_order (a # b # ms) =
     (if rm_sequence b \<le> rm_sequence a
      then [\<lparr>ooo_previous = rm_sequence a, ooo_current = rm_sequence b\<rparr>] else [])
     @ detect_out_of_order (b # ms)"
| "detect_out_of_order _ = []"

section \<open>Replicas\<close>

definition replica_new :: "string \<Rightarrow> replica_replay_state" where
  "replica_new node_id = \<lparr>rr_node_id = node_id, rr_last_applied_sequence = 0, rr_applied = []\<rparr>"

definition apply_batch ::
  "row_mutation list \<Rightarrow> replica_replay_state \<Rightarrow> replica_replay_report \<times> replica_replay_state" where
  "apply_batch batch rr =
     (let expected = rr_last_applied_sequence rr + 1;
          head_gap = (case batch of
              [] \<Rightarrow> []
            | m # _ \<Rightarrow> if rm_sequence m \<noteq> expected
                       then [\<lparr>gap_expected = expected, gap_actual = rm_sequence m\<rparr>] else []);
          gaps = head_gap @ detect_sequence_gaps batch;
          duplicates = detect_duplicate_sequences batch;
          out_of_order = detect_out_of_order batch;
          (applied_count, rr') =
            (if gaps = [] \<and> duplicates = [] \<and> out_of_order = []
             then (length batch,
                   rr\<lparr>rr_applied := rr_applied rr @ batch,
                      rr_last_applied_sequence :=
                        (if batch = [] then rr_last_applied_sequence rr else rm_sequence (last batch))\<rparr>)
             else (0, rr))
      in (\<lparr>rp_applied_count = applied_count, rp_last_applied_sequence = rr_last_applied_sequence rr',
           rp_gaps = gaps, rp_duplicates = duplicates, rp_out_of_order = out_of_order\<rparr>, rr'))"

definition build_failover_handoff_batch ::
  "replica_replay_state \<Rightarrow> sync_origin \<Rightarrow> nat \<Rightarrow> row_mutation list" where
  "build_failover_handoff_batch rr og max_items = export_since og (rr_last_applied_sequence rr) max_items"

section \<open>The pull transport\<close>

record piggyback_transport =
  pt_node_id :: string
  pt_leader_sync_url :: "string option"
  pt_last_applied_sequence :: nat
  pt_cluster_token :: "string option"

definition piggyback_new :: "string \<Rightarrow> string option \<Rightarrow> string option \<Rightarrow> piggyback_transport" where
  "piggyback_new node_id url token =
     \<lparr>pt_node_id = node_id, pt_leader_sync_url = url, pt_last_applied_sequence = 0, pt_cluster_token = token\<rparr>"

definition pull_from_origin ::
  "sync_origin \<Rightarrow> nat \<Rightarrow> piggyback_transport \<Rightarrow> row_mutation list \<times> piggyback_transport" where
  "pull_from_origin og max_items pt =
     (let batch = export_since og (pt_last_applied_sequence pt) max_items
      in (batch, if batch = [] then pt else pt\<lparr>pt_last_applied_sequence := rm_sequence (last batch)\<rparr>))"

definition piggyback_apply_batch :: "row_mutation list \<Rightarrow> piggyback_transport \<Rightarrow> piggyback_transport" where
  "piggyback_apply_batch batch pt =
     (if batch = [] then pt
      else pt\<lparr>pt_last_applied_sequence := max (pt_last_applied_sequence pt) (rm_sequence (last batch))\<rparr>)"

definition build_pull_url :: "piggyback_transport \<Rightarrow> string option" where
  "build_pull_url pt =
     map_option (\<lambda>base. base @ ''?since='' @ show_nat (pt_last_applied_sequence pt)
                        @ ''&node_id='' @ pt_node_id pt) (pt_leader_sync_url pt)"

section \<open>Mutations between nodes\<close>

record replicated_mutation =
  pm_sequence :: nat
  pm_table :: string
  pm_primary_key :: string
  pm_payload_json :: string
  pm_op :: string

definition op_enum :: "replicated_mutation \<Rightarrow> mutation_op" where
  "op_enum m = (if pm_op m = ''delete'' then Delete else if pm_op m = ''update'' then Update else Insert)"

fun op_str :: "mutation_op \<Rightarrow> string" where
  "op_str Insert = ''insert''"
| "op_str Update = ''update''"
| "op_str Delete = ''delete''"

definition replicated :: "row_mutation \<Rightarrow> replicated_mutation" where
  "replicated m = \<lparr>pm_sequence = rm_sequence m, pm_table = rm_table m, pm_primary_key = rm_primary_key m,
                   pm_payload_json = rm_payload_json m, pm_op = op_str (rm_op m)\<rparr>"

text \<open>
  The analytical store by primary key. A payload that is not a JSON object of strings is kept whole
  under the column \<^verbatim>\<open>payload\<close>.
\<close>

type_synonym olap_row = "string \<rightharpoonup> string"
type_synonym olap_store = "(string \<times> olap_row) list"
type_synonym payload_decoder = "string \<Rightarrow> olap_row option"

definition payload_row :: "payload_decoder \<Rightarrow> string \<Rightarrow> olap_row" where
  "payload_row dec json = (case dec json of Some d \<Rightarrow> d | None \<Rightarrow> [''payload'' \<mapsto> json])"

definition apply_op :: "payload_decoder \<Rightarrow> mutation_op \<Rightarrow> string \<Rightarrow> string \<Rightarrow> olap_store \<Rightarrow> olap_store" where
  "apply_op dec op primary_key json olap =
     (case op of
        Delete \<Rightarrow> AList.delete primary_key olap
      | _ \<Rightarrow> AList.update primary_key (payload_row dec json) olap)"

definition apply_htap_mutations_to_olap ::
  "payload_decoder \<Rightarrow> replicated_mutation list \<Rightarrow> olap_store \<Rightarrow> (nat \<times> nat) \<times> olap_store" where
  "apply_htap_mutations_to_olap dec ms olap =
     fold (\<lambda>m ((applied, last_seq), olap).
             ((applied + 1, max last_seq (pm_sequence m)),
              apply_op dec (op_enum m) (pm_primary_key m) (pm_payload_json m) olap))
       ms ((0, 0), olap)"

text \<open>The request handler for pushed batches skips mutations with an unknown operation.\<close>

definition store_htap_apply ::
  "payload_decoder \<Rightarrow> replicated_mutation list \<Rightarrow> olap_store \<Rightarrow> (nat \<times> nat) \<times> olap_store" where
  "store_htap_apply dec ms olap =
     fold (\<lambda>m ((applied, last_seq), olap).
             let last_seq = max last_seq (pm_sequence m)
             in if pm_op m = ''insert'' \<or> pm_op m = ''update''
                then ((applied + 1, last_seq),
                      AList.update (pm_primary_key m) (payload_row dec (pm_payload_json m)) olap)
                else if pm_op m = ''delete''
                then ((applied + 1, last_seq), AList.delete (pm_primary_key m) olap)
                else ((applied, last_seq), olap))
       ms ((0, 0), olap)"

type_synonym peer_cursors = "string \<rightharpoonup> nat"

definition htap_batch_for_peer ::
  "peer_cursors \<Rightarrow> sync_origin \<Rightarrow> string \<Rightarrow> nat \<Rightarrow> replicated_mutation list \<times> nat" where
  "htap_batch_for_peer cursors og peer max_items =
     (let cursor = (case cursors peer of Some c \<Rightarrow> c | None \<Rightarrow> 0);
          batch = map replicated (export_since og cursor max_items)
      in (batch, if batch = [] then cursor else pm_sequence (last batch)))"

definition advance_htap_peer_cursor :: "string \<Rightarrow> nat \<Rightarrow> peer_cursors \<Rightarrow> peer_cursors" where
  "advance_htap_peer_cursor peer last_seq cursors =
     (if last_seq = 0 then cursors
      else let entry = (case cursors peer of Some c \<Rightarrow> c | None \<Rightarrow> 0)
           in cursors(peer \<mapsto> (if last_seq > entry then last_seq else entry)))"

definition cross_node_htap_lag_ms :: "nat \<Rightarrow> sync_origin \<Rightarrow> nat option" where
  "cross_node_htap_lag_ms now_ms og =
     (if or_last_mutation_epoch_ms og = 0 then None else Some (now_ms - or_last_mutation_epoch_ms og))"

section \<open>Force sync\<close>

text \<open>The handler in its three critical sections, and run without interruption.\<close>

definition usize_max :: nat where
  "usize_max = 2 ^ 64 - 1"

definition force_sync_export :: "sync_origin \<Rightarrow> row_mutation list" where
  "force_sync_export og = export_batch og usize_max"

definition force_sync_apply ::
  "payload_decoder \<Rightarrow> row_mutation list \<Rightarrow> olap_store \<Rightarrow> (nat \<times> nat) \<times> olap_store" where
  "force_sync_apply dec batch olap =
     fold (\<lambda>m ((applied, last_seq), olap).
             ((applied + 1, max last_seq (rm_sequence m)),
              apply_op dec (rm_op m) (rm_primary_key m) (rm_payload_json m) olap))
       batch ((0, 0), olap)"

definition force_sync_ack :: "nat \<Rightarrow> sync_origin \<Rightarrow> sync_origin" where
  "force_sync_ack last_seq og = (if last_seq > 0 then ack_through last_seq og else og)"

definition htap_force_sync ::
  "payload_decoder \<Rightarrow> sync_origin \<times> olap_store \<Rightarrow> (nat \<times> nat) \<times> sync_origin \<times> olap_store" where
  "htap_force_sync dec st =
     (case st of (og, olap) \<Rightarrow>
        (case force_sync_apply dec (force_sync_export og) olap of ((applied, last_seq), olap') \<Rightarrow>
           ((applied, length olap'), force_sync_ack last_seq og, olap')))"

section \<open>Pull requests\<close>

text \<open>
  \<open>htap_pull_authorized\<close> is the guard of the pull endpoint: the configured cluster token and admin key,
  and the bearer token and admin key the request carries.
\<close>

definition htap_pull_authorized ::
  "string option \<Rightarrow> string option \<Rightarrow> string option \<Rightarrow> string option \<Rightarrow> bool" where
  "htap_pull_authorized cluster_token admin_api_key authorization admin_header =
     (let cluster_token_ok = (case cluster_token of
              None \<Rightarrow> True
            | Some expected \<Rightarrow>
                expected = [] \<or>
                (case Option.bind authorization (strip_prefix ''Bearer '') of
                   Some t \<Rightarrow> t = expected | None \<Rightarrow> False));
          admin_key_ok = (case admin_api_key of
              None \<Rightarrow> True
            | Some expected \<Rightarrow> (case admin_header of Some k \<Rightarrow> k = expected | None \<Rightarrow> False))
      in cluster_token_ok \<or> admin_key_ok)"

record htap_pull_response =
  pl_since :: nat
  pl_mutations :: "replicated_mutation list"
  pl_count :: nat
  pl_last_sequence :: nat
  pl_freshness_lag_ms :: "nat option"

definition htap_pull_sync ::
  "bool \<Rightarrow> nat \<Rightarrow> nat option \<Rightarrow> nat option \<Rightarrow> sync_origin \<Rightarrow> (htap_pull_response, string) result" where
  "htap_pull_sync authorized now_ms since_param max_param og =
     (if \<not> authorized then Err ''missing_credentials''
      else
        let since = (case since_param of Some n \<Rightarrow> n | None \<Rightarrow> 0);
            max_items = min (case max_param of Some n \<Rightarrow> n | None \<Rightarrow> 1000) 10000;
            batch = export_since og since max_items;
            lag = (if or_last_mutation_epoch_ms og > 0
                   then Some (now_ms - or_last_mutation_epoch_ms og) else None)
        in Ok \<lparr>pl_since = since, pl_mutations = map replicated batch, pl_count = length batch,
               pl_last_sequence = (if batch = [] then since else rm_sequence (last batch)),
               pl_freshness_lag_ms = lag\<rparr>)"

section \<open>Failover handoff\<close>

record handoff_cluster =
  hc_replicas :: "string \<rightharpoonup> replica_replay_state"
  hc_transport :: replication_transport
  hc_origin :: sync_origin

record handoff_report =
  ho_state :: string
  ho_before :: nat
  ho_after :: nat
  ho_batch_size :: nat
  ho_applied_count :: nat
  ho_gaps :: "sequence_gap list"

definition build_failover_handoff_report ::
  "string \<Rightarrow> handoff_cluster \<Rightarrow> handoff_report \<times> handoff_cluster" where
  "build_failover_handoff_report target hc =
     (let replica = (case hc_replicas hc target of Some r \<Rightarrow> r | None \<Rightarrow> replica_new target);
          before = rr_last_applied_sequence replica;
          from_transport = export_for_target_since (hc_transport hc) target before 64;
          batch = (if from_transport = [] then build_failover_handoff_batch replica (hc_origin hc) 64
                   else from_transport)
      in if batch = []
         then (\<lparr>ho_state = ''no_transport_updates'', ho_before = before, ho_after = before,
                ho_batch_size = 0, ho_applied_count = 0, ho_gaps = []\<rparr>,
               hc\<lparr>hc_replicas := (hc_replicas hc)(target \<mapsto> replica)\<rparr>)
         else (case apply_batch batch replica of (report, replica') \<Rightarrow>
                (\<lparr>ho_state = (if rp_gaps report = [] then ''handoff_applied'' else ''handoff_gap_detected''),
                  ho_before = before, ho_after = rp_last_applied_sequence report,
                  ho_batch_size = length batch, ho_applied_count = rp_applied_count report,
                  ho_gaps = rp_gaps report\<rparr>,
                 hc\<lparr>hc_replicas := (hc_replicas hc)(target \<mapsto> replica')\<rparr>)))"

section \<open>Concurrent synchronisation\<close>

text \<open>
  Requests against one node: appends by committed statements, and the three sections of force-sync
  requests of the workers in \<open>W\<close>. The history is the list of everything that was ever appended.
\<close>

datatype sync_phase = Idle | Exported "row_mutation list" | Applied nat

record sync_state =
  ss_origin :: sync_origin
  ss_olap :: olap_store
  ss_phase :: "nat \<Rightarrow> sync_phase"
  ss_history :: "row_mutation list"

definition sync_init :: sync_state where
  "sync_init = \<lparr>ss_origin = origin_new, ss_olap = [], ss_phase = (\<lambda>_. Idle), ss_history = []\<rparr>"

inductive sync_step :: "payload_decoder \<Rightarrow> nat set \<Rightarrow> sync_state \<Rightarrow> sync_state \<Rightarrow> bool" for dec W where
  step_append:
    "origin_append now table key payload op (ss_origin s) = (m, og) \<Longrightarrow>
     sync_step dec W s (s\<lparr>ss_origin := og, ss_history := ss_history s @ [m]\<rparr>)"
| step_export:
    "w \<in> W \<Longrightarrow> ss_phase s w = Idle \<Longrightarrow>
     sync_step dec W s (s\<lparr>ss_phase := (ss_phase s)(w := Exported (force_sync_export (ss_origin s)))\<rparr>)"
| step_apply:
    "w \<in> W \<Longrightarrow> ss_phase s w = Exported batch \<Longrightarrow>
     force_sync_apply dec batch (ss_olap s) = ((applied, last_seq), olap) \<Longrightarrow>
     sync_step dec W s (s\<lparr>ss_olap := olap, ss_phase := (ss_phase s)(w := Applied last_seq)\<rparr>)"
| step_ack:
    "w \<in> W \<Longrightarrow> ss_phase s w = Applied last_seq \<Longrightarrow>
     sync_step dec W s (s\<lparr>ss_origin := force_sync_ack last_seq (ss_origin s),
                          ss_phase := (ss_phase s)(w := Idle)\<rparr>)"

inductive_cases sync_step_elim: "sync_step dec W s t"

definition olap_replay :: "payload_decoder \<Rightarrow> row_mutation list \<Rightarrow> olap_store" where
  "olap_replay dec ms =
     fold (\<lambda>m. apply_op dec (rm_op m) (rm_primary_key m) (rm_payload_json m)) ms []"

section \<open>Numbered stretches\<close>

text \<open>A stretch of a history that is numbered without gap from \<open>n\<close> on.\<close>

definition numbered :: "nat \<Rightarrow> row_mutation list \<Rightarrow> bool" where
  "numbered n ms \<longleftrightarrow> map rm_sequence ms = [n..<n + length ms]"

lemma numbered_Nil [simp]: "numbered n []"
  by (simp add: numbered_def)

lemma numbered_Cons [simp]: "numbered n (m # ms) \<longleftrightarrow> rm_sequence m = n \<and> numbered (Suc n) ms"
  by (simp add: numbered_def upt_conv_Cons del: upt_Suc)

lemma numbered_append [simp]:
  "numbered n (xs @ ys) \<longleftrightarrow> numbered n xs \<and> numbered (n + length xs) ys"
  by (induction xs arbitrary: n) auto

lemma numbered_take: "numbered n ms \<Longrightarrow> numbered n (take k ms)"
  by (metis append_take_drop_id numbered_append)

lemma numbered_drop: "numbered n ms \<Longrightarrow> k \<le> length ms \<Longrightarrow> numbered (n + k) (drop k ms)"
  by (metis append_take_drop_id length_take min.absorb2 numbered_append)

lemma numbered_last: "numbered n ms \<Longrightarrow> ms \<noteq> [] \<Longrightarrow> rm_sequence (last ms) = n + length ms - 1"
  by (induction ms arbitrary: n) auto

lemma numbered_bound: "numbered n ms \<Longrightarrow> m \<in> set ms \<Longrightarrow> n \<le> rm_sequence m \<and> rm_sequence m < n + length ms"
  by (induction ms arbitrary: n) force+

lemma numbered_filter:
  "numbered n ms \<Longrightarrow> filter (\<lambda>m. rm_sequence m > l) ms = drop (Suc l - n) ms"
proof (induction ms arbitrary: n)
  case (Cons m ms)
  show ?case
  proof (cases "n > l")
    case True
    have "\<forall>x\<in>set (m # ms). rm_sequence x > l"
    proof
      fix x
      assume "x \<in> set (m # ms)"
      with True numbered_bound [OF Cons.prems] show "rm_sequence x > l" by fastforce
    qed
    then have "filter (\<lambda>m. rm_sequence m > l) (m # ms) = m # ms" by (simp only: filter_True)
    with True show ?thesis by simp
  next
    case False
    with Cons show ?thesis by (auto simp: Suc_diff_le)
  qed
qed simp

lemma numbered_filter_drop:
  assumes "numbered 1 h" and "a \<le> length h"
  shows "filter (\<lambda>m. rm_sequence m > l) (drop a h) = drop (max a l) h"
proof -
  have "numbered (Suc a) (drop a h)" using numbered_drop [OF assms] by simp
  then have "filter (\<lambda>m. rm_sequence m > l) (drop a h) = drop (Suc l - Suc a) (drop a h)"
    by (rule numbered_filter)
  also have "\<dots> = drop (max a l) h" by (simp add: max_def)
  finally show ?thesis .
qed

section \<open>What a replica accepts\<close>

lemma scan_gaps_none: "scan_gaps n ms = [] \<longleftrightarrow> numbered n ms"
  by (induction ms arbitrary: n) auto

lemma out_of_order_none: "detect_out_of_order ms = [] \<longleftrightarrow> sorted_wrt (<) (map rm_sequence ms)"
proof (induction ms rule: detect_out_of_order.induct)
  case (1 a b ms)
  then show ?case by (auto simp: not_le) (meson less_trans)
qed auto

lemma scan_duplicates_none:
  "distinct (map rm_sequence ms) \<Longrightarrow> set seen \<inter> set (map rm_sequence ms) = {} \<Longrightarrow>
     scan_duplicates seen ms = []"
  by (induction ms arbitrary: seen) auto

lemma increasing_sort_key:
  assumes "sorted_wrt (<) (map rm_sequence ms)"
  shows "sort_key rm_sequence ms = ms"
proof -
  have "sorted (map rm_sequence ms)" using assms by (simp add: strict_sorted_iff)
  then show ?thesis by (rule sort_key_id_if_sorted)
qed

lemma numbered_increasing: "numbered n ms \<Longrightarrow> sorted_wrt (<) (map rm_sequence ms)"
  by (simp add: numbered_def)

text \<open>The three detectors and the check of the first element accept exactly the next numbered stretch.\<close>

definition batch_fits :: "nat \<Rightarrow> row_mutation list \<Rightarrow> bool" where
  "batch_fits last_applied batch \<longleftrightarrow>
     (batch = [] \<or> rm_sequence (hd batch) = last_applied + 1) \<and> detect_sequence_gaps batch = [] \<and>
     detect_duplicate_sequences batch = [] \<and> detect_out_of_order batch = []"

lemma batch_fits_numbered: "batch_fits k batch \<longleftrightarrow> numbered (Suc k) batch"
proof
  assume fits: "batch_fits k batch"
  show "numbered (Suc k) batch"
  proof (cases batch)
    case (Cons m ms)
    have "sorted_wrt (<) (map rm_sequence batch)"
      using fits by (simp add: batch_fits_def out_of_order_none)
    then have "sort_key rm_sequence batch = batch" by (rule increasing_sort_key)
    then have "scan_gaps (rm_sequence m) batch = []"
      using fits Cons by (auto simp add: batch_fits_def detect_sequence_gaps_def)
    with fits Cons show ?thesis by (simp add: scan_gaps_none batch_fits_def)
  qed simp
next
  assume num: "numbered (Suc k) batch"
  then have inc: "sorted_wrt (<) (map rm_sequence batch)" by (rule numbered_increasing)
  then have "detect_duplicate_sequences batch = []"
    by (simp add: detect_duplicate_sequences_def scan_duplicates_none strict_sorted_iff)
  moreover have "detect_sequence_gaps batch = []"
  proof (cases batch)
    case (Cons m ms)
    with num have "scan_gaps (rm_sequence m) (m # ms) = []" by (subst scan_gaps_none) simp
    then show ?thesis
      using Cons increasing_sort_key [OF inc] by (simp add: detect_sequence_gaps_def)
  qed (simp add: detect_sequence_gaps_def)
  ultimately show "batch_fits k batch"
    using num inc by (cases batch) (auto simp: batch_fits_def out_of_order_none)
qed

lemma apply_batch_accept:
  assumes "numbered (Suc (rr_last_applied_sequence rr)) batch"
  shows "apply_batch batch rr =
    (\<lparr>rp_applied_count = length batch,
      rp_last_applied_sequence = rr_last_applied_sequence rr + length batch,
      rp_gaps = [], rp_duplicates = [], rp_out_of_order = []\<rparr>,
     rr\<lparr>rr_applied := rr_applied rr @ batch,
        rr_last_applied_sequence := rr_last_applied_sequence rr + length batch\<rparr>)"
proof -
  have fits: "batch_fits (rr_last_applied_sequence rr) batch"
    using assms by (simp add: batch_fits_numbered)
  have last: "(if batch = [] then rr_last_applied_sequence rr else rm_sequence (last batch)) =
      rr_last_applied_sequence rr + length batch"
    using numbered_last [OF assms] by simp
  have head: "(case batch of [] \<Rightarrow> []
      | m # _ \<Rightarrow> if rm_sequence m \<noteq> rr_last_applied_sequence rr + 1
                 then [\<lparr>gap_expected = rr_last_applied_sequence rr + 1, gap_actual = rm_sequence m\<rparr>]
                 else []) = []"
    using fits by (cases batch) (simp_all add: batch_fits_def)
  show ?thesis
    unfolding apply_batch_def Let_def head
    using fits by (simp add: last batch_fits_def)
qed

lemma apply_batch_reject:
  assumes "\<not> numbered (Suc (rr_last_applied_sequence rr)) batch"
  shows "snd (apply_batch batch rr) = rr" and "rp_applied_count (fst (apply_batch batch rr)) = 0"
proof -
  have "\<not> batch_fits (rr_last_applied_sequence rr) batch"
    using assms by (simp add: batch_fits_numbered)
  then have "\<not> ((case batch of [] \<Rightarrow> []
      | m # _ \<Rightarrow> if rm_sequence m \<noteq> rr_last_applied_sequence rr + 1
                 then [\<lparr>gap_expected = rr_last_applied_sequence rr + 1, gap_actual = rm_sequence m\<rparr>]
                 else []) @ detect_sequence_gaps batch = [] \<and>
      detect_duplicate_sequences batch = [] \<and> detect_out_of_order batch = [])"
    by (cases batch) (auto simp: batch_fits_def)
  then show "snd (apply_batch batch rr) = rr" and "rp_applied_count (fst (apply_batch batch rr)) = 0"
    unfolding apply_batch_def Let_def by (simp_all only: if_False split_conv fst_conv snd_conv replica_replay_report.simps)
qed

section \<open>Feeds\<close>

text \<open>
  What a replica relies on: a feed has a history that is numbered from 1, of which it keeps everything
  after position \<open>low\<close>, and a request for the mutations after \<open>k\<close> cuts out the next ones it still has.
\<close>

locale mutation_feed =
  fixes valid :: "'s \<Rightarrow> bool"
    and history :: "'s \<Rightarrow> row_mutation list"
    and low :: "'s \<Rightarrow> nat"
    and feed :: "'s \<Rightarrow> nat \<Rightarrow> nat \<Rightarrow> row_mutation list"
  assumes history_numbered: "valid s \<Longrightarrow> numbered 1 (history s)"
    and low_bound: "valid s \<Longrightarrow> low s \<le> length (history s)"
    and feed_cut: "valid s \<Longrightarrow> feed s k n = take n (drop (max (low s) k) (history s))"
begin

text \<open>A replica that holds a prefix of the history and is not behind \<open>low\<close> extends its prefix.\<close>

lemma catch_up:
  assumes "valid s" and "rr_applied rr = take (rr_last_applied_sequence rr) (history s)"
    and "low s \<le> rr_last_applied_sequence rr" and "rr_last_applied_sequence rr \<le> length (history s)"
  shows "apply_batch (feed s (rr_last_applied_sequence rr) n) rr =
    (\<lparr>rp_applied_count = min n (length (history s) - rr_last_applied_sequence rr),
      rp_last_applied_sequence = min (rr_last_applied_sequence rr + n) (length (history s)),
      rp_gaps = [], rp_duplicates = [], rp_out_of_order = []\<rparr>,
     rr\<lparr>rr_applied := take (min (rr_last_applied_sequence rr + n) (length (history s))) (history s),
        rr_last_applied_sequence := min (rr_last_applied_sequence rr + n) (length (history s))\<rparr>)"
proof -
  define k where "k = rr_last_applied_sequence rr"
  define batch where "batch = take n (drop k (history s))"
  have feed: "feed s k n = batch"
    using assms(1,3) by (simp add: feed_cut batch_def k_def max_absorb2)
  have "numbered (1 + k) (drop k (history s))"
    using history_numbered [OF assms(1)] assms(4) unfolding k_def by (rule numbered_drop)
  then have num: "numbered (Suc k) batch" by (simp add: batch_def numbered_take)
  have len: "length batch = min n (length (history s) - k)" by (simp add: batch_def min.commute)
  have sum: "k + length batch = min (k + n) (length (history s))"
    using assms(4) by (simp add: len k_def)
  have "take k (history s) @ batch = take (k + n) (history s)"
    by (simp add: batch_def take_add)
  also have "\<dots> = take (min (k + n) (length (history s))) (history s)"
    by (simp add: min_def)
  finally have app: "rr_applied rr @ batch = take (min (k + n) (length (history s))) (history s)"
    using assms(2) by (simp add: k_def)
  show ?thesis
    using apply_batch_accept [of rr batch] num app sum len
    by (simp add: feed [unfolded k_def] k_def)
qed

text \<open>A replica that fell behind is told so, and stays as it is however often it asks.\<close>

lemma left_behind:
  assumes "valid s" and "rr_last_applied_sequence rr < low s" and "low s < length (history s)" and "0 < n"
  shows "snd (apply_batch (feed s (rr_last_applied_sequence rr) n) rr) = rr"
proof -
  have max: "max (low s) (rr_last_applied_sequence rr) = low s" using assms(2) by simp
  have feed: "feed s (rr_last_applied_sequence rr) n = take n (drop (low s) (history s))"
    using feed_cut [OF assms(1)] by (simp only: max)
  have "numbered (1 + low s) (drop (low s) (history s))"
    using history_numbered [OF assms(1)] low_bound [OF assms(1)] by (rule numbered_drop)
  then have num: "numbered (Suc (low s)) (take n (drop (low s) (history s)))"
    by (simp add: numbered_take)
  moreover have "take n (drop (low s) (history s)) \<noteq> []" using assms(3,4) by simp
  ultimately have "\<not> numbered (Suc (rr_last_applied_sequence rr)) (take n (drop (low s) (history s)))"
    using assms(2) by (cases "take n (drop (low s) (history s))") auto
  then show ?thesis by (simp add: feed apply_batch_reject)
qed

end

text \<open>The origin with the history of its appends.\<close>

definition origin_tracks :: "sync_origin \<Rightarrow> row_mutation list \<Rightarrow> bool" where
  "origin_tracks og h \<longleftrightarrow>
     numbered 1 h \<and> or_next_sequence og = Suc (length h) \<and>
     or_last_acknowledged_sequence og \<le> length h \<and>
     or_pending og = drop (or_last_acknowledged_sequence og) h"

lemma origin_tracks_new [simp]: "origin_tracks origin_new []"
  by (simp add: origin_tracks_def origin_new_def)

lemma origin_tracks_append:
  assumes "origin_tracks og h" and "origin_append now table key payload op og = (m, og')"
  shows "origin_tracks og' (h @ [m])"
    and "or_last_acknowledged_sequence og' = or_last_acknowledged_sequence og"
  using assms by (auto simp: origin_tracks_def origin_append_def Let_def)

lemma origin_tracks_ack:
  assumes "origin_tracks og h" and "l \<le> length h"
  shows "origin_tracks (ack_through l og) h"
    and "or_last_acknowledged_sequence (ack_through l og) = max (or_last_acknowledged_sequence og) l"
proof -
  have "filter (\<lambda>m. l < rm_sequence m) (drop (or_last_acknowledged_sequence og) h) =
      drop (max (or_last_acknowledged_sequence og) l) h"
    using assms(1) by (intro numbered_filter_drop) (simp_all add: origin_tracks_def)
  with assms show "origin_tracks (ack_through l og) h"
    by (simp add: origin_tracks_def ack_through_def)
qed (simp add: ack_through_def)

lemma export_since_tracks:
  assumes "origin_tracks og h"
  shows "export_since og k n = take n (drop (max (or_last_acknowledged_sequence og) k) h)"
proof -
  have "filter (\<lambda>m. k < rm_sequence m) (drop (or_last_acknowledged_sequence og) h) =
      drop (max (or_last_acknowledged_sequence og) k) h"
    using assms by (intro numbered_filter_drop) (simp_all add: origin_tracks_def)
  with assms show ?thesis by (simp add: export_since_def origin_tracks_def)
qed

interpretation origin_feed: mutation_feed
  "\<lambda>(og, h). origin_tracks og h" snd "\<lambda>(og, h). or_last_acknowledged_sequence og"
  "\<lambda>(og, h). export_since og"
  by unfold_locales (auto simp: export_since_tracks, auto simp: origin_tracks_def)

text \<open>The transport, read by a target that every event is addressed to.\<close>

definition transport_numbered :: "replication_transport \<Rightarrow> bool" where
  "transport_numbered tr \<longleftrightarrow>
     numbered 1 (map ev_mutation (tr_events tr)) \<and>
     tr_next_mutation_sequence tr = Suc (length (tr_events tr))"

lemma transport_numbered_publish:
  assumes "transport_numbered tr"
  shows "transport_numbered (snd (publish source target transport table key payload op tr))"
  using assms by (simp add: transport_numbered_def publish_def Let_def)

lemma transport_numbered_new [simp]: "transport_numbered transport_new"
  by (simp add: transport_numbered_def transport_new_def)

definition sole_target :: "replication_transport \<times> string \<Rightarrow> bool" where
  "sole_target x \<longleftrightarrow> transport_numbered (fst x) \<and> (\<forall>e\<in>set (tr_events (fst x)). for_target (snd x) e)"

lemma export_for_sole_target:
  assumes "sole_target (tr, target)"
  shows "export_for_target_since tr target k n = take n (drop k (map ev_mutation (tr_events tr)))"
proof -
  have "filter (\<lambda>e. for_target target e \<and> rm_sequence (ev_mutation e) > k) (tr_events tr) =
      filter (\<lambda>e. rm_sequence (ev_mutation e) > k) (tr_events tr)"
    using assms by (intro filter_cong) (auto simp: sole_target_def)
  then have "export_for_target_since tr target k n =
      take n (filter (\<lambda>m. rm_sequence m > k) (map ev_mutation (tr_events tr)))"
    by (simp add: export_for_target_since_def take_map filter_map o_def)
  also have "\<dots> = take n (drop k (map ev_mutation (tr_events tr)))"
    using assms by (subst numbered_filter [of 1]) (simp_all add: sole_target_def transport_numbered_def)
  finally show ?thesis .
qed

interpretation transport_feed: mutation_feed
  sole_target "\<lambda>(tr, target). map ev_mutation (tr_events tr)" "\<lambda>_. 0"
  "\<lambda>(tr, target). export_for_target_since tr target"
proof (unfold_locales, goal_cases)
  case (1 s)
  then show ?case by (cases s) (simp add: sole_target_def transport_numbered_def)
next
  case (3 s k n)
  then show ?case by (cases s) (simp add: export_for_sole_target)
qed simp

section \<open>The analytical store follows the history\<close>

lemma force_sync_apply_fold:
  "fold (\<lambda>m ((applied, last_seq), olap).
           ((applied + 1, max last_seq (rm_sequence m)),
            apply_op dec (rm_op m) (rm_primary_key m) (rm_payload_json m) olap))
     batch ((n, l), olap) =
   ((n + length batch, fold max (map rm_sequence batch) l),
    fold (\<lambda>m. apply_op dec (rm_op m) (rm_primary_key m) (rm_payload_json m)) batch olap)"
  by (induction batch arbitrary: n l olap) (simp_all add: max.commute)

lemma numbered_max:
  "numbered (Suc a) batch \<Longrightarrow> batch \<noteq> [] \<Longrightarrow> fold max (map rm_sequence batch) l = max l (a + length batch)"
proof (induction batch arbitrary: a l)
  case (Cons m ms)
  then show ?case by (cases "ms = []") (auto simp: max.assoc)
qed simp

lemma force_sync_apply_stretch:
  assumes "numbered 1 h" and "a \<le> n" and "n \<le> length h"
  shows "force_sync_apply dec (drop a (take n h)) (olap_replay dec (take a h)) =
    ((n - a, if a < n then n else 0), olap_replay dec (take n h))"
proof -
  let ?f = "\<lambda>m. apply_op dec (rm_op m) (rm_primary_key m) (rm_payload_json m)"
  have split: "take n h = take a h @ drop a (take n h)"
    by (metis append_take_drop_id assms(2) min.absorb1 take_take)
  have "fold ?f (drop a (take n h)) (olap_replay dec (take a h)) =
      olap_replay dec (take a h @ drop a (take n h))"
    by (simp add: olap_replay_def)
  then have "fold ?f (drop a (take n h)) (olap_replay dec (take a h)) = olap_replay dec (take n h)"
    by (simp only: split [symmetric])
  moreover have "fold max (map rm_sequence (drop a (take n h))) 0 = (if a < n then n else 0)"
  proof (cases "a < n")
    case True
    have "numbered (1 + a) (drop a (take n h))"
      using assms by (intro numbered_drop numbered_take) simp_all
    moreover have "drop a (take n h) \<noteq> []" using True assms by simp
    ultimately have "fold max (map rm_sequence (drop a (take n h))) 0 = max 0 (a + length (drop a (take n h)))"
      by (intro numbered_max) simp_all
    with True assms show ?thesis by simp
  qed simp
  ultimately show ?thesis
    unfolding force_sync_apply_def force_sync_apply_fold using assms by simp
qed

lemma force_sync_export_tracks:
  assumes "origin_tracks og h"
  obtains n where "or_last_acknowledged_sequence og \<le> n" and "n \<le> length h"
    and "force_sync_export og = drop (or_last_acknowledged_sequence og) (take n h)"
    and "length h \<le> usize_max \<Longrightarrow> n = length h"
proof
  let ?a = "or_last_acknowledged_sequence og"
  let ?n = "min (?a + usize_max) (length h)"
  have "?a \<le> length h" using assms by (simp add: origin_tracks_def)
  then show "?a \<le> ?n" and "?n \<le> length h" by simp_all
  show "force_sync_export og = drop ?a (take ?n h)"
    using assms by (simp add: force_sync_export_def export_batch_def origin_tracks_def take_drop
        add.commute min_def)
  show "length h \<le> usize_max \<Longrightarrow> ?n = length h" by simp
qed

text \<open>
  The invariant of a node with one synchronising worker: the analytical store holds the replay of a
  prefix of the history, the acknowledged one or the one the worker has just applied.
\<close>

fun phase_inv :: "payload_decoder \<Rightarrow> nat \<Rightarrow> row_mutation list \<Rightarrow> olap_store \<Rightarrow> sync_phase \<Rightarrow> bool" where
  "phase_inv dec a h olap Idle \<longleftrightarrow> olap = olap_replay dec (take a h)"
| "phase_inv dec a h olap (Exported batch) \<longleftrightarrow>
     olap = olap_replay dec (take a h) \<and> (\<exists>n. a \<le> n \<and> n \<le> length h \<and> batch = drop a (take n h))"
| "phase_inv dec a h olap (Applied l) \<longleftrightarrow>
     (if l = 0 then olap = olap_replay dec (take a h)
      else a < l \<and> l \<le> length h \<and> olap = olap_replay dec (take l h))"

definition sync_inv :: "payload_decoder \<Rightarrow> nat \<Rightarrow> sync_state \<Rightarrow> bool" where
  "sync_inv dec w s \<longleftrightarrow>
     origin_tracks (ss_origin s) (ss_history s) \<and>
     phase_inv dec (or_last_acknowledged_sequence (ss_origin s)) (ss_history s) (ss_olap s) (ss_phase s w)"

lemma phase_inv_append:
  assumes "phase_inv dec a h olap p" and "a \<le> length h"
  shows "phase_inv dec a (h @ [m]) olap p"
proof (cases p)
  case (Exported batch)
  with assms obtain n where "a \<le> n" "n \<le> length h" "batch = drop a (take n h)" by auto
  then have "a \<le> n \<and> n \<le> length (h @ [m]) \<and> batch = drop a (take n (h @ [m]))" by simp
  with assms Exported show ?thesis by auto
qed (use assms in \<open>auto split: if_splits\<close>)

lemma phase_inv_apply:
  assumes "phase_inv dec a h olap (Exported batch)" and "numbered 1 h"
    and "force_sync_apply dec batch olap = ((applied, l), olap')"
  shows "phase_inv dec a h olap' (Applied l)"
proof -
  obtain n where n: "a \<le> n" "n \<le> length h" and batch: "batch = drop a (take n h)"
    and olap: "olap = olap_replay dec (take a h)"
    using assms(1) by auto
  from assms(3) have "l = (if a < n then n else 0)" and "olap' = olap_replay dec (take n h)"
    using force_sync_apply_stretch [OF assms(2) n, of dec] by (simp_all add: batch olap)
  with n show ?thesis by auto
qed

lemma sync_inv_ack:
  assumes "origin_tracks og h" and "phase_inv dec (or_last_acknowledged_sequence og) h olap (Applied l)"
  shows "origin_tracks (force_sync_ack l og) h"
    and "phase_inv dec (or_last_acknowledged_sequence (force_sync_ack l og)) h olap Idle"
  using assms origin_tracks_ack [of og h l]
  by (auto simp: force_sync_ack_def max_absorb2 split: if_splits)

lemma sync_inv_step:
  assumes "sync_inv dec w s" and "sync_step dec {w} s t"
  shows "sync_inv dec w t"
  using assms(2)
proof (cases rule: sync_step.cases)
  case (step_append now table key payload op m og)
  have tracks: "origin_tracks (ss_origin s) (ss_history s)" using assms(1) by (simp add: sync_inv_def)
  have "or_last_acknowledged_sequence (ss_origin s) \<le> length (ss_history s)"
    using tracks by (simp add: origin_tracks_def)
  with assms(1) step_append origin_tracks_append [OF tracks step_append(2)] show ?thesis
    by (simp add: sync_inv_def phase_inv_append)
next
  case (step_export v)
  have tracks: "origin_tracks (ss_origin s) (ss_history s)" using assms(1) by (simp add: sync_inv_def)
  obtain n where "or_last_acknowledged_sequence (ss_origin s) \<le> n" "n \<le> length (ss_history s)"
    "force_sync_export (ss_origin s) =
      drop (or_last_acknowledged_sequence (ss_origin s)) (take n (ss_history s))"
    using tracks by (rule force_sync_export_tracks)
  with assms(1) step_export show ?thesis by (auto simp: sync_inv_def)
next
  case (step_apply v batch applied l olap)
  have num: "numbered 1 (ss_history s)" using assms(1) by (simp add: sync_inv_def origin_tracks_def)
  from step_apply assms(1) have "phase_inv dec (or_last_acknowledged_sequence (ss_origin s)) (ss_history s)
      (ss_olap s) (Exported batch)"
    by (simp add: sync_inv_def)
  from phase_inv_apply [OF this num step_apply(4)] assms(1) step_apply show ?thesis
    by (simp add: sync_inv_def)
next
  case (step_ack v l)
  with assms(1) sync_inv_ack [of "ss_origin s" "ss_history s" dec "ss_olap s" l] show ?thesis
    by (simp add: sync_inv_def)
qed

lemma sync_inv_init: "sync_inv dec w sync_init"
  by (simp add: sync_inv_def sync_init_def olap_replay_def)

interpretation one_worker: invariant_system
  "\<lambda>s. s = sync_init" "sync_step dec {w}" "sync_inv dec w" for dec w
  by unfold_locales (auto simp: sync_inv_init sync_inv_step)

lemma phase_inv_prefix:
  assumes "phase_inv dec a h olap p" and "a \<le> length h"
  shows "\<exists>n. a \<le> n \<and> n \<le> length h \<and> olap = olap_replay dec (take n h)"
proof (cases p)
  case (Applied l)
  show ?thesis
  proof (cases "l = 0")
    case False
    with Applied assms have "a \<le> l \<and> l \<le> length h \<and> olap = olap_replay dec (take l h)" by simp
    then show ?thesis ..
  qed (use Applied assms in auto)
qed (use assms in auto)

text \<open>The whole handler, run on an idle node, drains the origin and completes the replay.\<close>

lemma force_sync_complete:
  assumes "sync_inv dec w s" and "ss_phase s w = Idle" and "length (ss_history s) \<le> usize_max"
  shows "htap_force_sync dec (ss_origin s, ss_olap s) =
    ((length (or_pending (ss_origin s)), length (olap_replay dec (ss_history s))),
     force_sync_ack (if or_pending (ss_origin s) = [] then 0 else length (ss_history s)) (ss_origin s),
     olap_replay dec (ss_history s))"
proof -
  let ?a = "or_last_acknowledged_sequence (ss_origin s)"
  have tracks: "origin_tracks (ss_origin s) (ss_history s)"
    and olap: "ss_olap s = olap_replay dec (take ?a (ss_history s))"
    using assms(1,2) by (simp_all add: sync_inv_def)
  have export: "force_sync_export (ss_origin s) = drop ?a (take (length (ss_history s)) (ss_history s))"
    using force_sync_export_tracks [OF tracks] assms(3) by metis
  have a: "?a \<le> length (ss_history s)" and pending: "or_pending (ss_origin s) = drop ?a (ss_history s)"
    and num: "numbered 1 (ss_history s)"
    using tracks by (simp_all add: origin_tracks_def)
  have "force_sync_apply dec (force_sync_export (ss_origin s)) (ss_olap s) =
      ((length (ss_history s) - ?a, if ?a < length (ss_history s) then length (ss_history s) else 0),
       olap_replay dec (take (length (ss_history s)) (ss_history s)))"
    unfolding export olap using num a order_refl by (rule force_sync_apply_stretch)
  with a show ?thesis by (simp add: htap_force_sync_def pending not_le)
qed

section \<open>Runs of requests\<close>

text \<open>A schedule of requests, for concrete runs.\<close>

datatype sync_event = Append string string mutation_op | Export nat | Apply nat | Ack nat

fun sync_exec :: "payload_decoder \<Rightarrow> nat set \<Rightarrow> sync_event \<Rightarrow> sync_state \<Rightarrow> sync_state option" where
  "sync_exec dec W (Append key payload op) s =
     (let (m, og) = origin_append 1 ''t'' key payload op (ss_origin s)
      in Some (s\<lparr>ss_origin := og, ss_history := ss_history s @ [m]\<rparr>))"
| "sync_exec dec W (Export w) s =
     (case ss_phase s w of
        Idle \<Rightarrow> if w \<in> W
                then Some (s\<lparr>ss_phase := (ss_phase s)(w := Exported (force_sync_export (ss_origin s)))\<rparr>)
                else None
      | _ \<Rightarrow> None)"
| "sync_exec dec W (Apply w) s =
     (case ss_phase s w of
        Exported batch \<Rightarrow>
          if w \<in> W
          then let ((_, last_seq), olap) = force_sync_apply dec batch (ss_olap s)
               in Some (s\<lparr>ss_olap := olap, ss_phase := (ss_phase s)(w := Applied last_seq)\<rparr>)
          else None
      | _ \<Rightarrow> None)"
| "sync_exec dec W (Ack w) s =
     (case ss_phase s w of
        Applied last_seq \<Rightarrow>
          if w \<in> W
          then Some (s\<lparr>ss_origin := force_sync_ack last_seq (ss_origin s),
                       ss_phase := (ss_phase s)(w := Idle)\<rparr>)
          else None
      | _ \<Rightarrow> None)"

lemma step_apply_result:
  assumes "w \<in> W" and "ss_phase s w = Exported batch"
  shows "sync_step dec W s
    (s\<lparr>ss_olap := snd (force_sync_apply dec batch (ss_olap s)),
       ss_phase := (ss_phase s)(w := Applied (snd (fst (force_sync_apply dec batch (ss_olap s)))))\<rparr>)"
  using assms by (rule step_apply) (simp add: prod_eq_iff)

lemma sync_exec_step: "sync_exec dec W e s = Some t \<Longrightarrow> sync_step dec W s t"
  by (cases "(dec, W, e, s)" rule: sync_exec.cases)
    (auto simp: split_def Let_def intro: sync_step.intros step_apply_result split: sync_phase.splits if_splits)

lemma sync_exec_reaches: "fold_opt (sync_exec dec W) es s = Some t \<Longrightarrow> reaches (sync_step dec W) s t"
proof (induction es arbitrary: s)
  case (Cons e es)
  then obtain u where "sync_exec dec W e s = Some u" and u: "fold_opt (sync_exec dec W) es u = Some t"
    by (auto split: option.splits)
  then have "reaches (sync_step dec W) s u" by (intro reaches_single sync_exec_step)
  moreover have "reaches (sync_step dec W) u t" using u by (rule Cons.IH)
  ultimately show ?case by (metis reaches_trans)
qed (simp add: reaches_refl)

section \<open>Properties\<close>


text \<open>A run with an append between the export and the acknowledgement of a force-sync.\<close>

definition demo_schedule :: "sync_event list" where
  "demo_schedule = [Append ''k'' ''a'' Insert, Export 0, Append ''k'' ''b'' Update, Apply 0, Ack 0]"

lemma demo_schedule_runs:
  "\<exists>s. fold_opt (sync_exec (\<lambda>_. None) {0}) demo_schedule sync_init = Some s \<and> ss_phase s 0 = Idle \<and>
     length (ss_history s) = 2 \<and> or_last_acknowledged_sequence (ss_origin s) = 1"
  by (simp add: demo_schedule_def sync_init_def origin_append_def origin_new_def Let_def
      force_sync_export_def export_batch_def force_sync_apply_def force_sync_ack_def ack_through_def
      apply_op_def payload_row_def usize_max_def)


text \<open>
  With two force-sync requests in flight the analytical store may end up stale for good: there is a
  run after which both requests are finished, every mutation is acknowledged and nothing is pending,
  but the store is not the replay of the history. The second request applies its old batch after the
  first one has applied and acknowledged a newer mutation of the same key.
\<close>

theorem htap_force_sync_race:
  "\<exists>s. reaches (sync_step (\<lambda>_. None) {0, 1}) sync_init s \<and> (\<forall>w. ss_phase s w = Idle) \<and>
     or_pending (ss_origin s) = [] \<and> or_last_acknowledged_sequence (ss_origin s) = length (ss_history s) \<and>
     ss_olap s \<noteq> olap_replay (\<lambda>_. None) (ss_history s)"
proof -
  define es where "es = [Append ''k'' ''a'' Insert, Export 1, Export 0, Apply 0, Ack 0,
    Append ''k'' ''b'' Update, Export 0, Apply 0, Ack 0, Apply 1, Ack 1]"
  have "\<exists>s. fold_opt (sync_exec (\<lambda>_. None) {0, 1}) es sync_init = Some s \<and> (\<forall>w. ss_phase s w = Idle) \<and>
     or_pending (ss_origin s) = [] \<and> or_last_acknowledged_sequence (ss_origin s) = length (ss_history s) \<and>
     ss_olap s \<noteq> olap_replay (\<lambda>_. None) (ss_history s)"
    by (simp add: es_def sync_init_def origin_append_def origin_new_def Let_def
        force_sync_export_def export_batch_def force_sync_apply_def force_sync_ack_def ack_through_def
        apply_op_def payload_row_def olap_replay_def usize_max_def)
      (auto dest: map_upd_eqD1)
  then show ?thesis by (meson sync_exec_reaches)
qed

section \<open>Handoffs\<close>

lemma no_events_for_target:
  assumes "pending_for_target tr target = 0"
  shows "export_for_target_since tr target k n = []"
proof -
  have "filter (\<lambda>e. for_target target e \<and> k < rm_sequence (ev_mutation e)) (tr_events tr) = []"
    using assms by (auto simp: pending_for_target_def filter_empty_conv)
  then show ?thesis by (simp add: export_for_target_since_def)
qed

lemma handoff_step:
  assumes "origin_tracks (hc_origin hc) h" and "pending_for_target (hc_transport hc) target = 0"
    and "hc_replicas hc target = Some rr" and "rr_applied rr = take (rr_last_applied_sequence rr) h"
    and "or_last_acknowledged_sequence (hc_origin hc) \<le> rr_last_applied_sequence rr"
    and "rr_last_applied_sequence rr \<le> length h"
    and n: "n = min (rr_last_applied_sequence rr + 64) (length h)"
  shows "ho_gaps (fst (build_failover_handoff_report target hc)) = []"
    and "snd (build_failover_handoff_report target hc) =
      hc\<lparr>hc_replicas := (hc_replicas hc)(target \<mapsto> rr\<lparr>rr_applied := take n h, rr_last_applied_sequence := n\<rparr>)\<rparr>"
proof -
  let ?k = "rr_last_applied_sequence rr"
  let ?batch = "export_since (hc_origin hc) ?k 64"
  have apply_eq: "apply_batch ?batch rr =
    (\<lparr>rp_applied_count = min 64 (length h - ?k), rp_last_applied_sequence = n, rp_gaps = [],
      rp_duplicates = [], rp_out_of_order = []\<rparr>,
     rr\<lparr>rr_applied := take n h, rr_last_applied_sequence := n\<rparr>)"
    using origin_feed.catch_up [of "(hc_origin hc, h)" rr 64] assms by simp
  have same: "rr\<lparr>rr_applied := take n h, rr_last_applied_sequence := n\<rparr> = rr" if empty: "?batch = []"
  proof -
    have "length ?batch = min 64 (length h - ?k)"
      using assms(1,5) by (simp add: export_since_tracks max_absorb2 min.commute)
    with empty have "length h \<le> ?k" by simp
    with assms(6) n have "n = ?k" by simp
    with assms(4) show ?thesis by (cases rr) simp
  qed
  note defs = build_failover_handoff_report_def build_failover_handoff_batch_def Let_def
    no_events_for_target [OF assms(2)] assms(3) apply_eq
  show "ho_gaps (fst (build_failover_handoff_report target hc)) = []"
    by (simp add: defs)
  show "snd (build_failover_handoff_report target hc) =
      hc\<lparr>hc_replicas := (hc_replicas hc)(target \<mapsto> rr\<lparr>rr_applied := take n h, rr_last_applied_sequence := n\<rparr>)\<rparr>"
    using same by (cases "?batch = []") (simp_all add: defs)
qed



text \<open>
  Sequence numbers of the transport count the events of all targets. A target that an earlier event
  skipped sees a gap at its first event and applies nothing.
\<close>

theorem handoff_other_target_stalls:
  assumes "other \<noteq> target" and "other \<noteq> ''*''"
    and "publish src other tp table key payload op transport_new = (e1, tr1)"
    and "publish src target tp table' key' payload' op' tr1 = (e2, tr2)"
  shows "build_failover_handoff_report target \<lparr>hc_replicas = Map.empty, hc_transport = tr2, hc_origin = og\<rparr> =
    (\<lparr>ho_state = ''handoff_gap_detected'', ho_before = 0, ho_after = 0, ho_batch_size = 1,
      ho_applied_count = 0, ho_gaps = [\<lparr>gap_expected = 1, gap_actual = 2\<rparr>]\<rparr>,
     \<lparr>hc_replicas = [target \<mapsto> replica_new target], hc_transport = tr2, hc_origin = og\<rparr>)"
proof -
  have "export_for_target_since tr2 target 0 64 = [ev_mutation e2]" and "rm_sequence (ev_mutation e2) = 2"
    using assms by (auto simp: publish_def transport_new_def Let_def export_for_target_since_def for_target_def)
  then show ?thesis
    by (simp add: build_failover_handoff_report_def replica_new_def apply_batch_def detect_sequence_gaps_def
        detect_duplicate_sequences_def)
qed

text \<open>
  The pull transport does not check continuity: once mutations it has not seen are acknowledged away,
  it moves past them without notice.
\<close>

theorem pull_skips_acknowledged:
  assumes "origin_tracks og h" and "pt_last_applied_sequence pt < or_last_acknowledged_sequence og"
    and "or_last_acknowledged_sequence og < length h" and "0 < n"
  shows "fst (pull_from_origin og n pt) = take n (drop (or_last_acknowledged_sequence og) h) \<and>
    pt_last_applied_sequence (snd (pull_from_origin og n pt)) > or_last_acknowledged_sequence og"
proof -
  let ?a = "or_last_acknowledged_sequence og"
  have batch: "export_since og (pt_last_applied_sequence pt) n = take n (drop ?a h)"
    using assms(1,2) by (simp add: export_since_tracks max_absorb1)
  have "numbered (1 + ?a) (drop ?a h)"
    using assms(1) by (intro numbered_drop) (simp_all add: origin_tracks_def)
  then have "numbered (Suc ?a) (take n (drop ?a h))" by (simp add: numbered_take)
  moreover have "take n (drop ?a h) \<noteq> []" using assms(3,4) by simp
  ultimately have "rm_sequence (last (take n (drop ?a h))) > ?a"
    using numbered_bound [OF _ last_in_set] Suc_le_lessD by blast
  with \<open>take n (drop ?a h) \<noteq> []\<close> show ?thesis by (simp add: pull_from_origin_def Let_def batch)
qed

text \<open>Without a configured cluster token every pull request is authorized, whatever the admin key.\<close>

theorem pull_open_without_token:
  "htap_pull_authorized None admin_api_key authorization admin_header"
  by (simp add: htap_pull_authorized_def)

text \<open>
  The three ways into the analytical store agree: a batch pushed to a peer, posted to the apply
  endpoint or drained by force-sync has the same effect and the same counts.
\<close>

lemma op_enum_replicated [simp]: "op_enum (replicated m) = rm_op m"
  by (cases "rm_op m") (simp_all add: op_enum_def replicated_def)

theorem olap_paths_agree:
  "apply_htap_mutations_to_olap dec (map replicated ms) olap = force_sync_apply dec ms olap \<and>
   store_htap_apply dec (map replicated ms) olap = force_sync_apply dec ms olap"
proof -
  have fields: "pm_sequence (replicated m) = rm_sequence m" "pm_primary_key (replicated m) = rm_primary_key m"
    "pm_payload_json (replicated m) = rm_payload_json m" "pm_op (replicated m) = op_str (rm_op m)" for m
    by (simp_all add: replicated_def)
  have push: "apply_htap_mutations_to_olap dec (map replicated ms) olap = force_sync_apply dec ms olap"
    unfolding apply_htap_mutations_to_olap_def force_sync_apply_def fold_map o_def fields op_enum_replicated ..
  have "fold (\<lambda>m ((applied, last_seq), olap).
      let last_seq = max last_seq (pm_sequence m)
      in if pm_op m = ''insert'' \<or> pm_op m = ''update''
         then ((applied + 1, last_seq),
               AList.update (pm_primary_key m) (payload_row dec (pm_payload_json m)) olap)
         else if pm_op m = ''delete'' then ((applied + 1, last_seq), AList.delete (pm_primary_key m) olap)
         else ((applied, last_seq), olap)) (map replicated ms) s =
    fold (\<lambda>m ((applied, last_seq), olap).
      ((applied + 1, max last_seq (rm_sequence m)),
       apply_op dec (rm_op m) (rm_primary_key m) (rm_payload_json m) olap)) ms s" for s
  proof (induction ms arbitrary: s)
    case (Cons m ms)
    then show ?case by (cases "rm_op m"; cases s) (simp_all add: fields apply_op_def Let_def split_def)
  qed simp
  then have "store_htap_apply dec (map replicated ms) olap = force_sync_apply dec ms olap"
    unfolding store_htap_apply_def force_sync_apply_def .
  with push show ?thesis by (rule conjI)
qed

end
