(* ===== verification/Partitioning.thy ===== *)
theory Partitioning
  imports Mvcc Vng_Text "HOL-Library.Word"
begin

text \<open>
  How rows are distributed: the segment router of \<^verbatim>\<open>crates/voltnuerongrid-store/src/partition.rs\<close>, range
  partitions of \<^verbatim>\<open>services/voltnuerongridd/src/helpers/partition.rs\<close>, the shard router of
  \<^verbatim>\<open>crates/voltnuerongrid-core/src/sharding.rs\<close> and the shard map of \<^verbatim>\<open>helpers/dataplane.rs\<close> and
  \<^verbatim>\<open>handlers/dataplane.rs\<close>.

  The locale \<open>pruning_router\<close> is what a scan relies on: the segment a key is routed to is among the
  segments that a predicate satisfied by the key leaves after pruning. Both range routers are its
  interpretations, so a scan of the remaining segments finds every matching row. The hash function of
  the standard library, whose algorithm is not specified, is an argument; FNV-1a is computed on words.
\<close>

unbundle bit_operations_syntax

section \<open>The segment router\<close>

type_synonym segment_id = nat

record range_partition =
  rp_segment_id :: segment_id
  rp_lower_bound :: "string option"
  rp_upper_bound :: "string option"

record range_scheme =
  rs_ranges :: "range_partition list"

record hash_scheme =
  hs_num_buckets :: nat
  hs_segments :: "segment_id list"

datatype partition_type = PNone | PRange range_scheme | PHash hash_scheme

definition value_in_range :: "string \<Rightarrow> string option \<Rightarrow> string option \<Rightarrow> bool" where
  "value_in_range val lower upper =
     ((case lower of Some l \<Rightarrow> \<not> val < l | None \<Rightarrow> True) \<and>
      (case upper of Some u \<Rightarrow> \<not> val \<ge> u | None \<Rightarrow> True))"

text \<open>
  \<open>None\<close> is a panic: a remainder by zero buckets, or a bucket without a segment.
\<close>

definition route_to_segment ::
  "(string \<Rightarrow> nat) \<Rightarrow> partition_type \<Rightarrow> string \<Rightarrow> (segment_id, string) result option" where
  "route_to_segment hash_value pt key =
     (case pt of
        PNone \<Rightarrow> Some (Ok 0)
      | PRange scheme \<Rightarrow>
          (case find (\<lambda>p. value_in_range key (rp_lower_bound p) (rp_upper_bound p)) (rs_ranges scheme) of
             Some p \<Rightarrow> Some (Ok (rp_segment_id p))
           | None \<Rightarrow> Some (Err (''Value '' @ [CHR 0x27] @ key @ [CHR 0x27] @ '' out of range'')))
      | PHash scheme \<Rightarrow>
          if hs_segments scheme = [] then Some (Err ''Hash partition has no segments'')
          else if hs_num_buckets scheme = 0 then None
          else let bucket = hash_value key mod hs_num_buckets scheme
               in if bucket < length (hs_segments scheme) then Some (Ok (hs_segments scheme ! bucket))
                  else None)"

definition ranges_overlap ::
  "string option \<Rightarrow> string option \<Rightarrow> string option \<Rightarrow> string option \<Rightarrow> bool" where
  "ranges_overlap r1_lower r1_upper r2_lower r2_upper =
     (\<not> (case (r1_upper, r2_lower) of (Some u1, Some l2) \<Rightarrow> u1 \<le> l2 | _ \<Rightarrow> False) \<and>
      \<not> (case (r2_upper, r1_lower) of (Some u2, Some l1) \<Rightarrow> u2 \<le> l1 | _ \<Rightarrow> False))"

definition prune_segments :: "partition_type \<Rightarrow> string option \<Rightarrow> string option \<Rightarrow> segment_id list" where
  "prune_segments pt lower_bound upper_bound =
     (case pt of
        PNone \<Rightarrow> [0]
      | PRange scheme \<Rightarrow>
          let kept = map rp_segment_id
                (filter (\<lambda>p. ranges_overlap (rp_lower_bound p) (rp_upper_bound p) lower_bound upper_bound)
                   (rs_ranges scheme))
          in if kept = [] then map rp_segment_id (rs_ranges scheme) else kept
      | PHash scheme \<Rightarrow> hs_segments scheme)"

section \<open>Range partitions of a table\<close>

record range_partition_config =
  rc_column :: string
  rc_boundaries :: "int list"

definition segment_count :: "range_partition_config \<Rightarrow> nat" where
  "segment_count config = length (rc_boundaries config) + 1"

text \<open>The text between the next pair of parentheses, and what follows it.\<close>

definition in_parens :: "string \<Rightarrow> (string \<times> string) option" where
  "in_parens s =
     (case find_str s ''('' of
        None \<Rightarrow> None
      | Some open_pos \<Rightarrow>
          (case find_str (drop (open_pos + 1) s) '')'' of
             None \<Rightarrow> None
           | Some close \<Rightarrow> Some (take close (drop (open_pos + 1) s), drop (open_pos + 1 + close + 1) s)))"

definition parse_boundaries :: "string \<Rightarrow> int list" where
  "parse_boundaries after =
     (case find_str after ''boundaries'' of
        None \<Rightarrow> []
      | Some bidx \<Rightarrow>
          (case in_parens (drop (bidx + 10) after) of
             None \<Rightarrow> []
           | Some (inner, _) \<Rightarrow> List.map_filter (\<lambda>tok. parse_int 64 (trim tok)) (split_str '','' inner)))"

definition parse_range_partition :: "string \<Rightarrow> range_partition_config option" where
  "parse_range_partition ddl =
     (let lower = to_lowercase ddl
      in case find_str lower ''partition by range'' of
           None \<Rightarrow> None
         | Some idx \<Rightarrow>
             let after = drop (idx + 18) lower
             in (case in_parens after of
                   None \<Rightarrow> None
                 | Some (inner, _) \<Rightarrow>
                     let column = trim inner
                     in if column = [] then None
                        else Some \<lparr>rc_column = column,
                                   rc_boundaries = remdups_adj (sort (parse_boundaries after))\<rparr>))"

fun position :: "('a \<Rightarrow> bool) \<Rightarrow> 'a list \<Rightarrow> nat option" where
  "position P [] = None"
| "position P (x # xs) = (if P x then Some 0 else map_option Suc (position P xs))"

definition segment_for_value :: "range_partition_config \<Rightarrow> int \<Rightarrow> nat" where
  "segment_for_value config v =
     (case position (\<lambda>b. v < b) (rc_boundaries config) of
        Some i \<Rightarrow> i | None \<Rightarrow> length (rc_boundaries config))"

datatype range_op = Lt | Le | Gt | Ge | Eq

definition range_op_parse :: "string \<Rightarrow> range_op option" where
  "range_op_parse op =
     (let s = trim op
      in if s = ''<'' then Some Lt
         else if s = ''<='' then Some Le
         else if s = ''>'' then Some Gt
         else if s = ''>='' then Some Ge
         else if s = ''='' \<or> s = ''=='' then Some Eq
         else None)"

definition prune_range_segments :: "range_partition_config \<Rightarrow> range_op \<Rightarrow> int \<Rightarrow> nat list" where
  "prune_range_segments config op v =
     (let total = segment_count config;
          target = segment_for_value config v
      in case op of
           Lt \<Rightarrow> filter (\<lambda>s. s \<le> target) [0..<total]
         | Le \<Rightarrow> filter (\<lambda>s. s \<le> target) [0..<total]
         | Gt \<Rightarrow> filter (\<lambda>s. s \<ge> target) [0..<total]
         | Ge \<Rightarrow> filter (\<lambda>s. s \<ge> target) [0..<total]
         | Eq \<Rightarrow> [target])"

type_synonym partition_registry = "string \<rightharpoonup> range_partition_config"

definition register_partition_config ::
  "string \<Rightarrow> range_partition_config \<Rightarrow> partition_registry \<Rightarrow> partition_registry" where
  "register_partition_config table config reg = reg(to_lowercase table \<mapsto> config)"

definition lookup_partition_config :: "partition_registry \<Rightarrow> string \<Rightarrow> range_partition_config option" where
  "lookup_partition_config reg table = reg (to_lowercase table)"

definition row_partition_value :: "range_partition_config \<Rightarrow> row_data \<Rightarrow> int option" where
  "row_partition_value config data =
     Option.bind (data (rc_column config)) (\<lambda>v. parse_int 64 (trim v))"

definition count_row ::
  "range_partition_config \<Rightarrow> string \<Rightarrow> string \<times> row_data \<Rightarrow> nat list \<times> nat \<Rightarrow> nat list \<times> nat" where
  "count_row config prefix row acc =
     (case acc of (counts, unrouted) \<Rightarrow>
        if \<not> starts_with (to_lowercase (fst row)) prefix then (counts, unrouted)
        else case row_partition_value config (snd row) of
               Some v \<Rightarrow> let i = segment_for_value config v in (counts[i := counts ! i + 1], unrouted)
             | None \<Rightarrow> (counts, unrouted + 1))"

definition per_segment_row_counts ::
  "paged_row_store \<Rightarrow> string \<Rightarrow> range_partition_config \<Rightarrow> nat list \<times> nat" where
  "per_segment_row_counts rs table config =
     fold (count_row config (to_lowercase table @ '':'')) (scan_at_snapshot rs (current_xid rs))
       (replicate (segment_count config) 0, 0)"

section \<open>Shards\<close>

datatype shard_key = HashKey string | RangeKey string int int | RoundRobin

record shard_config =
  sc_shard_count :: nat
  sc_replication_factor :: nat
  sc_key :: shard_key

definition fnv1a_hash :: "string \<Rightarrow> 64 word" where
  "fnv1a_hash s =
     fold (\<lambda>byte hash. (hash XOR of_nat (of_char byte)) * 1099511628211) s 14695981039346656037"

definition shard_router_new :: "shard_config \<Rightarrow> shard_config option" where
  "shard_router_new config = (if sc_shard_count config > 0 then Some config else None)"

definition shard_for_row :: "shard_config \<Rightarrow> string \<Rightarrow> nat" where
  "shard_for_row config key = unat (fnv1a_hash key) mod sc_shard_count config"

definition all_shards :: "shard_config \<Rightarrow> nat list" where
  "all_shards config = [0..<sc_shard_count config]"

definition shards_for_range :: "shard_config \<Rightarrow> int \<Rightarrow> int \<Rightarrow> nat list" where
  "shards_for_range config lo hi =
     (case sc_key config of
        RangeKey _ shard_min shard_max \<Rightarrow>
          if hi < shard_min \<or> lo > shard_max then [] else all_shards config
      | _ \<Rightarrow> all_shards config)"

record shard_table_config =
  st_column :: string
  st_shard_count :: nat

fun shards_clause :: "string list \<Rightarrow> string option" where
  "shards_clause (w # v # ws) = (if w = ''shards'' then Some v else shards_clause (v # ws))"
| "shards_clause _ = None"

definition parse_distribute_by :: "string \<Rightarrow> nat \<Rightarrow> shard_table_config option" where
  "parse_distribute_by ddl default_shards =
     (let lower = to_lowercase ddl
      in case find_str lower ''distribute by'' of
           None \<Rightarrow> None
         | Some idx \<Rightarrow>
             let after = drop (idx + 13) lower
             in (case find_str after ''hash'' of
                   None \<Rightarrow> None
                 | Some hidx \<Rightarrow>
                     (case in_parens (drop (hidx + 4) after) of
                        None \<Rightarrow> None
                      | Some (inner, tail) \<Rightarrow>
                          let column = trim inner
                          in if column = [] then None
                             else Some \<lparr>st_column = column,
                                        st_shard_count =
                                          (case Option.bind (shards_clause (split_whitespace tail))
                                                  (\<lambda>w. parse_uint 64 (trim_end_by (\<lambda>c. c \<in> set '',;)'') w)) of
                                             Some n \<Rightarrow> if n > 0 then n else default_shards
                                           | None \<Rightarrow> default_shards)\<rparr>)))"

definition shard_for_key :: "nat \<Rightarrow> string \<Rightarrow> nat" where
  "shard_for_key shard_count key =
     (if shard_count \<le> 1 then 0 else unat (fnv1a_hash key) mod shard_count)"

definition owning_node_index :: "nat \<Rightarrow> nat \<Rightarrow> nat" where
  "owning_node_index shard_id node_count = (if node_count = 0 then 0 else shard_id mod node_count)"

type_synonym shard_registry = "string \<rightharpoonup> shard_table_config"

definition register_shard_config :: "string \<Rightarrow> shard_table_config \<Rightarrow> shard_registry \<Rightarrow> shard_registry" where
  "register_shard_config table config reg = reg(to_lowercase table \<mapsto> config)"

definition lookup_shard_config :: "shard_registry \<Rightarrow> string \<Rightarrow> shard_table_config option" where
  "lookup_shard_config reg table = reg (to_lowercase table)"

record shard_info_response =
  si_table :: string
  si_sharded :: bool
  si_column :: "string option"
  si_shard_count :: nat
  si_node_count :: nat
  si_shard_owners :: "nat list"
  si_per_shard_row_counts :: "nat list"

text \<open>The handlers after the check of the cluster token, with the addresses of the other nodes.\<close>

definition cluster_shard_info ::
  "shard_registry \<Rightarrow> string list \<Rightarrow> paged_row_store \<Rightarrow> string \<Rightarrow> shard_info_response option" where
  "cluster_shard_info reg peers rs table =
     (let node_count = 1 + length peers
      in case lookup_shard_config reg table of
           None \<Rightarrow> Some \<lparr>si_table = table, si_sharded = False, si_column = None, si_shard_count = 0,
                         si_node_count = node_count, si_shard_owners = [], si_per_shard_row_counts = []\<rparr>
         | Some cfg \<Rightarrow>
             map_option (\<lambda>counts.
                 \<lparr>si_table = table, si_sharded = True, si_column = Some (st_column cfg),
                  si_shard_count = st_shard_count cfg, si_node_count = node_count,
                  si_shard_owners = map (\<lambda>s. owning_node_index s node_count) [0..<st_shard_count cfg],
                  si_per_shard_row_counts = counts\<rparr>)
               (fold_opt (\<lambda>row counts.
                   case strip_prefix (to_lowercase table @ '':'') (fst row) of
                     None \<Rightarrow> Some counts
                   | Some pk \<Rightarrow>
                       let shard = shard_for_key (st_shard_count cfg) pk
                       in if shard < length counts then Some (counts[shard := counts ! shard + 1]) else None)
                 (scan_at_snapshot rs (current_xid rs)) (replicate (st_shard_count cfg) 0)))"

record shard_route_response =
  sr_table :: string
  sr_sharded :: bool
  sr_shard_id :: nat
  sr_owning_node_index :: nat
  sr_is_local :: bool

definition cluster_shard_route ::
  "shard_registry \<Rightarrow> string list \<Rightarrow> string \<Rightarrow> string \<Rightarrow> shard_route_response" where
  "cluster_shard_route reg peers table primary_key =
     (let node_count = 1 + length peers
      in case lookup_shard_config reg table of
           None \<Rightarrow> \<lparr>sr_table = table, sr_sharded = False, sr_shard_id = 0, sr_owning_node_index = 0,
                    sr_is_local = True\<rparr>
         | Some cfg \<Rightarrow>
             let shard_id = shard_for_key (st_shard_count cfg) primary_key;
                 owner = owning_node_index shard_id node_count
             in \<lparr>sr_table = table, sr_sharded = True, sr_shard_id = shard_id, sr_owning_node_index = owner,
                 sr_is_local = (owner = 0)\<rparr>)"

section \<open>Pruned scans\<close>

text \<open>The rows that a router puts into a segment.\<close>

definition segment_rows :: "('k \<Rightarrow> 's option) \<Rightarrow> ('k \<times> 'r) list \<Rightarrow> 's \<Rightarrow> ('k \<times> 'r) list" where
  "segment_rows route rows s = filter (\<lambda>(k, r). route k = Some s) rows"

locale pruning_router =
  fixes route :: "'k \<Rightarrow> 's option"
    and holds :: "'p \<Rightarrow> 'k \<Rightarrow> bool"
    and prune :: "'p \<Rightarrow> 's list"
  assumes prune_sound: "route k = Some s \<Longrightarrow> holds p k \<Longrightarrow> s \<in> set (prune p)"
begin

lemma pruned_scan:
  "set (filter (\<lambda>(k, r). holds p k) (concat (map (segment_rows route rows) (prune p)))) =
     {(k, r). (k, r) \<in> set rows \<and> holds p k \<and> route k \<noteq> None}"
  by (auto simp: segment_rows_def intro: prune_sound)

end

definition routed_segment :: "(string \<Rightarrow> nat) \<Rightarrow> partition_type \<Rightarrow> string \<Rightarrow> segment_id option" where
  "routed_segment hash_value pt key =
     (case route_to_segment hash_value pt key of Some (Inr s) \<Rightarrow> Some s | _ \<Rightarrow> None)"

lemma in_range_overlap:
  "value_in_range k l1 u1 \<Longrightarrow> value_in_range k l2 u2 \<Longrightarrow> ranges_overlap l1 u1 l2 u2"
  by (auto simp: value_in_range_def ranges_overlap_def split: option.splits)

lemma segment_router_sound:
  assumes "routed_segment hash_value pt k = Some s" and "value_in_range k lower upper"
  shows "s \<in> set (prune_segments pt lower upper)"
proof (cases pt)
  case PNone
  with assms(1) show ?thesis
    by (simp add: routed_segment_def route_to_segment_def prune_segments_def)
next
  case (PRange scheme)
  with assms(1) obtain p
    where p: "find (\<lambda>p. value_in_range k (rp_lower_bound p) (rp_upper_bound p)) (rs_ranges scheme) = Some p"
      and s: "s = rp_segment_id p"
    by (auto simp: routed_segment_def route_to_segment_def split: option.splits)
  from find_SomeD [OF p] assms(2) have "p \<in> set (rs_ranges scheme)"
    and "ranges_overlap (rp_lower_bound p) (rp_upper_bound p) lower upper"
    by (auto intro: in_range_overlap)
  then have "s \<in> set (map rp_segment_id (filter (\<lambda>p. ranges_overlap (rp_lower_bound p)
      (rp_upper_bound p) lower upper) (rs_ranges scheme)))"
    using s by auto
  with PRange show ?thesis by (auto simp: prune_segments_def Let_def)
next
  case (PHash scheme)
  with assms(1) show ?thesis
    by (auto simp: routed_segment_def route_to_segment_def prune_segments_def Let_def split: if_splits)
qed

interpretation segment_router: pruning_router
  "routed_segment hash_value pt" "\<lambda>(lower, upper) k. value_in_range k lower upper"
  "\<lambda>(lower, upper). prune_segments pt lower upper" for hash_value pt
  by unfold_locales (auto intro: segment_router_sound)

section \<open>Range partitions\<close>

lemma position_Some:
  "position P xs = Some i \<longleftrightarrow> i < length xs \<and> P (xs ! i) \<and> (\<forall>j < i. \<not> P (xs ! j))"
proof (induction xs arbitrary: i)
  case (Cons x xs)
  then show ?case by (cases i) (auto simp: All_less_Suc2)
qed simp

lemma position_None: "position P xs = None \<longleftrightarrow> (\<forall>x\<in>set xs. \<not> P x)"
  by (induction xs) auto

lemma position_antimono:
  assumes "\<And>x. Q x \<Longrightarrow> P x" and "position Q xs = Some j"
  obtains i where "position P xs = Some i" and "i \<le> j"
proof (cases "position P xs")
  case None
  moreover have "Q (xs ! j)" and "xs ! j \<in> set xs" using assms(2) by (simp_all add: position_Some)
  ultimately have False using assms(1) by (auto simp: position_None)
  then show ?thesis ..
next
  case (Some i)
  with assms have "i \<le> j" by (auto simp: position_Some intro: leI)
  with Some that show ?thesis by blast
qed

lemma segment_for_value_le: "segment_for_value config v \<le> length (rc_boundaries config)"
  by (auto simp: segment_for_value_def position_Some split: option.splits)

lemma segment_for_value_mono:
  assumes "v \<le> w"
  shows "segment_for_value config v \<le> segment_for_value config w"
proof (cases "position (\<lambda>b. w < b) (rc_boundaries config)")
  case None
  then show ?thesis
    using segment_for_value_le by (simp add: segment_for_value_def)
next
  case (Some j)
  have "v < b" if "w < b" for b using that assms by simp
  then obtain i where "position (\<lambda>b. v < b) (rc_boundaries config) = Some i" and "i \<le> j"
    using position_antimono [of "\<lambda>b. w < b" "\<lambda>b. v < b", OF _ Some] by blast
  with Some show ?thesis by (simp add: segment_for_value_def)
qed

fun op_holds :: "range_op \<Rightarrow> int \<Rightarrow> int \<Rightarrow> bool" where
  "op_holds Lt w v \<longleftrightarrow> v < w"
| "op_holds Le w v \<longleftrightarrow> v \<le> w"
| "op_holds Gt w v \<longleftrightarrow> v > w"
| "op_holds Ge w v \<longleftrightarrow> v \<ge> w"
| "op_holds Eq w v \<longleftrightarrow> v = w"

lemma prune_range_sound:
  assumes "op_holds op w v"
  shows "segment_for_value config v \<in> set (prune_range_segments config op w)"
  using assms segment_for_value_le [of config v] segment_for_value_mono [of v w config]
    segment_for_value_mono [of w v config]
  by (cases op) (auto simp: prune_range_segments_def Let_def segment_count_def)

interpretation range_router: pruning_router
  "\<lambda>v. Some (segment_for_value config v)" "\<lambda>(op, w). op_holds op w"
  "\<lambda>(op, w). prune_range_segments config op w" for config
  by unfold_locales (auto intro: prune_range_sound)

definition config_wf :: "range_partition_config \<Rightarrow> bool" where
  "config_wf config \<longleftrightarrow> sorted_wrt (<) (rc_boundaries config)"

lemma sorted_remdups_adj_less: "sorted xs \<Longrightarrow> sorted_wrt (<) (remdups_adj xs)" for xs :: "int list"
proof (induction xs rule: remdups_adj.induct)
  case (3 x y xs)
  show ?case
  proof (cases "x = y")
    case False
    with 3 have "\<forall>z\<in>set (y # xs). x < z" by fastforce
    with 3 False show ?thesis by simp
  qed (use 3 in simp)
qed simp_all

lemma parse_range_partition_wf: "parse_range_partition ddl = Some config \<Longrightarrow> config_wf config"
  by (auto simp: parse_range_partition_def Let_def config_wf_def sorted_remdups_adj_less
      split: option.splits if_splits)

lemma segment_for_value_interval:
  assumes "config_wf config" and "i \<le> length (rc_boundaries config)"
  shows "segment_for_value config v = i \<longleftrightarrow>
    (i = 0 \<or> rc_boundaries config ! (i - 1) \<le> v) \<and> (i = length (rc_boundaries config) \<or> v < rc_boundaries config ! i)"
    (is "_ \<longleftrightarrow> ?in i")
proof -
  let ?bs = "rc_boundaries config"
  have mono: "?bs ! j \<le> ?bs ! k" if "j \<le> k" "k < length ?bs" for j k
    using assms(1) that by (cases "j = k") (auto simp: config_wf_def sorted_wrt_iff_nth_less intro: less_imp_le)
  have own: "?in (segment_for_value config v)"
  proof (cases "position (\<lambda>b. v < b) ?bs")
    case None
    then have "\<forall>b\<in>set ?bs. b \<le> v" by (auto simp: position_None)
    then have "?bs = [] \<or> ?bs ! (length ?bs - 1) \<le> v" by (cases "?bs = []") simp_all
    then show ?thesis using None by (auto simp: segment_for_value_def)
  next
    case (Some j)
    then have "j < length ?bs \<and> v < ?bs ! j \<and> (\<forall>k < j. ?bs ! k \<le> v)" by (auto simp: position_Some not_less)
    moreover from this have "j = 0 \<or> ?bs ! (j - 1) \<le> v" by (cases j) simp_all
    ultimately show ?thesis using Some by (auto simp: segment_for_value_def)
  qed
  show ?thesis
  proof
    assume "?in i"
    show "segment_for_value config v = i"
    proof (rule ccontr)
      let ?k = "segment_for_value config v"
      assume "?k \<noteq> i"
      then consider "?k < i" | "i < ?k" by linarith
      then show False
      proof cases
        case 1
        then have "v < ?bs ! ?k" using own assms(2) by auto
        moreover have "?bs ! ?k \<le> ?bs ! (i - 1)"
          using 1 assms(2) by (intro mono) simp_all
        ultimately show False using \<open>?in i\<close> 1 by auto
      next
        case 2
        then have "?bs ! (?k - 1) \<le> v" using own by auto
        moreover have "?bs ! i \<le> ?bs ! (?k - 1)"
          using 2 segment_for_value_le [of config v] by (intro mono) simp_all
        ultimately show False using \<open>?in i\<close> 2 segment_for_value_le [of config v] by auto
      qed
    qed
  qed (use own in simp)
qed

section \<open>Counting rows\<close>

lemma sum_list_bump: "i < length xs \<Longrightarrow> sum_list (xs[i := Suc (xs ! i)]) = Suc (sum_list xs)"
  by (simp add: sum_list_update)

lemma count_row_total:
  assumes "length counts = segment_count config"
  shows "length (fst (count_row config prefix row (counts, u))) = segment_count config"
    and "sum_list (fst (count_row config prefix row (counts, u))) + snd (count_row config prefix row (counts, u)) =
      sum_list counts + u + (if starts_with (to_lowercase (fst row)) prefix then 1 else 0)"
proof -
  have "segment_for_value config v < length counts" for v
    using assms segment_for_value_le [of config v] by (simp add: segment_count_def)
  then show "length (fst (count_row config prefix row (counts, u))) = segment_count config"
    and "sum_list (fst (count_row config prefix row (counts, u))) + snd (count_row config prefix row (counts, u)) =
      sum_list counts + u + (if starts_with (to_lowercase (fst row)) prefix then 1 else 0)"
    using assms by (simp_all add: count_row_def Let_def sum_list_bump split: option.split)
qed

lemma count_rows_total:
  assumes "length counts = segment_count config"
  shows "sum_list (fst (fold (count_row config prefix) rows (counts, u))) +
      snd (fold (count_row config prefix) rows (counts, u)) =
    sum_list counts + u + length (filter (\<lambda>row. starts_with (to_lowercase (fst row)) prefix) rows)"
  using assms
proof (induction rows arbitrary: counts u)
  case (Cons row rows)
  obtain counts' u' where step: "count_row config prefix row (counts, u) = (counts', u')"
    by (cases "count_row config prefix row (counts, u)")
  from count_row_total [OF Cons.prems, of prefix row u] step
  have "length counts' = segment_count config"
    and "sum_list counts' + u' = sum_list counts + u + (if starts_with (to_lowercase (fst row)) prefix then 1 else 0)"
    by simp_all
  with Cons.IH [of counts' u'] step show ?case by simp
qed simp

section \<open>Properties\<close>

text \<open>
  C17: Pruning loses no row: for every partition scheme, scanning only the segments that pruning leaves
  for a range predicate, and filtering there, yields exactly the matching rows among all rows that the
  router could place. The same holds for the range partitions of a table and all five comparison
  operators.
\<close>

theorem partition_pruning_complete:
  "set (filter (\<lambda>(k, r). value_in_range k lower upper)
      (concat (map (segment_rows (routed_segment hash_value pt) rows) (prune_segments pt lower upper)))) =
    {(k, r). (k, r) \<in> set rows \<and> value_in_range k lower upper \<and> routed_segment hash_value pt k \<noteq> None} \<and>
   set (filter (\<lambda>(v, r). op_holds op w v)
      (concat (map (segment_rows (\<lambda>v. Some (segment_for_value config v)) vrows)
        (prune_range_segments config op w)))) =
    {(v, r). (v, r) \<in> set vrows \<and> op_holds op w v}"
proof
  show "set (filter (\<lambda>(k, r). value_in_range k lower upper)
      (concat (map (segment_rows (routed_segment hash_value pt) rows) (prune_segments pt lower upper)))) =
    {(k, r). (k, r) \<in> set rows \<and> value_in_range k lower upper \<and> routed_segment hash_value pt k \<noteq> None}"
    using segment_router.pruned_scan [of "(lower, upper)" hash_value pt rows] by (simp only: split_conv)
  show "set (filter (\<lambda>(v, r). op_holds op w v)
      (concat (map (segment_rows (\<lambda>v. Some (segment_for_value config v)) vrows)
        (prune_range_segments config op w)))) = {(v, r). (v, r) \<in> set vrows \<and> op_holds op w v}"
    using range_router.pruned_scan [of "(op, w)" config vrows] by simp
qed

text \<open>
  The segments of a partitioned table cut the integers into consecutive half-open intervals: the
  configuration that the parser reads from a CREATE TABLE statement routes every value to the one
  segment whose lower boundary it reaches and whose upper boundary it stays below.
\<close>

theorem range_partition_exact:
  assumes "parse_range_partition ddl = Some config"
  shows "segment_for_value config v < segment_count config \<and>
    (\<forall>i < segment_count config. segment_for_value config v = i \<longleftrightarrow>
       (i = 0 \<or> rc_boundaries config ! (i - 1) \<le> v) \<and>
       (i = length (rc_boundaries config) \<or> v < rc_boundaries config ! i))"
proof -
  have "i \<le> length (rc_boundaries config)" if "i < segment_count config" for i
    using that by (simp add: segment_count_def)
  then show ?thesis
    using segment_for_value_interval [OF parse_range_partition_wf [OF assms]]
      segment_for_value_le [of config v] by (simp add: segment_count_def less_Suc_eq_le)
qed

definition demo_ddl :: string where
  "demo_ddl = ''CREATE TABLE t (ts INT) PARTITION BY RANGE (ts) BOUNDARIES (20, 10, 20)''"

lemma demo_ddl_parses:
  "parse_range_partition demo_ddl = Some \<lparr>rc_column = ''ts'', rc_boundaries = [10, 20]\<rparr>"
  by code_simp

theorem range_partition_exact_witness:
  "segment_for_value \<lparr>rc_column = ''ts'', rc_boundaries = [10, 20]\<rparr> 15 = 1 \<longleftrightarrow> (10 :: int) \<le> 15 \<and> (15 :: int) < 20"
  using range_partition_exact [OF demo_ddl_parses, of 15] by (simp add: segment_count_def)

text \<open>
  The row counts per segment add up: together with the rows that have no usable partition value they
  are all visible rows of the table.
\<close>

theorem per_segment_counts_total:
  "sum_list (fst (per_segment_row_counts rs table config)) + snd (per_segment_row_counts rs table config) =
     length (filter (\<lambda>(k, d). starts_with (to_lowercase k) (to_lowercase table @ '':''))
       (scan_at_snapshot rs (current_xid rs)))"
proof -
  have "length (replicate (segment_count config) (0 :: nat)) = segment_count config" by simp
  from count_rows_total [OF this] show ?thesis
    by (simp add: per_segment_row_counts_def split_def)
qed

text \<open>
  A row key always has a shard, and a range query reaches the shard of every row in the declared range.
\<close>

theorem shard_for_row_reached:
  assumes "shard_router_new config = Some router" and "lo \<le> x" and "x \<le> hi"
    and "\<And>col l u. sc_key config = RangeKey col l u \<Longrightarrow> l \<le> x \<and> x \<le> u"
  shows "shard_for_row router key \<in> set (shards_for_range router lo hi)"
proof (cases "sc_key config")
  case (RangeKey col l u)
  with assms have "l \<le> x" "x \<le> u" by blast+
  with assms RangeKey show ?thesis
    by (auto simp: shard_router_new_def shard_for_row_def shards_for_range_def all_shards_def split: if_splits)
qed (use assms in \<open>auto simp: shard_router_new_def shard_for_row_def shards_for_range_def all_shards_def
    split: if_splits\<close>)

text \<open>
  Ownership of a shard is computed relative to the asking node, so the nodes of a cluster do not
  agree on it: every node of a cluster gives the same answer to whether a key is local, which
  makes the keys of some shards local everywhere and the keys of the other shards local nowhere.
\<close>

theorem shard_owner_not_shared:
  assumes "lookup_shard_config reg table = Some cfg" and "length peers' = length peers"
  shows "(sr_is_local (cluster_shard_route reg peers table key) \<longleftrightarrow>
      shard_for_key (st_shard_count cfg) key mod (1 + length peers) = 0) \<and>
    sr_is_local (cluster_shard_route reg peers' table key) =
      sr_is_local (cluster_shard_route reg peers table key)"
  using assms by (simp add: cluster_shard_route_def owning_node_index_def Let_def)

end
