(* ===== verification/Placement.thy ===== *)
theory Placement
  imports Vng_Text
begin

text \<open>
  Which node owns which partition: \<^verbatim>\<open>crates/voltnuerongrid-store/src/partition_placement.rs\<close>. The registry
  holds the nodes, the placements and the rebalance plans; routing a query applies five rules in order.

  The maps are association lists, since listings and counts iterate over them. The lock of each map and
  the atomic counters are the sequential state; the clock is an argument.
\<close>

datatype node_role = Oltp | OlapSnapshot | Hybrid

record cluster_node =
  cn_node_id :: string
  cn_role :: node_role
  cn_base_url :: string
  cn_available :: bool
  cn_last_heartbeat_ms :: nat

record partition_placement =
  pp_partition_id :: nat
  pp_table_name :: string
  pp_primary_node_id :: string
  pp_replica_node_ids :: "string list"
  pp_olap_snapshot_node_ids :: "string list"
  pp_version :: nat

datatype rebalance_status = Pending | InProgress | Complete | Failed string

record rebalance_plan =
  rb_plan_id :: string
  rb_partition_id :: nat
  rb_from_node_id :: string
  rb_to_node_id :: string
  rb_reason :: string
  rb_estimated_bytes :: nat
  rb_status :: rebalance_status
  rb_created_at_ms :: nat

datatype distributed_access_path = LocalHybrid | RemoteOltp | RemoteOlapSnapshot | BroadcastHybrid

record routing_decision =
  rd_partition_id :: nat
  rd_target_node_id :: string
  rd_access_path :: distributed_access_path
  rd_reason :: string

record placement_metrics =
  pm_partition_count :: nat
  pm_node_count :: nat
  pm_olap_snapshot_node_count :: nat
  pm_rebalances_total :: nat
  pm_rebalance_failures_total :: nat
  pm_routing_decisions_total :: nat

record placement_registry =
  pr_local_node_id :: string
  pr_local_role :: node_role
  pr_placements :: "(nat \<times> partition_placement) list"
  pr_nodes :: "(string \<times> cluster_node) list"
  pr_rebalance_plans :: "rebalance_plan list"
  pr_routing_decisions_total :: nat
  pr_rebalances_total :: nat
  pr_rebalance_failures_total :: nat

definition registry_new :: "string \<Rightarrow> node_role \<Rightarrow> placement_registry" where
  "registry_new local_node_id local_role =
     \<lparr>pr_local_node_id = local_node_id, pr_local_role = local_role, pr_placements = [], pr_nodes = [],
      pr_rebalance_plans = [], pr_routing_decisions_total = 0, pr_rebalances_total = 0,
      pr_rebalance_failures_total = 0\<rparr>"

section \<open>Nodes and placements\<close>

definition register_node :: "cluster_node \<Rightarrow> placement_registry \<Rightarrow> placement_registry" where
  "register_node node reg = reg\<lparr>pr_nodes := AList.update (cn_node_id node) node (pr_nodes reg)\<rparr>"

definition get_node :: "placement_registry \<Rightarrow> string \<Rightarrow> cluster_node option" where
  "get_node reg node_id = map_of (pr_nodes reg) node_id"

definition list_nodes :: "placement_registry \<Rightarrow> cluster_node list" where
  "list_nodes reg = map snd (pr_nodes reg)"

definition nodes_by_role :: "placement_registry \<Rightarrow> node_role \<Rightarrow> cluster_node list" where
  "nodes_by_role reg role = filter (\<lambda>n. cn_role n = role) (map snd (pr_nodes reg))"

definition register_placement :: "partition_placement \<Rightarrow> placement_registry \<Rightarrow> placement_registry" where
  "register_placement p reg = reg\<lparr>pr_placements := AList.update (pp_partition_id p) p (pr_placements reg)\<rparr>"

definition get_placement :: "placement_registry \<Rightarrow> nat \<Rightarrow> partition_placement option" where
  "get_placement reg partition_id = map_of (pr_placements reg) partition_id"

definition list_placements :: "placement_registry \<Rightarrow> partition_placement list" where
  "list_placements reg = map snd (pr_placements reg)"

section \<open>Routing\<close>

definition snapshot_node_available :: "placement_registry \<Rightarrow> string \<Rightarrow> bool" where
  "snapshot_node_available reg nid =
     (case get_node reg nid of Some n \<Rightarrow> cn_available n \<and> cn_role n = OlapSnapshot | None \<Rightarrow> False)"

definition route_query ::
  "nat \<Rightarrow> bool \<Rightarrow> bool \<Rightarrow> placement_registry \<Rightarrow> routing_decision \<times> placement_registry" where
  "route_query partition_id is_write prefer_olap_snapshot reg =
     (let placement = get_placement reg partition_id;
          local_node = pr_local_node_id reg;
          decide = (\<lambda>target path reason.
            \<lparr>rd_partition_id = partition_id, rd_target_node_id = target, rd_access_path = path,
             rd_reason = reason\<rparr>);
          snapshot = (case placement of
              Some p \<Rightarrow> if prefer_olap_snapshot \<and> \<not> is_write
                        then find (snapshot_node_available reg) (pp_olap_snapshot_node_ids p) else None
            | None \<Rightarrow> None)
      in (if (case placement of Some p \<Rightarrow> pp_primary_node_id p = local_node | None \<Rightarrow> False)
          then decide local_node LocalHybrid ''local node is primary OLTP owner''
          else case snapshot of
            Some node_id \<Rightarrow> decide node_id RemoteOlapSnapshot ''dedicated OlapSnapshot node available''
          | None \<Rightarrow>
              if \<not> is_write \<and> pr_local_role reg = OlapSnapshot
              then decide local_node LocalHybrid ''local OlapSnapshot node serving read''
              else case placement of
                Some p \<Rightarrow>
                  if is_write \<and> pp_primary_node_id p \<noteq> [] \<and> pp_primary_node_id p \<noteq> local_node
                  then decide (pp_primary_node_id p) RemoteOltp ''forwarding write to remote OLTP primary''
                  else decide local_node LocalHybrid ''fallback: local hybrid''
              | None \<Rightarrow> decide local_node LocalHybrid ''fallback: local hybrid'',
          reg\<lparr>pr_routing_decisions_total := pr_routing_decisions_total reg + 1\<rparr>))"

definition can_accept_write :: "placement_registry \<Rightarrow> nat \<Rightarrow> (unit, string) result" where
  "can_accept_write reg partition_id =
     (if pr_local_role reg = OlapSnapshot
      then Err (''node '' @ [CHR 0x27] @ pr_local_node_id reg @ [CHR 0x27] @
                '' is OlapSnapshot and cannot accept writes for partition PartitionId('' @
                show_nat partition_id @ '')'')
      else Ok ())"

section \<open>Rebalancing\<close>

definition create_rebalance_plan ::
  "nat \<Rightarrow> nat \<Rightarrow> string \<Rightarrow> string \<Rightarrow> string \<Rightarrow> nat \<Rightarrow> placement_registry \<Rightarrow>
   rebalance_plan \<times> placement_registry" where
  "create_rebalance_plan now_ms partition_id from_node to_node reason estimated_bytes reg =
     (let plan = \<lparr>rb_plan_id = ''plan-'' @ show_nat partition_id @ ''-'' @ show_nat now_ms,
                  rb_partition_id = partition_id, rb_from_node_id = from_node, rb_to_node_id = to_node,
                  rb_reason = reason, rb_estimated_bytes = estimated_bytes, rb_status = Pending,
                  rb_created_at_ms = now_ms\<rparr>
      in (plan, reg\<lparr>pr_rebalances_total := pr_rebalances_total reg + 1,
                    pr_rebalance_plans := pr_rebalance_plans reg @ [plan]\<rparr>))"

definition update_rebalance_status ::
  "string \<Rightarrow> rebalance_status \<Rightarrow> placement_registry \<Rightarrow> placement_registry" where
  "update_rebalance_status plan_id status reg =
     (let reg1 = (case status of
              Failed _ \<Rightarrow> reg\<lparr>pr_rebalance_failures_total := pr_rebalance_failures_total reg + 1\<rparr>
            | _ \<Rightarrow> reg)
      in case update_first (\<lambda>p. rb_plan_id p = plan_id) (rb_status_update (\<lambda>_. status))
                (pr_rebalance_plans reg1) of
           Some plans \<Rightarrow> reg1\<lparr>pr_rebalance_plans := plans\<rparr>
         | None \<Rightarrow> reg1)"

definition pending_rebalance_plans :: "placement_registry \<Rightarrow> rebalance_plan list" where
  "pending_rebalance_plans reg = filter (\<lambda>p. rb_status p = Pending) (pr_rebalance_plans reg)"

definition registry_metrics :: "placement_registry \<Rightarrow> placement_metrics" where
  "registry_metrics reg =
     \<lparr>pm_partition_count = length (pr_placements reg), pm_node_count = length (pr_nodes reg),
      pm_olap_snapshot_node_count = length (filter (\<lambda>n. cn_role n = OlapSnapshot) (map snd (pr_nodes reg))),
      pm_rebalances_total = pr_rebalances_total reg,
      pm_rebalance_failures_total = pr_rebalance_failures_total reg,
      pm_routing_decisions_total = pr_routing_decisions_total reg\<rparr>"

section \<open>The maps\<close>

text \<open>Every key of a map is the identifier of its value, and each identifier occurs once.\<close>

definition registry_wf :: "placement_registry \<Rightarrow> bool" where
  "registry_wf reg \<longleftrightarrow>
     distinct (map fst (pr_nodes reg)) \<and> distinct (map fst (pr_placements reg)) \<and>
     (\<forall>(k, n)\<in>set (pr_nodes reg). cn_node_id n = k) \<and>
     (\<forall>(k, p)\<in>set (pr_placements reg). pp_partition_id p = k)"

inductive registry_step :: "placement_registry \<Rightarrow> placement_registry \<Rightarrow> bool" where
  step_register_node: "registry_step reg (register_node node reg)"
| step_register_placement: "registry_step reg (register_placement p reg)"
| step_route: "registry_step reg (snd (route_query partition_id is_write prefer reg))"
| step_plan: "registry_step reg (snd (create_rebalance_plan now pid src dst reason bytes reg))"
| step_status: "registry_step reg (update_rebalance_status plan_id status reg)"

lemma set_update_keys:
  "\<forall>(k, v)\<in>set xs. f v = k \<Longrightarrow> \<forall>(k, v)\<in>set (AList.update (f w) w xs). f v = k"
  by (induction xs) auto

lemma registry_wf_step:
  assumes "registry_wf reg" and "registry_step reg reg'"
  shows "registry_wf reg'"
  using assms(2,1)
proof (cases rule: registry_step.cases)
  case (step_register_node node)
  with assms(1) set_update_keys [of "pr_nodes reg" cn_node_id node] show ?thesis
    by (simp add: registry_wf_def register_node_def distinct_update)
next
  case (step_register_placement p)
  with assms(1) set_update_keys [of "pr_placements reg" pp_partition_id p] show ?thesis
    by (simp add: registry_wf_def register_placement_def distinct_update)
qed (simp_all add: registry_wf_def route_query_def create_rebalance_plan_def update_rebalance_status_def
    Let_def split: rebalance_status.splits option.splits)

lemma registry_wf_new [simp]: "registry_wf (registry_new n r)"
  by (simp add: registry_wf_def registry_new_def)

interpretation placement: invariant_system
  "\<lambda>reg. \<exists>n r. reg = registry_new n r" registry_step registry_wf
  by unfold_locales (auto intro: registry_wf_step)

section \<open>Properties\<close>

text \<open>
  C40: A write is routed to the primary of its partition and nowhere else, and a read that asks for a
  snapshot node is routed to the first available snapshot node of the partition unless the local node
  is the primary; in a reachable registry that node is registered under this name, available and a
  snapshot node.
\<close>

theorem placement_routes_to_owner:
  assumes "registry_new me role = reg0" and "reaches registry_step reg0 reg"
    and "get_placement reg pid = Some p" and "pp_primary_node_id p \<noteq> []"
  shows "rd_target_node_id (fst (route_query pid True prefer reg)) = pp_primary_node_id p \<and>
    (pp_primary_node_id p \<noteq> pr_local_node_id reg \<longrightarrow>
     find (snapshot_node_available reg) (pp_olap_snapshot_node_ids p) = Some nid \<longrightarrow>
     rd_target_node_id (fst (route_query pid False True reg)) = nid \<and>
     rd_access_path (fst (route_query pid False True reg)) = RemoteOlapSnapshot \<and>
     (\<exists>n. get_node reg nid = Some n \<and> cn_node_id n = nid \<and> cn_available n \<and> cn_role n = OlapSnapshot))"
proof -
  have "registry_wf reg" using assms(1,2) by (intro placement.reachable_inv) auto
  then have key: "get_node reg nid = Some n \<Longrightarrow> cn_node_id n = nid" for nid n
    by (auto simp: registry_wf_def get_node_def dest: map_of_SomeD)
  have "\<exists>n. get_node reg nid = Some n \<and> cn_node_id n = nid \<and> cn_available n \<and> cn_role n = OlapSnapshot"
    if "find (snapshot_node_available reg) (pp_olap_snapshot_node_ids p) = Some nid"
    using find_SomeD [OF that] key by (auto simp: snapshot_node_available_def split: option.splits)
  with assms(3,4) show ?thesis by (auto simp: route_query_def Let_def)
qed

theorem placement_routes_to_owner_witness:
  "let p = \<lparr>pp_partition_id = 7, pp_table_name = ''t'', pp_primary_node_id = ''b'', pp_replica_node_ids = [],
            pp_olap_snapshot_node_ids = [''c''], pp_version = 1\<rparr>;
       c = \<lparr>cn_node_id = ''c'', cn_role = OlapSnapshot, cn_base_url = [], cn_available = True, cn_last_heartbeat_ms = 0\<rparr>;
       reg = register_node c (register_placement p (registry_new ''a'' Oltp))
   in rd_target_node_id (fst (route_query 7 True False reg)) = ''b'' \<and>
      rd_target_node_id (fst (route_query 7 False True reg)) = ''c''"
proof -
  let ?p = "\<lparr>pp_partition_id = 7, pp_table_name = ''t'', pp_primary_node_id = ''b'', pp_replica_node_ids = [],
    pp_olap_snapshot_node_ids = [''c''], pp_version = 1\<rparr>"
  let ?c = "\<lparr>cn_node_id = ''c'', cn_role = OlapSnapshot, cn_base_url = [], cn_available = True, cn_last_heartbeat_ms = 0\<rparr>"
  let ?reg = "register_node ?c (register_placement ?p (registry_new ''a'' Oltp))"
  have "reaches registry_step (registry_new ''a'' Oltp) ?reg"
    by (rule reaches_step [OF reaches_single [where step = registry_step, OF step_register_placement] step_register_node])
  note routed = placement_routes_to_owner [OF refl this, of 7 ?p]
  have "get_placement ?reg 7 = Some ?p" "pr_local_node_id ?reg = ''a''"
    "find (snapshot_node_available ?reg) [''c''] = Some ''c''"
    by (simp_all add: get_placement_def register_node_def register_placement_def registry_new_def
        snapshot_node_available_def get_node_def)
  with routed [of False "''c''"] show ?thesis by (simp add: Let_def)
qed

text \<open>
  Routing ignores the role of the local node for writes: a snapshot node routes a write to a
  partition without placement to itself, although it must not accept it.
\<close>

theorem snapshot_node_routes_write_to_itself:
  assumes "pr_local_role reg = OlapSnapshot" and "get_placement reg pid = None"
  shows "rd_target_node_id (fst (route_query pid True prefer reg)) = pr_local_node_id reg \<and>
    rd_access_path (fst (route_query pid True prefer reg)) = LocalHybrid \<and>
    (\<exists>msg. can_accept_write reg pid = Err msg)"
  using assms by (simp add: route_query_def can_accept_write_def Let_def)

text \<open>
  Two plans for one partition in the same millisecond share their identifier; a status update reaches
  the first of them only.
\<close>

theorem rebalance_plan_id_collision:
  assumes "pr_rebalance_plans reg = []"
    and "create_rebalance_plan now pid a b r1 n1 reg = (plan1, reg1)"
    and "create_rebalance_plan now pid c d r2 n2 reg1 = (plan2, reg2)"
  shows "rb_plan_id plan2 = rb_plan_id plan1 \<and>
    pending_rebalance_plans (update_rebalance_status (rb_plan_id plan2) Complete reg2) = [plan2]"
  using assms
  by (auto simp: create_rebalance_plan_def update_rebalance_status_def pending_rebalance_plans_def Let_def)

end
