(* ===== verification/Row_Statements.thy ===== *)
theory Row_Statements
  imports Sql_Ast Raft_Loop
begin

text \<open>
  From statement texts to rows: \<^verbatim>\<open>services/voltnuerongridd/src/helpers/sql_parse.rs\<close> and the replay of logged
  statements in \<^verbatim>\<open>helpers/boot.rs\<close>.

  An INSERT becomes rows with the key \<^verbatim>\<open>table:first value\<close>, an UPDATE a new version of one row, a DELETE the
  key to remove. \<open>sql_dml_parser\<close> puts these functions into the place that \<open>Raft_Loop\<close> leaves open, so
  that the text of a replicated statement determines what happens to the row store. The third-party SQL
  adapter stays an argument, as in \<open>Sql_Ast\<close>. A row is a partial function from column names; the order
  in which the code inserts the columns is kept, since a later one overwrites an earlier one.

  Texts are ASCII, so positions in the upper-case copy are positions in the text.
\<close>

section \<open>Library functions on texts\<close>

text \<open>\<^verbatim>\<open>rsplit('.').next()\<close>, and the length of the text before one of the given characters.\<close>

definition after_last_dot :: "string \<Rightarrow> string" where
  "after_last_dot s = rev (takeWhile (\<lambda>c. c \<noteq> CHR ''.'') (rev s))"

definition until_one_of :: "string \<Rightarrow> string \<Rightarrow> string" where
  "until_one_of stops s = takeWhile (\<lambda>c. c \<notin> set stops) s"

text \<open>
  The texts that \<^verbatim>\<open>parse::<f64>()\<close> accepts: an optional sign, then \<^verbatim>\<open>inf\<close>, \<^verbatim>\<open>infinity\<close> or \<^verbatim>\<open>nan\<close> in any case,
  or digits with an optional point (at least one digit) and an optional exponent.
\<close>

definition strip_sign :: "string \<Rightarrow> string" where
  "strip_sign s = (case s of c # cs \<Rightarrow> if c = CHR ''+'' \<or> c = CHR ''-'' then cs else s | [] \<Rightarrow> [])"

definition is_exponent :: "string \<Rightarrow> bool" where
  "is_exponent s =
     (case s of
        [] \<Rightarrow> True
      | c # cs \<Rightarrow> (c = CHR ''e'' \<or> c = CHR ''E'') \<and> strip_sign cs \<noteq> [] \<and> list_all is_digit (strip_sign cs))"

definition is_f64 :: "string \<Rightarrow> bool" where
  "is_f64 s =
     (let body = strip_sign s;
          whole = takeWhile is_digit body;
          rest = dropWhile is_digit body;
          (fraction, rest) = (case rest of
              c # cs \<Rightarrow> if c = CHR ''.'' then (takeWhile is_digit cs, dropWhile is_digit cs) else ([], rest)
            | [] \<Rightarrow> ([], []))
      in to_lowercase body \<in> {''inf'', ''infinity'', ''nan''} \<or>
         (whole \<noteq> [] \<or> fraction \<noteq> []) \<and> is_exponent rest)"

section \<open>Keys\<close>

definition make_row_key :: "string \<Rightarrow> string \<Rightarrow> string \<Rightarrow> string" where
  "make_row_key db table row_id = (if db = [] then table @ '':'' @ row_id else db @ ''.'' @ table @ '':'' @ row_id)"

definition make_table_scan_prefix :: "string \<Rightarrow> string \<Rightarrow> string" where
  "make_table_scan_prefix db table = (if db = [] then table @ '':'' else db @ ''.'' @ table @ '':'')"

definition db_prefix_key :: "string \<Rightarrow> string \<Rightarrow> string" where
  "db_prefix_key db raw_key = (if db = [] then raw_key else db @ ''.'' @ raw_key)"

section \<open>DELETE and UPDATE\<close>

text \<open>The loops over the tokens keep their flags as arguments.\<close>

fun delete_table :: "bool \<Rightarrow> string option \<Rightarrow> token list \<Rightarrow> string option" where
  "delete_table past_from table [] = table"
| "delete_table past_from table (t # ts) =
     (if is_kw ''FROM'' t then delete_table True table ts
      else case token_as_name t of
             Some n \<Rightarrow> if past_from \<and> table = None
                       then delete_table past_from (Some (to_lowercase (after_last_dot n))) ts
                       else delete_table past_from table ts
           | None \<Rightarrow> delete_table past_from table ts)"

fun where_value :: "bool \<Rightarrow> bool \<Rightarrow> token list \<Rightarrow> string option" where
  "where_value after_where past_eq [] = None"
| "where_value after_where past_eq (t # ts) =
     (if is_kw ''WHERE'' t then where_value True past_eq ts
      else if is_sym ''='' t \<and> after_where then where_value after_where True ts
      else case t of
             StringLiteral s \<Rightarrow> if past_eq then Some s else where_value after_where past_eq ts
           | Number n \<Rightarrow> if past_eq then Some n else where_value after_where past_eq ts
           | _ \<Rightarrow> where_value after_where past_eq ts)"

definition extract_delete_key_from_sql :: "string \<Rightarrow> string option" where
  "extract_delete_key_from_sql sql =
     (let tokens = semantic_tokens sql
      in if \<not> starts_with (to_uppercase (trim_start sql)) ''DELETE'' then None
         else map_option (\<lambda>s. case delete_table False None tokens of Some t \<Rightarrow> t @ '':'' @ s | None \<Rightarrow> s)
                (where_value False False tokens))"

definition extract_update_row_from_sql ::
  "(string \<Rightarrow> statement option) \<Rightarrow> string \<Rightarrow> (string \<times> row_data) option" where
  "extract_update_row_from_sql adapter sql =
     (case parse_one adapter sql of
        Inr (UpdateStmt upd) \<Rightarrow>
          let key = (case where_value False False (semantic_tokens sql) of Some v \<Rightarrow> v | None \<Rightarrow> upd_table upd)
          in Some (upd_table upd @ '':'' @ key,
                   fold (\<lambda>(col, val) data. data(col \<mapsto> val)) (upd_assignments upd) [''__table'' \<mapsto> upd_table upd])
      | _ \<Rightarrow> None)"

text \<open>Targets of statements whose WHERE clause compares another column than the key.\<close>

fun where_pair ::
  "bool \<Rightarrow> string option \<Rightarrow> bool \<Rightarrow> string option \<Rightarrow> token list \<Rightarrow> string option \<times> string option" where
  "where_pair after_where col past_eq val [] = (col, val)"
| "where_pair after_where col past_eq val (t # ts) =
     (if is_kw ''WHERE'' t then where_pair True col past_eq val ts
      else case t of
             Identifier i \<Rightarrow>
               if after_where \<and> col = None then where_pair after_where (Some (to_lowercase i)) past_eq val ts
               else where_pair after_where col past_eq val ts
           | Symbol s \<Rightarrow> where_pair after_where col (past_eq \<or> s = ''='' \<and> after_where \<and> col \<noteq> None) val ts
           | StringLiteral s \<Rightarrow> where_pair after_where col past_eq (if past_eq \<and> val = None then Some s else val) ts
           | Number n \<Rightarrow> where_pair after_where col past_eq (if past_eq \<and> val = None then Some n else val) ts
           | _ \<Rightarrow> where_pair after_where col past_eq val ts)"

definition extract_bulk_update_target ::
  "(string \<Rightarrow> statement option) \<Rightarrow> string \<Rightarrow> (string \<times> string \<times> string \<times> string \<times> string) option" where
  "extract_bulk_update_target adapter sql =
     (case parse_one adapter sql of
        Inr (UpdateStmt upd) \<Rightarrow>
          (case upd_assignments upd of
             [] \<Rightarrow> None
           | (set_col, set_val) # _ \<Rightarrow>
               (case where_pair False None False None (semantic_tokens sql) of
                  (Some where_col, Some where_val) \<Rightarrow>
                    Some (to_lowercase (upd_table upd), set_col, set_val, where_col, where_val)
                | _ \<Rightarrow> None))
      | _ \<Rightarrow> None)"

text \<open>
  In the DELETE loop the table arm comes before the WHERE arm and takes keywords too, so the first name
  after FROM is consumed there whatever it is.
\<close>

fun bulk_delete_scan ::
  "bool \<Rightarrow> string option \<Rightarrow> bool \<Rightarrow> string option \<Rightarrow> bool \<Rightarrow> string option \<Rightarrow> token list \<Rightarrow>
   string option \<times> string option \<times> string option" where
  "bulk_delete_scan past_from table after_where col past_eq val [] = (table, col, val)"
| "bulk_delete_scan past_from table after_where col past_eq val (t # ts) =
     (if is_kw ''FROM'' t \<and> \<not> past_from then bulk_delete_scan True table after_where col past_eq val ts
      else if token_as_name t \<noteq> None \<and> past_from \<and> table = None
      then bulk_delete_scan past_from (Some (to_lowercase (after_last_dot (the (token_as_name t)))))
             after_where col past_eq val ts
      else if is_kw ''WHERE'' t then bulk_delete_scan past_from table True col past_eq val ts
      else case t of
             Identifier i \<Rightarrow>
               bulk_delete_scan past_from table after_where
                 (if after_where \<and> col = None then Some (to_lowercase i) else col) past_eq val ts
           | Symbol s \<Rightarrow>
               bulk_delete_scan past_from table after_where col
                 (past_eq \<or> s = ''='' \<and> after_where \<and> col \<noteq> None) val ts
           | StringLiteral s \<Rightarrow>
               bulk_delete_scan past_from table after_where col past_eq
                 (if past_eq \<and> val = None then Some s else val) ts
           | Number n \<Rightarrow>
               bulk_delete_scan past_from table after_where col past_eq
                 (if past_eq \<and> val = None then Some n else val) ts
           | _ \<Rightarrow> bulk_delete_scan past_from table after_where col past_eq val ts)"

definition extract_bulk_delete_target :: "string \<Rightarrow> (string \<times> string \<times> string) option" where
  "extract_bulk_delete_target sql =
     (if \<not> starts_with (to_uppercase (trim_start sql)) ''DELETE'' then None
      else case bulk_delete_scan False None False None False None (semantic_tokens sql) of
             (Some table, Some where_col, Some where_val) \<Rightarrow>
               if to_lowercase where_col = ''id'' then None else Some (table, where_col, where_val)
           | _ \<Rightarrow> None)"

section \<open>INSERT\<close>

definition strip_schema_qualifier_from_insert :: "string \<Rightarrow> string" where
  "strip_schema_qualifier_from_insert sql =
     (if CHR ''.'' \<notin> set sql then sql
      else case find_str (to_uppercase sql) ''INTO'' of
             None \<Rightarrow> sql
           | Some into_pos \<Rightarrow>
               let after_into = into_pos + 4;
                   ws_len = length (drop after_into sql) - length (trim_start (drop after_into sql));
                   table_start = after_into + ws_len;
                   table_name = until_one_of [CHR '' '', newline, tab, CHR ''(''] (drop table_start sql)
               in (case find_str table_name ''.'' of
                     Some dot \<Rightarrow>
                       let unqualified_start = table_start + dot + 1;
                           after_table = table_start + length table_name
                       in take table_start sql @
                          take (after_table - unqualified_start) (drop unqualified_start sql) @
                          drop after_table sql
                   | None \<Rightarrow> sql))"

definition column_of :: "string list \<Rightarrow> string list \<Rightarrow> nat \<Rightarrow> string" where
  "column_of columns ddl_col_names i =
     (if columns \<noteq> [] then (if i < length columns then to_lowercase (columns ! i) else ''col_'' @ show_nat i)
      else if i < length ddl_col_names then ddl_col_names ! i
      else ''col_'' @ show_nat i)"

definition row_of_values :: "string \<Rightarrow> string list \<Rightarrow> string list \<Rightarrow> string list \<Rightarrow> row_data" where
  "row_of_values table columns ddl_col_names vals =
     fold (\<lambda>(i, val) data. data(column_of columns ddl_col_names i \<mapsto> val)) (zip [0..<length vals] vals)
       [''__table'' \<mapsto> table]"

definition wal_value :: "string \<Rightarrow> string" where
  "wal_value v =
     (let trimmed = trim v
      in if is_f64 trimmed then trimmed
         else [quote] @ replace_char quote [quote, quote] trimmed @ [quote])"

definition original_table :: "string \<Rightarrow> insert_statement \<Rightarrow> string" where
  "original_table sql ins =
     (case find_str (to_uppercase sql) ''INTO'' of
        Some into_pos \<Rightarrow> until_one_of [CHR '' '', newline, tab, CHR ''(''] (trim_start (drop (into_pos + 4) sql))
      | None \<Rightarrow> ins_table ins)"

definition single_row_sql :: "string \<Rightarrow> string list \<Rightarrow> string list \<Rightarrow> string" where
  "single_row_sql orig_table columns vals =
     ''INSERT INTO '' @ orig_table @ (if columns = [] then [] else '' ('' @ join '', '' columns @ '')'') @
     '' VALUES ('' @ join '', '' (map wal_value vals) @ '');''"

definition extract_all_insert_rows ::
  "(string \<Rightarrow> statement option) \<Rightarrow> string \<Rightarrow> (string \<times> row_data \<times> string) list" where
  "extract_all_insert_rows adapter sql =
     (case parse_one adapter (strip_schema_qualifier_from_insert sql) of
        Inr (InsertStmt ins) \<Rightarrow>
          let orig_table = original_table sql ins;
              unqualified_table = after_last_dot orig_table
          in map (\<lambda>vals. (unqualified_table @ '':'' @ hd vals,
                          row_of_values unqualified_table (ins_columns ins) [] vals,
                          single_row_sql orig_table (ins_columns ins) vals))
               (filter (\<lambda>vals. vals \<noteq> []) (ins_values ins))
      | _ \<Rightarrow> [])"

definition extract_insert_row_from_sql_with_cols ::
  "(string \<Rightarrow> statement option) \<Rightarrow> string \<Rightarrow> string list \<Rightarrow> (string \<times> row_data) option" where
  "extract_insert_row_from_sql_with_cols adapter sql ddl_col_names =
     (case parse_one adapter sql of
        Inr (InsertStmt ins) \<Rightarrow>
          let table = after_last_dot (ins_table ins)
          in (case ins_values ins of
                [] \<Rightarrow> None
              | vals # _ \<Rightarrow>
                  if vals = [] then None
                  else Some (table @ '':'' @ hd vals, row_of_values table (ins_columns ins) ddl_col_names vals))
      | _ \<Rightarrow> None)"

definition extract_insert_row_from_sql ::
  "(string \<Rightarrow> statement option) \<Rightarrow> string \<Rightarrow> (string \<times> row_data) option" where
  "extract_insert_row_from_sql adapter sql = extract_insert_row_from_sql_with_cols adapter sql []"

section \<open>Column lists\<close>

fun split_clauses :: "nat \<Rightarrow> string \<Rightarrow> string \<Rightarrow> string list" where
  "split_clauses depth current [] = (let t = trim (rev current) in if t = [] then [] else [t])"
| "split_clauses depth current (ch # s) =
     (if ch = CHR ''('' then split_clauses (depth + 1) (ch # current) s
      else if ch = CHR '')'' then split_clauses (depth - 1) (ch # current) s
      else if ch = CHR '','' \<and> depth = 0
      then (let t = trim (rev current) in if t = [] then [] else [t]) @ split_clauses depth [] s
      else split_clauses depth (ch # current) s)"

definition column_clause :: "string \<Rightarrow> string option" where
  "column_clause clause =
     (case split_whitespace clause of
        [] \<Rightarrow> None
      | w # _ \<Rightarrow>
          let first = to_lowercase w
          in if first \<in> set [''primary'', ''foreign'', ''unique'', ''check'', ''constraint'', ''index'']
             then None else Some first)"

definition extract_column_names_from_ddl :: "string \<Rightarrow> string list" where
  "extract_column_names_from_ddl ddl =
     (case (find_str ddl ''('', rfind_char (CHR '')'') ddl) of
        (Some o_pos, Some c_pos) \<Rightarrow>
          if c_pos > o_pos
          then List.map_filter column_clause (split_clauses 0 [] (take (c_pos - (o_pos + 1)) (drop (o_pos + 1) ddl)))
          else []
      | _ \<Rightarrow> [])"

definition extract_partition_column :: "string \<Rightarrow> string option" where
  "extract_partition_column upper_sql =
     (case find_str upper_sql ''PARTITION BY RANGE'' of
        None \<Rightarrow> None
      | Some start \<Rightarrow>
          (case strip_prefix ''('' (trim (drop (start + 18) upper_sql)) of
             None \<Rightarrow> None
           | Some inner \<Rightarrow>
               let col = trim (until_one_of '')'' inner)
               in if col = [] then None else Some (to_lowercase col)))"

section \<open>Views\<close>

definition extract_view_select_body :: "string \<Rightarrow> string option" where
  "extract_view_select_body stmt =
     (case find_str (to_uppercase stmt) '' AS '' of
        None \<Rightarrow> None
      | Some as_pos \<Rightarrow> let body = trim (drop (as_pos + 4) stmt) in if body = [] then None else Some body)"

definition extract_updatable_view_base_table :: "string \<Rightarrow> string option" where
  "extract_updatable_view_base_table stmt =
     (case extract_view_select_body stmt of
        None \<Rightarrow> None
      | Some body0 \<Rightarrow>
          let body = to_uppercase body0
          in if list_ex (contains body)
                  [''JOIN'', ''GROUP BY'', ''HAVING'', ''DISTINCT'', ''SUBQUERY'', ''UNION'', ''INTERSECT'', ''EXCEPT'']
             then None
             else if list_ex (contains body) [''COUNT('', ''SUM('', ''AVG('', ''MIN('', ''MAX('']
             then None
             else case find_str body '' FROM '' of
                    None \<Rightarrow> None
                  | Some from_pos \<Rightarrow>
                      let table = trim (takeWhile (\<lambda>c. \<not> is_whitespace c) (trim (drop (from_pos + 6) body)))
                      in if table = [] then None else Some (to_lowercase table))"

text \<open>
  Removal of qualifiers: \<open>offset\<close> is where the next search for a dot starts. The keyword test looks at
  the upper-case copy of the original text, at the positions of the text as it is now.
\<close>

definition qualifier_keywords :: "string list" where
  "qualifier_keywords =
     [''SELECT'', ''FROM'', ''WHERE'', ''JOIN'', ''ON'', ''AND'', ''OR'', ''NOT'', ''INSERT'', ''UPDATE'',
      ''DELETE'', ''SET'', ''VALUES'', ''AS'', ''GROUP'', ''ORDER'', ''BY'', ''HAVING'', ''LIMIT'', ''OFFSET'',
      ''UNION'', ''ALL'', ''DISTINCT'', ''INTO'', ''TABLE'']"

lemma find_str_bound: "find_str s p = Some i \<Longrightarrow> i + length p \<le> length s"
proof (induction s arbitrary: i)
  case (Cons c s)
  from Cons.prems show ?case
    by (subst (asm) find_str.simps) (auto dest: Cons.IH starts_with_length split: if_splits)
qed (auto simp: find_str.simps starts_with_def split: if_splits)

function strip_qualifiers_loop :: "string \<Rightarrow> nat \<Rightarrow> string \<Rightarrow> string" where
  "strip_qualifiers_loop sql_upper offset result =
     (case find_str (drop offset result) ''.'' of
        None \<Rightarrow> result
      | Some p \<Rightarrow>
          let dot_pos = offset + p;
              word = rev (takeWhile is_word_char (rev (take dot_pos result)));
              word_start = dot_pos - length word;
              after_dot = dot_pos + 1;
              next_is_ident = (case drop after_dot result of
                                 c # _ \<Rightarrow> is_alpha c \<or> c = CHR ''_'' | [] \<Rightarrow> False);
              (offset', result') =
                (if word \<noteq> [] \<and> next_is_ident \<and>
                    trim (take (dot_pos - word_start) (drop word_start sql_upper)) \<notin> set qualifier_keywords
                 then (word_start, take word_start result @ drop after_dot result)
                 else (dot_pos + 1, result))
          in if offset' \<ge> length result' then result' else strip_qualifiers_loop sql_upper offset' result')"
  by pat_completeness auto

termination
proof (relation "measure (\<lambda>(u, offset, result). length result - offset)", goal_cases)
  case (2 sql_upper offset result p dot_pos word word_start after_dot next_is_ident x offset' result')
  have "offset + p < length result" using find_str_bound [OF 2(1)] by simp
  moreover have "length word \<le> dot_pos"
    using 2(3) length_takeWhile_le [of is_word_char "rev (take dot_pos result)"] by simp
  ultimately have "length result' - offset' = length result - (offset + p) - 1"
    using 2 by (auto split: if_splits)
  with \<open>offset + p < length result\<close> show ?case by simp
qed simp

declare strip_qualifiers_loop.simps [simp del]

definition strip_schema_qualifiers_from_sql :: "string \<Rightarrow> string" where
  "strip_schema_qualifiers_from_sql sql = strip_qualifiers_loop (to_uppercase sql) 0 sql"

definition expand_view_in_select :: "string \<Rightarrow> string \<Rightarrow> string \<Rightarrow> string" where
  "expand_view_in_select sql view_name view_body =
     (let lower = to_lowercase sql;
          view_lower = to_lowercase view_name
      in case first_some (\<lambda>pattern.
                case find_str lower pattern of
                  None \<Rightarrow> None
                | Some pos \<Rightarrow>
                    let after_match = pos + length pattern
                    in if (case drop after_match lower of c # _ \<Rightarrow> is_word_char c | [] \<Rightarrow> False) then None
                       else Some (take pos sql @ '' FROM ('' @ strip_schema_qualifiers_from_sql view_body @
                                  '') AS '' @ view_lower @ drop after_match sql))
              ['' from '' @ view_lower, tab # ''from '' @ view_lower, newline # ''from '' @ view_lower] of
           Some s \<Rightarrow> s
         | None \<Rightarrow> sql)"

section \<open>Types of values\<close>

definition is_uuid :: "string \<Rightarrow> bool" where
  "is_uuid v \<longleftrightarrow>
     length v = 36 \<and>
     list_all (\<lambda>(i, c). if i \<in> {8, 13, 18, 23} then c = CHR ''-''
                         else is_digit c \<or> to_lowercase [c] \<in> set (map (\<lambda>x. [x]) ''abcdef''))
       (zip [0..<length v] v)"

definition type_error :: "string \<Rightarrow> string \<Rightarrow> string" where
  "type_error val bare = ''value '' @ [quote] @ val @ [quote] @ '' is not a valid '' @ bare"

definition validate_value_for_type :: "string \<Rightarrow> string \<Rightarrow> (unit, string) result" where
  "validate_value_for_type val ddl_type =
     (let bare = to_uppercase (trim (until_one_of ''('' ddl_type))
      in if val = [] \<or> to_lowercase val = ''null'' then Ok ()
         else if bare \<in> set [''INT'', ''INTEGER'', ''INT4'', ''SMALLINT'', ''INT2'', ''BIGINT'', ''INT8'']
         then (if parse_int 64 (trim val) \<noteq> None then Ok () else Err (type_error val bare))
         else if bare \<in> set [''FLOAT'', ''REAL'', ''FLOAT4'', ''DOUBLE'', ''DOUBLE PRECISION'', ''FLOAT8'',
                             ''NUMERIC'', ''DECIMAL'']
         then (if is_f64 (trim val) then Ok () else Err (type_error val bare))
         else if bare \<in> set [''BOOL'', ''BOOLEAN'']
         then (if to_lowercase (trim val) \<in> set [''true'', ''false'', ''1'', ''0'', ''yes'', ''no'', ''on'', ''off'']
               then Ok () else Err (type_error val ''BOOLEAN''))
         else if bare = ''UUID''
         then (if is_uuid (trim val) then Ok () else Err (type_error val ''UUID''))
         else Ok ())"

section \<open>Replay of logged statements\<close>

definition insert_row_at :: "xid \<Rightarrow> string \<times> row_data \<Rightarrow> paged_row_store \<Rightarrow> paged_row_store option" where
  "insert_row_at x kd rs = store_insert rs x (fst kd) (snd kd)"

definition apply_dml_to_rowstore ::
  "(string \<Rightarrow> statement option) \<Rightarrow> xid \<Rightarrow> string \<Rightarrow> paged_row_store \<Rightarrow> paged_row_store option" where
  "apply_dml_to_rowstore adapter x sql rs =
     (let upper = to_uppercase (trim_start sql)
      in if starts_with upper ''INSERT''
         then fold_opt (insert_row_at x) (map (\<lambda>(k, d, _). (k, d)) (extract_all_insert_rows adapter sql)) rs
         else if starts_with upper ''DELETE''
         then (case extract_delete_key_from_sql sql of
                 Some k \<Rightarrow> Some (snd (store_delete rs x k)) | None \<Rightarrow> Some rs)
         else if starts_with upper ''UPDATE''
         then (case extract_update_row_from_sql adapter sql of
                 Some kd \<Rightarrow> insert_row_at x kd rs | None \<Rightarrow> Some rs)
         else Some rs)"

definition replay_dml_into ::
  "(string \<Rightarrow> statement option) \<Rightarrow> string list \<Rightarrow> paged_row_store \<Rightarrow> paged_row_store option" where
  "replay_dml_into adapter stmts rs =
     (if stmts = [] then Some rs
      else let (x, rs1) = begin_xid rs in fold_opt (apply_dml_to_rowstore adapter x) stmts rs1)"

text \<open>The parsers that the Raft loop uses.\<close>

definition sql_dml_parser :: "(string \<Rightarrow> statement option) \<Rightarrow> dml_parser" where
  "sql_dml_parser adapter =
     \<lparr>insert_rows_of = (\<lambda>sql. map (\<lambda>(k, d, _). (k, d)) (extract_all_insert_rows adapter sql)),
      update_row_of = extract_update_row_from_sql adapter,
      delete_key_of = extract_delete_key_from_sql\<rparr>"

section \<open>Texts with bare names\<close>

text \<open>
  Statement texts as clients write them: names without quotes, every token followed by a blank. A bare
  name is a word that is not a keyword.
\<close>

definition bare_name :: "string \<Rightarrow> bool" where
  "bare_name i \<longleftrightarrow> i \<noteq> [] \<and> is_alpha (hd i) \<and> list_all is_word_char i \<and> \<not> is_keyword (to_uppercase i)"

fun bare_text :: "token \<Rightarrow> string" where
  "bare_text (Identifier i) = i"
| "bare_text t = token_text t"

fun bare_ok :: "token \<Rightarrow> bool" where
  "bare_ok (Identifier i) = bare_name i"
| "bare_ok t = canonical t"

definition bare_statement :: "token list \<Rightarrow> string" where
  "bare_statement ts = concat (map (\<lambda>t. bare_text t @ '' '') ts)"

definition delete_tokens :: "string \<Rightarrow> string \<Rightarrow> string \<Rightarrow> token list" where
  "delete_tokens table col val =
     [Keyword ''DELETE'', Keyword ''FROM'', Identifier table, Keyword ''WHERE'', Identifier col, Symbol ''='',
      StringLiteral val]"

lemma lex_bare_name:
  assumes "bare_name i"
  shows "lex_step (i @ CHR '' '' # rest) = (Identifier i, CHR '' '' # rest)"
proof -
  obtain c w where cw: "i = c # w" "is_alpha c" using assms by (cases i) (auto simp: bare_name_def)
  have "\<not> is_word_char CHR '' ''" by (simp add: is_word_char_def is_alpha_def is_digit_def)
  with assms have tw: "takeWhile is_word_char (i @ CHR '' '' # rest) = i"
    "dropWhile is_word_char (i @ CHR '' '' # rest) = CHR '' '' # rest"
    by (auto simp: bare_name_def takeWhile_blank)
  show ?thesis
    using alpha_not_special [OF cw(2)] cw tw assms
    by (simp add: lex_step.simps word_token_def Let_def bare_name_def)
qed

lemma lex_bare_text: "bare_ok t \<Longrightarrow> lex_step (bare_text t @ CHR '' '' # rest) = (t, CHR '' '' # rest)"
  by (cases t) (auto simp: lex_bare_name lex_token_text simp del: token_text.simps canonical.simps)

lemma bare_text_nonempty: "bare_ok t \<Longrightarrow> bare_text t \<noteq> [] \<and> \<not> is_ascii_whitespace (hd (bare_text t))"
  by (cases t) (auto simp: bare_name_def alpha_not_special(1) token_text_nonempty
      simp del: token_text.simps canonical.simps)

lemma bare_tokens:
  assumes "\<forall>t\<in>set ts. bare_ok t"
  shows "semantic_tokens (bare_statement ts) = ts"
  using assms
proof (induction ts)
  case Nil
  show ?case by (simp add: semantic_tokens_def bare_statement_def tokenize.simps)
next
  case (Cons t ts)
  let ?rest = "bare_statement ts"
  have ok: "bare_ok t" using Cons.prems by simp
  have "?rest = [] \<or> \<not> is_ascii_whitespace (hd ?rest)"
    using Cons.prems by (cases ts) (auto simp: bare_statement_def bare_text_nonempty)
  then have "dropWhile is_ascii_whitespace ?rest = ?rest" by (rule dropWhile_hd_stop)
  then have blank: "lex_step (CHR '' '' # ?rest) = (Whitespace, ?rest)"
    by (simp add: lex_step.simps is_ascii_whitespace_def)
  have "tokenize (bare_text t @ CHR '' '' # ?rest) = t # Whitespace # tokenize ?rest"
    using lex_bare_text [OF ok, of ?rest] blank
    by (simp add: tokenize_step [of "bare_text t @ CHR '' '' # ?rest"] tokenize_step [of "CHR '' '' # ?rest"])
  moreover have "bare_statement (t # ts) = bare_text t @ CHR '' '' # ?rest"
    by (simp add: bare_statement_def)
  moreover have "is_semantic t" using ok by (cases t) auto
  ultimately show ?case using Cons by (simp add: semantic_tokens_def)
qed

lemma bare_ok_comma_separated:
  assumes "\<forall>xs\<in>set xss. \<forall>t\<in>set xs. bare_ok t"
  shows "\<forall>t\<in>set (comma_separated xss). bare_ok t"
proof
  fix t
  assume "t \<in> set (comma_separated xss)"
  then have "t = Symbol '','' \<or> (\<exists>xs\<in>set xss. t \<in> set xs)" using set_comma_separated [of xss] by blast
  with assms statement_symbols(1) show "bare_ok t" by auto
qed

lemma insert_tokens_bare:
  assumes "bare_name table" and "\<forall>c\<in>set columns. bare_name c"
  shows "\<forall>t\<in>set (insert_tokens table columns vrows). bare_ok t"
proof -
  have cols: "\<forall>t\<in>set (comma_separated (map (\<lambda>c. [Identifier c]) columns)). bare_ok t"
    by (rule bare_ok_comma_separated) (use assms(2) in auto)
  have row: "\<forall>t\<in>set (parens (comma_separated (map (\<lambda>v. [StringLiteral v]) row))). bare_ok t" for row
    using bare_ok_comma_separated [of "map (\<lambda>v. [StringLiteral v]) row"] statement_symbols(2,3)
    by (auto simp: parens_def)
  have vrows: "\<forall>t\<in>set (comma_separated (map (\<lambda>row. parens (comma_separated (map (\<lambda>v. [StringLiteral v]) row))) vrows)).
      bare_ok t"
    by (rule bare_ok_comma_separated) (use row in auto)
  have kws: "bare_ok (Keyword ''INSERT'')" "bare_ok (Keyword ''INTO'')" "bare_ok (Keyword ''VALUES'')"
    "bare_ok (Symbol ''('')" "bare_ok (Symbol '')'')"
    using statement_keywords statement_symbols by simp_all
  show ?thesis
    using cols vrows kws assms(1) unfolding insert_tokens_def
    by (auto simp: parens_def simp del: canonical.simps split: if_splits)
qed

lemma update_tokens_bare:
  assumes "bare_name table" and "\<forall>(c, v)\<in>set as. bare_name c" and "\<forall>t\<in>set condition. bare_ok t"
  shows "\<forall>t\<in>set (update_tokens table as condition). bare_ok t"
proof -
  have "\<forall>t\<in>set (comma_separated (map (\<lambda>(c, v). [Identifier c, Symbol ''='', StringLiteral v]) as)). bare_ok t"
    by (rule bare_ok_comma_separated) (use assms(2) statement_symbols(4) in auto)
  moreover have "bare_ok (Keyword ''UPDATE'')" "bare_ok (Keyword ''SET'')" "bare_ok (Keyword ''WHERE'')"
    using statement_keywords by simp_all
  ultimately show ?thesis
    using assms(1,3) unfolding update_tokens_def by (auto simp del: canonical.simps)
qed

lemma delete_tokens_bare: "bare_name table \<Longrightarrow> bare_name col \<Longrightarrow> \<forall>t\<in>set (delete_tokens table col val). bare_ok t"
  using statement_keywords statement_symbols by (simp add: delete_tokens_def)

section \<open>Reading rows from texts\<close>

lemma word_char_no_stop:
  assumes "is_word_char c"
  shows "c \<noteq> CHR '' ''" "c \<noteq> newline" "c \<noteq> tab" "c \<noteq> CHR ''(''" "c \<noteq> CHR ''.''" "c \<noteq> CHR '':''"
  using assms by (auto simp: is_word_char_def is_alpha_def is_digit_def)

lemma bare_name_chars:
  assumes "bare_name i"
  shows "CHR ''.'' \<notin> set i" and "after_last_dot i = i" and "find_str i ''.'' = None"
    and "until_one_of [CHR '' '', newline, tab, CHR ''(''] (i @ CHR '' '' # rest) = i"
    and "trim_start (i @ rest) = i @ rest"
proof -
  have word: "\<forall>c\<in>set i. is_word_char c" using assms by (simp add: bare_name_def list_all_iff)
  then show dot: "CHR ''.'' \<notin> set i" using word_char_no_stop(5) by blast
  then have rev_i: "takeWhile (\<lambda>c. c \<noteq> CHR ''.'') (rev i) = rev i" by (auto simp: takeWhile_eq_all_conv)
  show "after_last_dot i = i" unfolding after_last_dot_def rev_i by simp
  show "find_str i ''.'' = None"
    using dot by (induction i) (auto simp: find_str.simps starts_with_def)
  have "c \<notin> set [CHR '' '', newline, tab, CHR ''('']" if "c \<in> set i" for c
    using word_char_no_stop [of c] word that by auto
  then show "until_one_of [CHR '' '', newline, tab, CHR ''(''] (i @ CHR '' '' # rest) = i"
    unfolding until_one_of_def by (subst takeWhile_append2) auto
  have "\<not> is_whitespace (hd i)" using assms alpha_not_special by (auto simp: bare_name_def is_whitespace_def is_alpha_def)
  with assms show "trim_start (i @ rest) = i @ rest"
    by (cases i) (auto simp: trim_start_def bare_name_def)
qed

lemma find_into: "find_str (to_uppercase (''INSERT INTO '' @ rest)) ''INTO'' = Some 7"
proof -
  have "to_uppercase (''INSERT INTO '' @ rest) = ''INSERT INTO '' @ to_uppercase rest"
    by (simp add: to_uppercase_def ascii_upper_def)
  then show ?thesis by (simp add: find_str.simps starts_with_def)
qed

lemma insert_text_table:
  assumes "bare_name table" and "sql = ''INSERT INTO '' @ table @ CHR '' '' # rest"
  shows "original_table sql ins = table" and "strip_schema_qualifier_from_insert sql = sql"
proof -
  have find: "find_str (to_uppercase sql) ''INTO'' = Some 7"
    unfolding assms(2) by (rule find_into)
  have drop: "drop 11 sql = CHR '' '' # table @ CHR '' '' # rest" by (simp add: assms(2))
  have start: "trim_start (drop 11 sql) = table @ CHR '' '' # rest"
    using bare_name_chars(5) [OF assms(1), of "CHR '' '' # rest"]
    by (simp add: drop trim_start_def is_whitespace_def)
  show "original_table sql ins = table"
    using bare_name_chars(4) [OF assms(1)] start by (simp add: original_table_def find)
  have table_text: "drop 12 sql = table @ CHR '' '' # rest" by (simp add: assms(2))
  have "length (drop 11 sql) - length (trim_start (drop 11 sql)) = 1"
    by (simp only: start) (simp only: drop, simp)
  then have pos: "(7 :: nat) + 4 + (length (drop (7 + 4) sql) - length (trim_start (drop (7 + 4) sql))) = 12"
    by simp
  show "strip_schema_qualifier_from_insert sql = sql"
    unfolding strip_schema_qualifier_from_insert_def find option.case Let_def pos table_text
      bare_name_chars(4) [OF assms(1)] bare_name_chars(3) [OF assms(1)] by simp
qed

lemma parse_bare_text:
  assumes "\<forall>t\<in>set ts. bare_ok t" and "ts \<noteq> []" and "adapter (bare_statement ts) = None"
  shows "parse_one adapter (bare_statement ts) = parse_tokens (bare_statement ts) ts"
  using assms by (simp add: parse_one_def bare_tokens)

lemma insert_token_rows:
  assumes "ts = [Keyword ''INSERT'', Keyword ''INTO'', Identifier table] @ rest" and "\<forall>t\<in>set ts. bare_ok t"
    and "adapter (bare_statement ts) = None" and "parse_insert ts = Ok ins"
  shows "extract_all_insert_rows adapter (bare_statement ts) =
    map (\<lambda>vals. (table @ '':'' @ hd vals, row_of_values table (ins_columns ins) [] vals,
                 single_row_sql table (ins_columns ins) vals))
      (filter (\<lambda>vals. vals \<noteq> []) (ins_values ins))"
proof -
  have bare: "bare_name table" using assms(1,2) by simp
  have shape: "bare_statement ts = ''INSERT INTO '' @ table @ CHR '' '' # bare_statement rest"
    by (simp add: bare_statement_def assms(1))
  note table = insert_text_table [OF bare shape]
  have "parse_one adapter (bare_statement ts) = parse_tokens (bare_statement ts) ts"
    using assms(1-3) by (intro parse_bare_text) simp_all
  also have "\<dots> = Ok (InsertStmt ins)"
    using assms(1,4) by (simp add: parse_tokens_def Let_def)
  finally show ?thesis
    by (simp add: extract_all_insert_rows_def table bare_name_chars(2) [OF bare] Let_def)
qed

lemma insert_text_rows:
  assumes "bare_name table" and "\<forall>c\<in>set columns. bare_name c"
    and "adapter (bare_statement (insert_tokens table columns vrows)) = None"
  shows "extract_all_insert_rows adapter (bare_statement (insert_tokens table columns vrows)) =
    map (\<lambda>vals. (table @ '':'' @ hd vals, row_of_values table columns [] vals, single_row_sql table columns vals))
      (filter (\<lambda>vals. vals \<noteq> []) vrows)"
proof -
  obtain rest where "insert_tokens table columns vrows = [Keyword ''INSERT'', Keyword ''INTO'', Identifier table] @ rest"
    by (simp add: insert_tokens_def)
  from insert_token_rows [OF this insert_tokens_bare [OF assms(1,2)], of adapter] assms(3)
  show ?thesis by (simp add: parse_insert_tokens)
qed

lemma where_value_skip:
  "\<forall>t\<in>set pre. \<not> is_kw ''WHERE'' t \<Longrightarrow>
     where_value False False (pre @ Keyword ''WHERE'' # rest) = where_value True False rest"
  by (induction pre) (auto split: token.split)

lemma update_text_row:
  assumes "bare_name table" and "\<forall>(c, v)\<in>set as. bare_name c" and "bare_name col"
    and "adapter (bare_statement (update_tokens table as [Identifier col, Symbol ''='', StringLiteral val])) = None"
  shows "extract_update_row_from_sql adapter
      (bare_statement (update_tokens table as [Identifier col, Symbol ''='', StringLiteral val])) =
    Some (table @ '':'' @ val, fold (\<lambda>(col, val) data. data(col \<mapsto> val)) as [''__table'' \<mapsto> table])"
proof -
  let ?cond = "[Identifier col, Symbol ''='', StringLiteral val]"
  let ?ts = "update_tokens table as ?cond"
  have cond: "\<forall>t\<in>set ?cond. bare_ok t" using assms(3) statement_symbols(4) by simp
  note ok = update_tokens_bare [OF assms(1,2) cond]
  have "parse_one adapter (bare_statement ?ts) = parse_tokens (bare_statement ?ts) ?ts"
    using ok assms(4) by (intro parse_bare_text) (simp_all add: update_tokens_def)
  also have "\<dots> = Ok (UpdateStmt \<lparr>upd_table = table, upd_assignments = as,
      upd_where_clause = Some (tokens_to_raw ?cond)\<rparr>)"
    using parse_update_tokens [of table as ?cond] by (simp add: parse_tokens_def update_tokens_def Let_def)
  finally have parsed: "parse_one adapter (bare_statement ?ts) = \<dots>" .
  have "where_value False False ?ts = where_value True False ?cond"
    unfolding update_tokens_def append_assoc [symmetric]
    by (rule where_value_skip) (use update_assignments_no_where [of as] in auto)
  then show ?thesis by (simp add: extract_update_row_from_sql_def parsed bare_tokens [OF ok])
qed

lemma delete_text_key:
  assumes "bare_name table" and "bare_name col"
  shows "extract_delete_key_from_sql (bare_statement (delete_tokens table col val)) =
    Some (to_lowercase table @ '':'' @ val)"
proof -
  have "starts_with (to_uppercase (trim_start (bare_statement (delete_tokens table col val)))) ''DELETE''"
    by (simp add: bare_statement_def delete_tokens_def trim_start_def is_whitespace_def to_uppercase_def
        ascii_upper_def starts_with_def)
  then show ?thesis
    using bare_tokens [OF delete_tokens_bare [OF assms, of val]] bare_name_chars(2) [OF assms(1)]
    by (simp add: extract_delete_key_from_sql_def delete_tokens_def)
qed

section \<open>Replicated statements\<close>

text \<open>
  The SQL adapter is documented to answer for SELECT and transaction control only.
\<close>

definition adapter_leaves_dml :: "(string \<Rightarrow> statement option) \<Rightarrow> bool" where
  "adapter_leaves_dml adapter \<longleftrightarrow> (\<forall>sql. is_dml sql \<longrightarrow> adapter sql = None)"

lemma bare_statement_dml:
  "is_dml (bare_statement (insert_tokens table columns vrows))"
  "is_dml (bare_statement (update_tokens table as condition))"
  by (simp_all add: is_dml_def bare_statement_def insert_tokens_def update_tokens_def to_uppercase_def
      ascii_upper_def starts_with_def)

lemma upsert_history:
  assumes "store_wf (rows st)" and "max_rows_cap (rows st) = 0"
  obtains st' where "apply_upsert db x (k, d) st = Some st'"
    and "history (rows st') = spec_put x k d (history (rows st))"
proof -
  let ?rs = "snd (begin_write_intent (rows st) x k)"
  have wf: "store_wf ?rs" using assms(1) by (rule begin_write_intent_wf)
  have same: "max_rows_cap ?rs = 0" "history ?rs = history (rows st)"
    using assms(2) by (auto simp: begin_write_intent_def history_def split: option.splits if_splits)
  obtain rs' where ins: "store_insert ?rs x k d = Some rs'" using store_insert_total [OF wf] by blast
  with store_insert_history [OF wf same(1) ins] same(2) that show ?thesis
    by (simp add: apply_upsert_def Let_def)
qed

lemma put_visible:
  "x \<le> snap \<Longrightarrow> chain_visible (spec_put x k d h k) snap = Some d"
  "k' \<noteq> k \<Longrightarrow> spec_put x k d h k' = h k'"
  by (simp_all add: spec_put_def chain_visible_def)

lemma apply_insert_text:
  assumes "adapter_leaves_dml adapter" and "bare_name table" and "\<forall>c\<in>set columns. bare_name c"
  shows "apply_single_dml (sql_dml_parser adapter) db (bare_statement (insert_tokens table columns [v # vs])) x st =
    apply_upsert db x (table @ '':'' @ v, row_of_values table columns [] (v # vs)) st"
proof -
  let ?sql = "bare_statement (insert_tokens table columns [v # vs])"
  have "adapter ?sql = None" using assms(1) bare_statement_dml(1) by (simp add: adapter_leaves_dml_def)
  then have insert_rows: "extract_all_insert_rows adapter ?sql = [(table @ '':'' @ v,
      row_of_values table columns [] (v # vs), single_row_sql table columns (v # vs))]"
    using insert_text_rows [of table columns adapter "[v # vs]"] assms(2,3) by simp
  have "starts_with (to_uppercase (trim_start ?sql)) ''INSERT''"
    by (simp add: bare_statement_def insert_tokens_def trim_start_def is_whitespace_def to_uppercase_def
        ascii_upper_def starts_with_def)
  then show ?thesis
    by (simp add: apply_single_dml_def sql_dml_parser_def insert_rows split: option.split)
qed

lemma command_scope:
  assumes "newline \<notin> set db"
  shows "apply_dml_command P (''__vng_db:'' @ db @ newline # sql) x st = apply_single_dml P db sql x st"
proof -
  have "strip_prefix raft_batch_prefix (''__vng_db:'' @ db @ newline # sql) = None"
    by (simp add: strip_prefix_def starts_with_def raft_batch_prefix_def)
  moreover have "strip_prefix ''__vng_db:'' (''__vng_db:'' @ db @ newline # sql) = Some (db @ newline # sql)"
    by (simp add: strip_prefix_def starts_with_def)
  moreover have "split_line (db @ newline # sql) = Some (db, sql)"
    using assms by (simp add: split_line_def)
  ultimately show ?thesis by (simp add: apply_dml_command_def)
qed

section \<open>Properties\<close>


lemma no_adapter_leaves_dml: "adapter_leaves_dml no_adapter"
  by (simp add: adapter_leaves_dml_def no_adapter_def)

lemma fresh_store_ready: "store_wf fresh_store" "max_rows_cap fresh_store = 0"
  by (simp_all add: fresh_store_def store_wf_def all_rows_def)


text \<open>
  C38: The three kinds of statements address the same row: for a lower-case table name the texts of an
  INSERT, of an UPDATE and of a DELETE with the same key value lead to the same row key. (A DELETE folds
  the name to lower case, the others do not: for a name with capitals its key is another one.)
\<close>

theorem statements_address_one_row:
  assumes "adapter_leaves_dml adapter" and "bare_name table" and "\<forall>c\<in>set columns. bare_name c"
    and "\<forall>(c, w)\<in>set as. bare_name c" and "bare_name col"
  shows "map fst (extract_all_insert_rows adapter (bare_statement (insert_tokens table columns [v # vs]))) =
      [table @ '':'' @ v] \<and>
    map_option fst (extract_update_row_from_sql adapter
      (bare_statement (update_tokens table as [Identifier col, Symbol ''='', StringLiteral v]))) =
      Some (table @ '':'' @ v) \<and>
    extract_delete_key_from_sql (bare_statement (delete_tokens table col v)) =
      Some (to_lowercase table @ '':'' @ v)"
proof -
  have "adapter (bare_statement (insert_tokens table columns [v # vs])) = None"
    and upd: "adapter (bare_statement (update_tokens table as [Identifier col, Symbol ''='', StringLiteral v])) = None"
    using assms(1) bare_statement_dml by (simp_all add: adapter_leaves_dml_def)
  then have "extract_all_insert_rows adapter (bare_statement (insert_tokens table columns [v # vs])) =
      [(table @ '':'' @ v, row_of_values table columns [] (v # vs), single_row_sql table columns (v # vs))]"
    using insert_text_rows [of table columns adapter "[v # vs]"] assms(2,3) by simp
  then show ?thesis
    using update_text_row [of table as col adapter v] assms(2,4,5) upd delete_text_key [OF assms(2,5), of v] by simp
qed

theorem statements_address_one_row_witness:
  "extract_delete_key_from_sql (bare_statement (delete_tokens ''orders'' ''id'' ''7'')) = Some ''orders:7'' \<and>
   map fst (extract_all_insert_rows no_adapter (bare_statement (insert_tokens ''orders'' [] [[''7'', ''x'']]))) =
     [''orders:7'']"
proof -
  have "bare_name ''orders''" "bare_name ''id''" "bare_name ''note''" "to_lowercase ''orders'' = ''orders''"
    by code_simp+
  then show ?thesis
    using statements_address_one_row [OF no_adapter_leaves_dml, of "''orders''" "[]" "[(''note'', ''y'')]" "''id''" "''7''" "[''x'']"]
    by simp
qed

text \<open>
  The database of a replicated statement does not reach the row store: applying a statement for two
  different databases gives the same rows. The same key of the same table in two databases is one row
  on the followers, while the direct path keeps them apart by a prefix.
\<close>

theorem raft_apply_ignores_database:
  "map_option rows (apply_single_dml P db1 sql x st) = map_option rows (apply_single_dml P db2 sql x st)"
proof -
  have upsert: "map_option rows (apply_upsert db1 x kd s) = map_option rows (apply_upsert db2 x kd s')"
    if "rows s = rows s'" for kd s s'
    using that by (cases kd) (simp add: apply_upsert_def Let_def split: option.split)
  have "map_option rows (fold_opt (apply_upsert db1 x) kds s) = map_option rows (fold_opt (apply_upsert db2 x) kds s')"
    if "rows s = rows s'" for kds s s'
    using that
  proof (induction kds arbitrary: s s')
    case (Cons kd kds)
    show ?case
    proof (cases "apply_upsert db1 x kd s")
      case None
      with upsert [OF Cons.prems, of kd] show ?thesis by simp
    next
      case (Some t)
      with upsert [OF Cons.prems, of kd] obtain t' where "apply_upsert db2 x kd s' = Some t'" "rows t = rows t'"
        by (cases "apply_upsert db2 x kd s'") auto
      with Some Cons.IH show ?thesis by simp
    qed
  qed simp
  with upsert show ?thesis
    by (simp add: apply_single_dml_def Let_def apply_delete_def split: option.split)
qed

lemma column_of_unnamed: "column_of [] [] 0 = ''col_0''" "column_of [] [] (Suc 0) = ''col_1''"
  by code_simp+

text \<open>A DELETE of a row of a qualified table removes a key of the schema instead of the table.\<close>

theorem delete_qualified_table:
  "extract_delete_key_from_sql ''DELETE FROM public.customers WHERE id = 1'' = Some ''public:1''"
  by code_simp

text \<open>A negative number in a VALUES list loses its sign.\<close>

theorem insert_negative_number:
  assumes "adapter_leaves_dml adapter" and "bare_name table" and "n \<noteq> []" and "list_all is_digit n"
    and "sql = bare_statement [Keyword ''INSERT'', Keyword ''INTO'', Identifier table, Keyword ''VALUES'',
      Symbol ''('', Symbol ''-'', Number n, Symbol '')'']"
  shows "map (\<lambda>(k, d, _). (k, d ''col_0'')) (extract_all_insert_rows adapter sql) = [(table @ '':'' @ n, Some n)]"
proof -
  have "adapter sql = None"
    using assms(1,5) by (simp add: adapter_leaves_dml_def is_dml_def bare_statement_def to_uppercase_def
        ascii_upper_def starts_with_def)
  moreover have "canonical (Symbol ''-'')" by (simp add: one_char_symbols_def)
  ultimately have "extract_all_insert_rows adapter sql =
      [(table @ '':'' @ n, row_of_values table [] [] [n], single_row_sql table [] [n])]"
    using insert_token_rows [of _ table "[Keyword ''VALUES'', Symbol ''('', Symbol ''-'', Number n, Symbol '')'']"
        adapter "\<lparr>ins_table = table, ins_columns = [], ins_values = [[n]]\<rparr>"]
      assms statement_keywords statement_symbols
    by (simp add: parse_insert_def)
  then show ?thesis by (simp add: row_of_values_def column_of_unnamed)
qed

text \<open>A boolean in a VALUES list is skipped, and the values after it move to the columns before theirs.\<close>

theorem insert_boolean_shifts:
  assumes "adapter_leaves_dml adapter" and "bare_name table"
    and "sql = bare_statement [Keyword ''INSERT'', Keyword ''INTO'', Identifier table, Keyword ''VALUES'',
      Symbol ''('', Keyword ''TRUE'', Symbol '','', StringLiteral v, Symbol '')'']"
  shows "map (\<lambda>(k, d, _). (d ''col_0'', d ''col_1'')) (extract_all_insert_rows adapter sql) = [(Some v, None)]"
proof -
  have "adapter sql = None"
    using assms(1,3) by (simp add: adapter_leaves_dml_def is_dml_def bare_statement_def to_uppercase_def
        ascii_upper_def starts_with_def)
  moreover have "is_keyword ''TRUE''" "to_uppercase ''TRUE'' = ''TRUE''" by code_simp+
  ultimately have "extract_all_insert_rows adapter sql =
      [(table @ '':'' @ v, row_of_values table [] [] [v], single_row_sql table [] [v])]"
    using insert_token_rows [of _ table "[Keyword ''VALUES'', Symbol ''('', Keyword ''TRUE'', Symbol '','',
        StringLiteral v, Symbol '')'']" adapter "\<lparr>ins_table = table, ins_columns = [], ins_values = [[v]]\<rparr>"]
      assms statement_keywords statement_symbols
    by (simp add: parse_insert_def)
  then show ?thesis by (simp add: row_of_values_def column_of_unnamed)
qed

text \<open>
  The statement that is logged for a row does not always lead back to the row: outer blanks of a value
  are gone, and a negative number is logged without quotes, to lose its sign when it is read.
\<close>

theorem logged_value_differs:
  assumes "n \<noteq> []" and "list_all is_digit n"
  shows "wal_value (trim v) = wal_value v \<and> wal_value (CHR ''-'' # n) = CHR ''-'' # n"
proof
  show "wal_value (trim v) = wal_value v" by (simp add: wal_value_def trim_trim)
  have ends: "\<not> is_whitespace c" if "c \<in> set (CHR ''-'' # n)" for c
    using that assms(2) by (auto simp: list_all_iff is_whitespace_def is_digit_def)
  then have "trim (CHR ''-'' # n) = CHR ''-'' # n"
    by (intro trim_id) auto
  moreover have digits: "takeWhile is_digit n = n" "dropWhile is_digit n = []"
    using assms(2) by (simp_all add: list_all_iff)
  have "is_f64 (CHR ''-'' # n)"
    using assms(1) by (simp add: is_f64_def strip_sign_def is_exponent_def Let_def digits)
  ultimately show "wal_value (CHR ''-'' # n) = CHR ''-'' # n" by (simp add: wal_value_def Let_def)
qed

end
