(* ===== verification/Row_Index.thy ===== *)
theory Row_Index
  imports Mvcc Sql_Ast
begin

text \<open>
  Secondary indexes and the fallback SELECT that reads them: \<^verbatim>\<open>crates/voltnuerongrid-store/src/index.rs\<close>,
  CREATE INDEX in \<^verbatim>\<open>services/voltnuerongridd/src/handlers/sql.rs\<close> and the row scans of
  \<^verbatim>\<open>helpers/execution.rs\<close>.

  An index is the list of its \<^verbatim>\<open>BTreeMap\<close> entries in key order; the manager is the association list of the
  indexes in the iteration order of its hash map. The locale \<open>value_index\<close> is what a reader of an index
  relies on: a lookup gives the row keys filed under a value. The lemmas show that an index that was just
  created answers an equality query with the rows of the table that a scan finds, and the theorems at the
  end what happens when rows change afterwards. Texts are ASCII.
\<close>

section \<open>Indexes\<close>

datatype index_kind = BTree | Hash

record index_descriptor =
  ix_name :: string
  ix_table :: string
  ix_column :: string
  ix_kind :: index_kind
  ix_unique :: bool

record btree_index =
  bt_descriptor :: index_descriptor
  bt_tree :: "(string \<times> string list) list"

datatype index_error =
    UniqueViolation string string
  | IndexAlreadyExists string
  | IndexNotFound string

fun index_error_text :: "index_error \<Rightarrow> string" where
  "index_error_text (UniqueViolation i v) =
     ''unique constraint violation on index '' @ [CHR 0x27] @ i @ [CHR 0x27] @ '' for value '' @ [CHR 0x27] @ v @
       [CHR 0x27]"
| "index_error_text (IndexAlreadyExists n) = ''index '' @ [CHR 0x27] @ n @ [CHR 0x27] @ '' already exists''"
| "index_error_text (IndexNotFound n) = ''index '' @ [CHR 0x27] @ n @ [CHR 0x27] @ '' not found''"

definition btree_index_new :: "index_descriptor \<Rightarrow> btree_index" where
  "btree_index_new d = \<lparr>bt_descriptor = d, bt_tree = []\<rparr>"

text \<open>The bucket of a value, empty when there is none.\<close>

definition bucket :: "(string \<times> string list) list \<Rightarrow> string \<Rightarrow> string list" where
  "bucket t v = (case map_of t v of Some ks \<Rightarrow> ks | None \<Rightarrow> [])"

definition index_insert :: "btree_index \<Rightarrow> string \<Rightarrow> string \<Rightarrow> (unit, index_error) result \<times> btree_index" where
  "index_insert idx column_value key =
     (let entry = bucket (bt_tree idx) column_value
      in if ix_unique (bt_descriptor idx) \<and> entry \<noteq> []
         then (Err (UniqueViolation (ix_name (bt_descriptor idx)) column_value), idx)
         else (Ok (), idx\<lparr>bt_tree := btree_set column_value
                            (if key \<in> set entry then entry else entry @ [key]) (bt_tree idx)\<rparr>))"

definition index_remove :: "btree_index \<Rightarrow> string \<Rightarrow> string \<Rightarrow> btree_index" where
  "index_remove idx column_value key =
     (case map_of (bt_tree idx) column_value of
        None \<Rightarrow> idx
      | Some ks \<Rightarrow>
          (let rest = filter (\<lambda>k. k \<noteq> key) ks
           in if rest = [] then idx\<lparr>bt_tree := AList.delete column_value (bt_tree idx)\<rparr>
              else idx\<lparr>bt_tree := AList.update column_value rest (bt_tree idx)\<rparr>))"

definition index_lookup :: "btree_index \<Rightarrow> string \<Rightarrow> string list" where
  "index_lookup idx column_value = bucket (bt_tree idx) column_value"

text \<open>\<^verbatim>\<open>BTreeMap::range\<close> panics when the start of the range is greater than its end.\<close>

definition index_range_scan :: "btree_index \<Rightarrow> string \<Rightarrow> string \<Rightarrow> (string \<times> string list) list option" where
  "index_range_scan idx start stop =
     (if stop < start then None else Some (filter (\<lambda>(v, ks). start \<le> v \<and> v \<le> stop) (bt_tree idx)))"

definition entry_count :: "btree_index \<Rightarrow> nat" where
  "entry_count idx = sum_list (map (\<lambda>(v, ks). length ks) (bt_tree idx))"

section \<open>The index manager\<close>

type_synonym index_manager = "(string \<times> btree_index) list"

definition create_index :: "index_manager \<Rightarrow> index_descriptor \<Rightarrow> (unit, index_error) result \<times> index_manager" where
  "create_index mgr d =
     (if map_of mgr (ix_name d) \<noteq> None then (Err (IndexAlreadyExists (ix_name d)), mgr)
      else (Ok (), AList.update (ix_name d) (btree_index_new d) mgr))"

definition drop_index :: "index_manager \<Rightarrow> string \<Rightarrow> (index_descriptor, index_error) result \<times> index_manager" where
  "drop_index mgr name =
     (case map_of mgr name of
        Some idx \<Rightarrow> (Ok (bt_descriptor idx), AList.delete name mgr)
      | None \<Rightarrow> (Err (IndexNotFound name), mgr))"

definition list_indexes :: "index_manager \<Rightarrow> index_descriptor list" where
  "list_indexes mgr = map (\<lambda>(_, idx). bt_descriptor idx) mgr"

definition index_count :: "index_manager \<Rightarrow> nat" where
  "index_count mgr = length mgr"

section \<open>CREATE INDEX\<close>

definition first_word_or_empty :: "string \<Rightarrow> string" where
  "first_word_or_empty s = (case split_whitespace s of [] \<Rightarrow> [] | w # _ \<Rightarrow> w)"

definition parse_create_index_sql :: "string \<Rightarrow> (string \<times> string \<times> string list \<times> bool) option" where
  "parse_create_index_sql sql =
     (let lower = to_lowercase (trim sql);
          start = (case strip_prefix ''create unique index '' lower of
                     Some r \<Rightarrow> Some (r, True)
                   | None \<Rightarrow> map_option (\<lambda>r. (r, False)) (strip_prefix ''create index '' lower))
      in case start of
           None \<Rightarrow> None
         | Some (rest, is_unique) \<Rightarrow>
             (let rest = (case strip_prefix ''if not exists '' rest of Some r \<Rightarrow> r | None \<Rightarrow> rest)
              in case find_str rest '' on '' of
                   None \<Rightarrow> None
                 | Some on_pos \<Rightarrow>
                     (let idx_name = trim (take on_pos rest);
                          after_on = trim (drop (on_pos + 4) rest)
                      in case find_str after_on ''('' of
                           None \<Rightarrow> None
                         | Some paren_pos \<Rightarrow>
                             (let table_name = trim (take paren_pos after_on);
                                  col_list = trim (trim_end_by (\<lambda>c. c = CHR '')'') (drop (paren_pos + 1) after_on));
                                  cols = filter (\<lambda>c. c \<noteq> [])
                                    (map (\<lambda>c. first_word_or_empty (trim c)) (split_str '','' col_list))
                              in if idx_name = [] \<or> table_name = [] \<or> cols = [] then None
                                 else Some (idx_name, table_name, cols, is_unique)))))"

text \<open>
  The rows of a table under a database prefix, with the prefix taken off, and the entries that the
  backfill makes: an entry that violates the uniqueness of the index is left out.
\<close>

definition strip_db :: "string \<Rightarrow> string \<Rightarrow> string" where
  "strip_db db k =
     (if db = [] then k else case strip_prefix (db @ ''.'') k of Some r \<Rightarrow> r | None \<Rightarrow> k)"

definition backfill_rows :: "string \<Rightarrow> string \<Rightarrow> (string \<times> row_data) list \<Rightarrow> (string \<times> row_data) list" where
  "backfill_rows db table rows =
     (let table_prefix = (if db = [] then table @ '':'' else db @ ''.'' @ table @ '':'')
      in map (\<lambda>(k, d). (strip_db db k, d)) (filter (\<lambda>(k, _). starts_with k table_prefix) rows))"

definition backfill_entry :: "string \<Rightarrow> string \<times> row_data \<Rightarrow> btree_index \<Rightarrow> btree_index" where
  "backfill_entry col row idx =
     (case snd row col of Some v \<Rightarrow> snd (index_insert idx v (fst row)) | None \<Rightarrow> idx)"

definition create_column_index ::
  "string \<Rightarrow> string \<Rightarrow> string list \<Rightarrow> bool \<Rightarrow> (string \<times> row_data) list \<Rightarrow> string \<Rightarrow> index_manager \<Rightarrow> index_manager" where
  "create_column_index idx_name table cols is_unique rows col mgr =
     (let entry_name = (if length cols = 1 then idx_name else idx_name @ ''_'' @ col);
          descriptor = \<lparr>ix_name = entry_name, ix_table = table, ix_column = col, ix_kind = BTree,
                        ix_unique = is_unique\<rparr>
      in case create_index mgr descriptor of
           (Inl e, mgr') \<Rightarrow> mgr'
         | (Inr _, mgr') \<Rightarrow>
             (case map_of mgr' entry_name of
                None \<Rightarrow> mgr'
              | Some idx \<Rightarrow> AList.update entry_name (fold (backfill_entry col) rows idx) mgr'))"

definition handle_create_index_ddl :: "paged_row_store \<Rightarrow> string \<Rightarrow> string \<Rightarrow> index_manager \<Rightarrow> index_manager" where
  "handle_create_index_ddl rs sql db mgr =
     (case parse_create_index_sql sql of
        None \<Rightarrow> mgr
      | Some (idx_name, table, cols, is_unique) \<Rightarrow>
          (let rows = backfill_rows db table (scan_at_snapshot rs (current_xid rs))
           in fold (create_column_index idx_name table cols is_unique rows) cols mgr))"

section \<open>The fallback SELECT\<close>

text \<open>The pieces of a WHERE text between the occurrences of \<^verbatim>\<open>AND\<close>, in any case, that the loop cuts out.\<close>

function split_and :: "string \<Rightarrow> string list" where
  "split_and w =
     (case find_str (to_uppercase w) '' AND '' of
        None \<Rightarrow> [w]
      | Some pos \<Rightarrow> take pos w # split_and (drop (pos + 5) w))"
  by pat_completeness auto
termination
proof (relation "measure length", goal_cases)
  case (2 w pos)
  have "find_str [] '' AND '' = None" by (simp add: find_str.simps starts_with_def)
  with 2 have "w \<noteq> []" by (auto simp: to_uppercase_def)
  then show ?case by simp
qed simp

declare split_and.simps [simp del]

definition where_filter :: "string \<Rightarrow> (string \<times> string) option" where
  "where_filter piece =
     (case find_str piece ''='' of
        None \<Rightarrow> None
      | Some eq \<Rightarrow>
          (let lhs = to_lowercase (trim (take eq piece));
               rhs = trim (drop (eq + 1) piece);
               val = trim (trim_by (\<lambda>c. c = CHR 0x22) (trim_by (\<lambda>c. c = CHR 0x27) rhs))
           in if lhs = [] \<or> val = [] then None else Some (lhs, val)))"

definition where_filters :: "select_statement \<Rightarrow> (string \<times> string) list" where
  "where_filters sel =
     (case sel_where_clause sel of
        None \<Rightarrow> []
      | Some w \<Rightarrow> List.map_filter where_filter (split_and w))"

definition scoped_rows :: "string \<Rightarrow> (string \<times> row_data) list \<Rightarrow> (string \<times> row_data) list" where
  "scoped_rows db rows =
     map (\<lambda>(k, d). (strip_db db k, d)) (filter (\<lambda>(k, _). db = [] \<or> starts_with k (db @ ''.'')) rows)"

definition project_row :: "string list \<Rightarrow> row_data \<Rightarrow> row_data" where
  "project_row columns d = (\<lambda>c. if c \<in> set columns \<and> c \<noteq> ''*'' then d c else None)"

definition apply_projection ::
  "(string \<times> row_data) list \<Rightarrow> string list \<Rightarrow> bool \<Rightarrow> (string \<times> row_data) list" where
  "apply_projection batch columns select_star =
     (if select_star then batch else map (\<lambda>(k, d). (k, project_row columns d)) batch)"

definition row_matches :: "(string \<times> string) list \<Rightarrow> row_data \<Rightarrow> bool" where
  "row_matches filters d \<longleftrightarrow>
     list_all (\<lambda>(col, val). case d col of Some v \<Rightarrow> to_lowercase v = to_lowercase val | None \<Rightarrow> False) filters"

text \<open>The index that the equality path uses, if there is one.\<close>

definition usable_index ::
  "index_manager option \<Rightarrow> string option \<Rightarrow> (string \<times> string) list \<Rightarrow> (btree_index \<times> string) option" where
  "usable_index manager table filters =
     (case (manager, table, filters) of
        (Some mgr, Some t, [(col, val)]) \<Rightarrow>
          (case find (\<lambda>d. ix_table d = t \<and> ix_column d = col) (list_indexes mgr) of
             Some desc \<Rightarrow> map_option (\<lambda>idx. (idx, val)) (map_of mgr (ix_name desc))
           | None \<Rightarrow> None)
      | _ \<Rightarrow> None)"

definition execute_oltp_select_legacy ::
  "(string \<Rightarrow> statement option) \<Rightarrow> string \<Rightarrow> paged_row_store \<Rightarrow> nat \<Rightarrow> string \<Rightarrow> xid option \<Rightarrow>
     (string \<times> row_data) list option \<Rightarrow> index_manager option \<Rightarrow> (string \<times> row_data) list \<Rightarrow>
     (string \<times> row_data) list" where
  "execute_oltp_select_legacy adapter stmt_str rs limit db override_snapshot_xid rocksdb_rows manager results =
     (let all_rows = (case rocksdb_rows of
              Some rdb \<Rightarrow> rdb
            | None \<Rightarrow> scoped_rows db (scan_at_snapshot rs
                (case override_snapshot_xid of Some x \<Rightarrow> x | None \<Rightarrow> current_xid rs)))
      in case parse_one adapter stmt_str of
           Inr (SelectStmt sel) \<Rightarrow>
             (let sql_limit = min (case sel_limit sel of Some l \<Rightarrow> l | None \<Rightarrow> limit) limit;
                  filters = where_filters sel;
                  select_star = (sel_columns sel = [] \<or> ''*'' \<in> set (sel_columns sel));
                  remaining = sql_limit - length results
              in case usable_index manager (sel_table sel) filters of
                   Some (idx, val) \<Rightarrow>
                     results @ apply_projection
                       (take remaining (filter (\<lambda>(k, _). k \<in> set (index_lookup idx val)) all_rows))
                       (sel_columns sel) select_star
                 | None \<Rightarrow>
                     results @ apply_projection (take remaining (filter (\<lambda>(_, d). row_matches filters d) all_rows))
                       (sel_columns sel) select_star)
         | _ \<Rightarrow> results)"

text \<open>
  The rows that a query with joins, grouping or subqueries gets for one of its tables, before the
  analytical engine runs it.
\<close>

definition query_table_rows ::
  "string \<Rightarrow> paged_row_store \<Rightarrow> xid option \<Rightarrow> (string \<times> row_data) list option \<Rightarrow> string \<Rightarrow> (string \<times> row_data) list" where
  "query_table_rows db rs snapshot_xid rocksdb_rows name =
     (let all_rows = (case rocksdb_rows of
              Some rdb \<Rightarrow> rdb
            | None \<Rightarrow> scan_at_snapshot rs (case snapshot_xid of Some x \<Rightarrow> x | None \<Rightarrow> current_xid rs));
          prefix = (if db = [] then name @ '':'' else db @ ''.'' @ name @ '':'')
      in map (\<lambda>(k, d). (strip_db db k, d)) (filter (\<lambda>(k, _). k = name \<or> starts_with k prefix) all_rows))"

section \<open>Runs of index operations\<close>

datatype index_op = PutKey string string | TakeKey string string

fun index_run :: "index_op \<Rightarrow> btree_index \<Rightarrow> btree_index" where
  "index_run (PutKey v k) idx = snd (index_insert idx v k)"
| "index_run (TakeKey v k) idx = index_remove idx v k"

text \<open>What the operations mean for the relation between values and row keys.\<close>

fun relation_run :: "index_op \<Rightarrow> (string \<times> string) set \<Rightarrow> (string \<times> string) set" where
  "relation_run (PutKey v k) r = insert (v, k) r"
| "relation_run (TakeKey v k) r = r - {(v, k)}"

definition index_wf :: "btree_index \<Rightarrow> bool" where
  "index_wf idx \<longleftrightarrow>
     btree_wf (bt_tree idx) \<and>
     (\<forall>v ks. map_of (bt_tree idx) v = Some ks \<longrightarrow>
        ks \<noteq> [] \<and> distinct ks \<and> (ix_unique (bt_descriptor idx) \<longrightarrow> length ks = 1))"

definition plain_index :: "btree_index \<Rightarrow> bool" where
  "plain_index idx \<longleftrightarrow> index_wf idx \<and> \<not> ix_unique (bt_descriptor idx)"

section \<open>What a reader of an index relies on\<close>

locale value_index =
  fixes valid :: "'i \<Rightarrow> bool"
    and put :: "'i \<Rightarrow> string \<Rightarrow> string \<Rightarrow> 'i"
    and take_out :: "'i \<Rightarrow> string \<Rightarrow> string \<Rightarrow> 'i"
    and look :: "'i \<Rightarrow> string \<Rightarrow> string list"
  assumes put_valid: "valid i \<Longrightarrow> valid (put i v k)"
    and take_valid: "valid i \<Longrightarrow> valid (take_out i v k)"
    and look_put: "valid i \<Longrightarrow> set (look (put i v k) u) = set (look i u) \<union> (if u = v then {k} else {})"
    and look_take: "valid i \<Longrightarrow> set (look (take_out i v k) u) = set (look i u) - (if u = v then {k} else {})"
begin

lemma filed:
  assumes "valid i"
  shows "valid (fold (\<lambda>(v, k) i. put i v k) es i) \<and>
    set (look (fold (\<lambda>(v, k) i. put i v k) es i) u) = set (look i u) \<union> {k. (u, k) \<in> set es}"
  using assms
proof (induction es arbitrary: i)
  case (Cons e es)
  then show ?case by (cases e) (auto simp: put_valid look_put)
qed simp

end

lemma bucket_btree_set: "bucket (btree_set v ks t) u = (if u = v then ks else bucket t u)"
  by (simp add: bucket_def)

lemma bucket_delete: "bucket (AList.delete v t) u = (if u = v then [] else bucket t u)"
  by (simp add: bucket_def AList.delete_conv')

lemma bucket_update: "bucket (AList.update v ks t) u = (if u = v then ks else bucket t u)"
  by (simp add: bucket_def AList.update_conv')

lemma index_descriptor_kept [simp]:
  "bt_descriptor (snd (index_insert idx v k)) = bt_descriptor idx"
  "bt_descriptor (index_remove idx v k) = bt_descriptor idx"
  by (simp_all add: index_insert_def index_remove_def Let_def split: option.split)

lemma btree_update_wf:
  "btree_wf t \<Longrightarrow> map_of t k \<noteq> None \<Longrightarrow> btree_wf (AList.update k v t)"
  using btree_set_wf [of t k v] by (auto simp: btree_set_def)

lemma index_wfD:
  assumes "index_wf idx" and "map_of (bt_tree idx) v = Some ks"
  shows "ks \<noteq> []" "distinct ks" "ix_unique (bt_descriptor idx) \<Longrightarrow> length ks = 1"
  using assms unfolding index_wf_def by blast+

text \<open>Setting one bucket, or deleting it, keeps the rest.\<close>

lemma index_wf_tree:
  assumes "index_wf idx" and "bt_descriptor idx' = bt_descriptor idx" and "btree_wf (bt_tree idx')"
    and "\<And>u. u \<noteq> v \<Longrightarrow> map_of (bt_tree idx') u = map_of (bt_tree idx) u"
    and "\<And>ks. map_of (bt_tree idx') v = Some ks \<Longrightarrow>
      ks \<noteq> [] \<and> distinct ks \<and> (ix_unique (bt_descriptor idx) \<longrightarrow> length ks = 1)"
  shows "index_wf idx'"
proof -
  have "ks \<noteq> [] \<and> distinct ks \<and> (ix_unique (bt_descriptor idx) \<longrightarrow> length ks = 1)"
    if "map_of (bt_tree idx') u = Some ks" for u ks
  proof (cases "u = v")
    case True
    with that assms(5) show ?thesis by blast
  next
    case False
    from assms(4) [OF False] that have "map_of (bt_tree idx) u = Some ks" by (rule subst)
    with assms(1) show ?thesis unfolding index_wf_def by blast
  qed
  then show ?thesis unfolding index_wf_def assms(2) using assms(3) by blast
qed

lemma index_insert_wf [inv_laws]:
  assumes "index_wf idx"
  shows "index_wf (snd (index_insert idx v k))"
proof (cases "ix_unique (bt_descriptor idx) \<and> bucket (bt_tree idx) v \<noteq> []")
  case False
  let ?entry = "bucket (bt_tree idx) v"
  let ?new = "if k \<in> set ?entry then ?entry else ?entry @ [k]"
  have "distinct ?entry"
  proof (cases "map_of (bt_tree idx) v")
    case (Some ks)
    then have "?entry = ks" by (simp add: bucket_def)
    with index_wfD(2) [OF assms Some] show ?thesis by simp
  qed (simp add: bucket_def)
  then have "?new \<noteq> [] \<and> distinct ?new \<and> (ix_unique (bt_descriptor idx) \<longrightarrow> length ?new = 1)"
    using False by auto
  moreover have "bt_tree (snd (index_insert idx v k)) = btree_set v ?new (bt_tree idx)"
    using False by (auto simp: index_insert_def Let_def)
  moreover have "btree_wf (bt_tree idx)" using assms by (simp add: index_wf_def)
  ultimately show ?thesis by (intro index_wf_tree [OF assms, where v = v]) (simp_all add: btree_set_wf)
qed (use assms in \<open>simp add: index_insert_def\<close>)

lemma index_remove_wf [inv_laws]:
  assumes "index_wf idx"
  shows "index_wf (index_remove idx v k)"
proof (cases "map_of (bt_tree idx) v")
  case (Some ks)
  let ?rest = "filter (\<lambda>x. x \<noteq> k) ks"
  note ks = index_wfD [OF assms Some]
  have wf: "btree_wf (bt_tree idx)" using assms by (simp add: index_wf_def)
  have one: "length ?rest = 1" if "ix_unique (bt_descriptor idx)" "?rest \<noteq> []"
  proof -
    have "0 < length ?rest" using that(2) by blast
    moreover have "length ?rest \<le> 1" using ks(3) [OF that(1)] length_filter_le [of "\<lambda>x. x \<noteq> k" ks] by linarith
    ultimately show ?thesis by linarith
  qed
  show ?thesis
  proof (cases "?rest = []")
    case True
    then have "bt_tree (index_remove idx v k) = AList.delete v (bt_tree idx)"
      using Some by (simp add: index_remove_def Let_def)
    then show ?thesis
      by (intro index_wf_tree [OF assms, where v = v]) (simp_all add: btree_delete_wf wf AList.delete_conv')
  next
    case False
    then have "bt_tree (index_remove idx v k) = AList.update v ?rest (bt_tree idx)"
      using Some by (simp add: index_remove_def Let_def)
    then show ?thesis
      using distinct_filter [OF ks(2), of "\<lambda>x. x \<noteq> k"] one False
      by (intro index_wf_tree [OF assms, where v = v]) (simp_all add: btree_update_wf wf Some AList.update_conv')
  qed
qed (use assms in \<open>simp add: index_remove_def\<close>)

interpretation plain: value_index plain_index "\<lambda>i v k. snd (index_insert i v k)" index_remove index_lookup
proof unfold_locales
  fix i v k u assume i: "plain_index i"
  then show "plain_index (snd (index_insert i v k))" "plain_index (index_remove i v k)"
    by (simp_all add: plain_index_def inv_laws)
  show "set (index_lookup (snd (index_insert i v k)) u) = set (index_lookup i u) \<union> (if u = v then {k} else {})"
    using i by (auto simp: plain_index_def index_insert_def index_lookup_def bucket_btree_set Let_def)
  show "set (index_lookup (index_remove i v k) u) = set (index_lookup i u) - (if u = v then {k} else {})"
    by (auto simp: index_remove_def index_lookup_def bucket_delete bucket_update Let_def bucket_def filter_empty_conv
        split: option.split)
qed

lemma index_new_plain: "\<not> ix_unique d \<Longrightarrow> plain_index (btree_index_new d)"
  by (simp add: plain_index_def index_wf_def btree_index_new_def btree_wf_def)

lemma index_run_refines:
  assumes "plain_index idx" and "\<And>v. set (index_lookup idx v) = {k. (v, k) \<in> r}"
  shows "plain_index (fold index_run ops idx) \<and>
    set (index_lookup (fold index_run ops idx) v) = {k. (v, k) \<in> fold relation_run ops r}"
  using assms
proof (induction ops arbitrary: idx r)
  case (Cons op ops)
  have "plain_index (index_run op idx)"
    using Cons.prems(1) by (cases op) (simp_all add: plain.put_valid plain.take_valid)
  moreover have "set (index_lookup (index_run op idx) v) = {k. (v, k) \<in> relation_run op r}" for v
    using Cons.prems by (cases op) (auto simp: plain.look_put plain.look_take)
  ultimately show ?case using Cons.IH by simp
qed simp

text \<open>
  C39: A non-unique index that was filled by any sequence of insertions and removals answers a lookup with
  exactly the row keys that the sequence leaves under the value, each once, and a range scan with the
  buckets of exactly the values of the range, in the order of the values.
\<close>

theorem index_refines_relation:
  assumes "\<not> ix_unique d" and "start \<le> stop"
    and "idx = fold index_run ops (btree_index_new d)" and "r = fold relation_run ops {}"
  shows "set (index_lookup idx v) = {k. (v, k) \<in> r} \<and> distinct (index_lookup idx v) \<and>
    (\<exists>es. index_range_scan idx start stop = Some es \<and> sorted (map fst es) \<and> distinct (map fst es) \<and>
       (\<forall>u ks. (u, ks) \<in> set es \<longleftrightarrow>
          start \<le> u \<and> u \<le> stop \<and> ks \<noteq> [] \<and> ks = index_lookup idx u))"
proof -
  have "plain_index idx" and look: "set (index_lookup idx v) = {k. (v, k) \<in> r}"
    using index_run_refines [OF index_new_plain [OF assms(1)], of "{}" ops v] assms(3,4)
    by (simp_all add: index_lookup_def btree_index_new_def bucket_def)
  then have idx: "index_wf idx" and wf: "btree_wf (bt_tree idx)"
    unfolding plain_index_def index_wf_def by blast+
  have entries: "(u, ks) \<in> set (bt_tree idx) \<longleftrightarrow> ks \<noteq> [] \<and> ks = index_lookup idx u" for u ks
  proof
    assume "(u, ks) \<in> set (bt_tree idx)"
    then have "map_of (bt_tree idx) u = Some ks" using wf by (simp add: btree_wf_def)
    with index_wfD(1) [OF idx this] show "ks \<noteq> [] \<and> ks = index_lookup idx u"
      by (simp add: index_lookup_def bucket_def)
  next
    assume "ks \<noteq> [] \<and> ks = index_lookup idx u"
    then show "(u, ks) \<in> set (bt_tree idx)"
      by (cases "map_of (bt_tree idx) u") (auto simp: index_lookup_def bucket_def dest: map_of_SomeD)
  qed
  have "distinct (index_lookup idx v)"
    by (cases "map_of (bt_tree idx) v") (auto simp: index_lookup_def bucket_def dest: index_wfD(2) [OF idx])
  moreover
  let ?es = "filter (\<lambda>(u, ks). start \<le> u \<and> u \<le> stop) (bt_tree idx)"
  have "index_range_scan idx start stop = Some ?es"
    using assms(2) by (simp add: index_range_scan_def not_less)
  moreover have "sorted (map fst ?es)" "distinct (map fst ?es)"
    using wf(1) by (simp_all add: btree_wf_def sorted_filter distinct_map_filter)
  moreover have "(u, ks) \<in> set ?es \<longleftrightarrow> start \<le> u \<and> u \<le> stop \<and> ks \<noteq> [] \<and> ks = index_lookup idx u" for u ks
    using entries [of u ks] by auto
  ultimately show ?thesis using look by blast
qed

section \<open>A fresh index answers like a scan\<close>

lemma starts_with_iff: "starts_with k p \<longleftrightarrow> (\<exists>r. k = p @ r)"
  unfolding starts_with_def by (metis append_take_drop_id append_eq_conv_conj)

lemma starts_with_append_iff:
  "starts_with k (p @ q) \<longleftrightarrow> starts_with k p \<and> starts_with (drop (length p) k) q"
  by (auto simp: starts_with_iff)

lemma strip_db_scoped: "db \<noteq> [] \<Longrightarrow> starts_with k (db @ ''.'') \<Longrightarrow> strip_db db k = drop (length db + 1) k"
  by (simp add: strip_db_def strip_prefix_def)

lemma backfill_scoped:
  "backfill_rows db table rows = filter (\<lambda>(k, _). starts_with k (table @ '':'')) (scoped_rows db rows)"
proof -
  have "starts_with k (if db = [] then table @ '':'' else db @ ''.'' @ table @ '':'') \<longleftrightarrow>
      (db = [] \<or> starts_with k (db @ ''.'')) \<and> starts_with (strip_db db k) (table @ '':'')" for k
  proof (cases "db = []")
    case False
    then show ?thesis
      using starts_with_append_iff [of k "db @ ''.''" "table @ '':''"] strip_db_scoped [of db k] by auto
  qed (simp add: strip_db_def)
  then show ?thesis
    by (auto simp: backfill_rows_def scoped_rows_def Let_def filter_map intro!: arg_cong [where f = "map _"] filter_cong)
qed

lemma scoped_keys_distinct:
  assumes "distinct (map fst rows)"
  shows "distinct (map fst (scoped_rows db rows))"
proof (cases "db = []")
  case True
  then show ?thesis using assms by (simp add: scoped_rows_def strip_db_def case_prod_unfold comp_def)
next
  case False
  have inj: "k = k'" if "strip_db db k = strip_db db k'" "starts_with k (db @ ''.'')" "starts_with k' (db @ ''.'')" for k k'
  proof -
    have "drop (length (db @ ''.'')) k = drop (length (db @ ''.'')) k'"
      using that(1) strip_db_scoped [OF False that(2)] strip_db_scoped [OF False that(3)] by simp
    moreover have "take (length (db @ ''.'')) k = take (length (db @ ''.'')) k'"
      using that(2,3) by (simp add: starts_with_def)
    ultimately show ?thesis by (metis append_take_drop_id)
  qed
  have keys: "map fst (scoped_rows db rows) = map (strip_db db) (filter (\<lambda>k. starts_with k (db @ ''.'')) (map fst rows))"
    using False by (simp add: scoped_rows_def case_prod_unfold comp_def filter_map)
  show ?thesis
    unfolding keys using assms inj by (auto simp: distinct_map intro!: inj_onI)
qed

lemma backfill_entries:
  "fold (backfill_entry col) rows idx =
     fold (\<lambda>(v, k) i. snd (index_insert i v k))
       (List.map_filter (\<lambda>(k, d). map_option (\<lambda>v. (v, k)) (d col)) rows) idx"
  by (induction rows arbitrary: idx) (auto simp: backfill_entry_def List.map_filter_simps split: option.split)

lemma backfill_lookup:
  assumes "\<not> ix_unique d"
  shows "set (index_lookup (fold (backfill_entry col) rows (btree_index_new d)) v) =
    {k. \<exists>r. (k, r) \<in> set rows \<and> r col = Some v}"
proof -
  have "index_lookup (btree_index_new d) v = []"
    by (simp add: index_lookup_def btree_index_new_def bucket_def)
  then show ?thesis
    using plain.filed [OF index_new_plain [OF assms]]
    by (force simp: backfill_entries map_filter_def)
qed

lemma backfill_descriptor [simp]: "bt_descriptor (fold (backfill_entry col) rows idx) = bt_descriptor idx"
  by (induction rows arbitrary: idx) (auto simp: backfill_entry_def split: option.split)

lemma update_absent: "k \<notin> fst ` set m \<Longrightarrow> AList.update k v m = m @ [(k, v)]"
  by (induction m) auto

lemma update_last: "k \<notin> fst ` set m \<Longrightarrow> AList.update k v (m @ [(k, u)]) = m @ [(k, v)]"
  by (induction m) auto

text \<open>The index that CREATE INDEX makes for one column of a table.\<close>

definition new_index :: "string \<Rightarrow> string \<Rightarrow> string \<Rightarrow> (string \<times> row_data) list \<Rightarrow> btree_index" where
  "new_index name table col rows = fold (backfill_entry col) rows
     (btree_index_new \<lparr>ix_name = name, ix_table = table, ix_column = col, ix_kind = BTree, ix_unique = False\<rparr>)"

lemma create_index_appends:
  assumes "parse_create_index_sql ddl = Some (name, table, [col], False)" and "name \<notin> fst ` set mgr"
  shows "handle_create_index_ddl rs ddl db mgr =
    mgr @ [(name, new_index name table col (backfill_rows db table (scan_at_snapshot rs (current_xid rs))))]"
proof -
  have absent: "map_of mgr name = None" using assms(2) by (simp add: map_of_eq_None_iff)
  then show ?thesis
    using assms
    by (simp add: handle_create_index_ddl_def create_column_index_def create_index_def Let_def new_index_def
        update_absent update_last map_add_def)
qed

lemma new_index_used:
  assumes "name \<notin> fst ` set mgr" and "\<forall>d\<in>set (list_indexes mgr). \<not> (ix_table d = table \<and> ix_column d = col)"
  shows "usable_index (Some (mgr @ [(name, new_index name table col rows)])) (Some table) [(col, val)] =
    Some (new_index name table col rows, val)"
proof -
  have "find (\<lambda>d. ix_table d = table \<and> ix_column d = col) (list_indexes mgr) = None"
    using assms(2) by (simp add: find_None_iff)
  then have "find (\<lambda>d. ix_table d = table \<and> ix_column d = col)
      (list_indexes (mgr @ [(name, new_index name table col rows)])) =
      Some \<lparr>ix_name = name, ix_table = table, ix_column = col, ix_kind = BTree, ix_unique = False\<rparr>"
    by (simp add: list_indexes_def find_append new_index_def btree_index_new_def)
  moreover have "map_of mgr name = None" using assms(1) by (simp add: map_of_eq_None_iff)
  ultimately show ?thesis by (simp add: usable_index_def map_add_def)
qed

lemma new_index_rows:
  assumes "distinct (map fst rows)"
  shows "filter (\<lambda>(k, _). k \<in> set (index_lookup (new_index name table col (backfill_rows db table rows)) val))
      (scoped_rows db rows) =
    filter (\<lambda>(k, d). starts_with k (table @ '':'') \<and> d col = Some val) (scoped_rows db rows)"
proof (rule filter_cong [OF refl], clarify)
  fix k d assume kd: "(k, d) \<in> set (scoped_rows db rows)"
  have "k \<in> set (index_lookup (new_index name table col (backfill_rows db table rows)) val) \<longleftrightarrow>
      (\<exists>r. (k, r) \<in> set (scoped_rows db rows) \<and> starts_with k (table @ '':'') \<and> r col = Some val)"
    by (auto simp: new_index_def backfill_lookup backfill_scoped)
  also have "\<dots> \<longleftrightarrow> starts_with k (table @ '':'') \<and> d col = Some val"
    using kd scoped_keys_distinct [OF assms, of db] by (auto dest: eq_key_imp_eq_value)
  finally show "(k \<in> set (index_lookup (new_index name table col (backfill_rows db table rows)) val)) =
      (starts_with k (table @ '':'') \<and> d col = Some val)" .
qed


theorem index_refines_relation_witness:
  "set (index_lookup (fold index_run [PutKey ''x'' ''t:1'', PutKey ''x'' ''t:2'', TakeKey ''x'' ''t:1'']
     (btree_index_new \<lparr>ix_name = ''i'', ix_table = ''t'', ix_column = ''a'', ix_kind = BTree, ix_unique = False\<rparr>)) ''x'') =
   {''t:2''}"
  using index_refines_relation
    [of "\<lparr>ix_name = ''i'', ix_table = ''t'', ix_column = ''a'', ix_kind = BTree, ix_unique = False\<rparr>" "''a''" "''a''" _
      "[PutKey ''x'' ''t:1'', PutKey ''x'' ''t:2'', TakeKey ''x'' ''t:1'']" _ "''x''"]
  by auto

section \<open>Indexes over time\<close>

definition example_row :: row_data where
  "example_row = [''a'' \<mapsto> ''x'']"

definition example_select :: select_statement where
  "example_select = \<lparr>sel_columns = [''*''], sel_table = Some ''t'', sel_where_clause = Some ''a = x'', sel_group_by = [],
     sel_having = None, sel_order_by = [], sel_join = None, sel_limit = None, sel_offset = None,
     sel_has_limit_offset_pagination = False\<rparr>"

definition example_adapter :: "string \<Rightarrow> statement option" where
  "example_adapter sql = Some (SelectStmt example_select)"

definition example_store :: "(string \<times> row_data) list \<Rightarrow> paged_row_store" where
  "example_store rows = (case Mvcc.insert_rows 1 rows (snd (begin_xid fresh_store)) of Some s \<Rightarrow> s | None \<Rightarrow> fresh_store)"

definition example_keys :: "paged_row_store \<Rightarrow> index_manager option \<Rightarrow> string list" where
  "example_keys rs manager =
     map fst (execute_oltp_select_legacy example_adapter ''SELECT * FROM t WHERE a = x'' rs 10 [] None None manager [])"

lemma example_create: "parse_create_index_sql ''CREATE INDEX i ON t (a)'' = Some (''i'', ''t'', [''a''], False)"
  by code_simp

lemma example_filters: "where_filters example_select = [(''a'', ''x'')]"
  by code_simp

lemma example_select_parsed: "parse_one example_adapter sql = Ok (SelectStmt example_select)"
  by (simp add: parse_one_def example_adapter_def)


text \<open>
  Nothing files a row that is written after the index was created: the query that uses the index does not
  return it, the scan does.
\<close>

theorem index_misses_later_rows:
  "example_keys (example_store [(''t:1'', example_row), (''t:2'', example_row)])
     (Some (handle_create_index_ddl (example_store [(''t:1'', example_row)]) ''CREATE INDEX i ON t (a)'' [] [])) = [''t:1''] \<and>
   example_keys (example_store [(''t:1'', example_row), (''t:2'', example_row)]) None = [''t:1'', ''t:2'']"
  by code_simp

text \<open>
  A unique index over values that repeat keeps the first row of each value, and the query that uses it
  returns that row only.
\<close>

theorem unique_index_hides_rows:
  "example_keys (example_store [(''t:1'', example_row), (''t:2'', example_row)])
     (Some (handle_create_index_ddl (example_store [(''t:1'', example_row), (''t:2'', example_row)])
        ''CREATE UNIQUE INDEX i ON t (a)'' [] [])) = [''t:1'']"
  by code_simp

text \<open>Without an index the query does not look at its table at all.\<close>

theorem select_ignores_table:
  assumes "parse_one adapter s = Ok (SelectStmt sel)" and "parse_one adapter s' = Ok (SelectStmt (sel\<lparr>sel_table := t\<rparr>))"
  shows "execute_oltp_select_legacy adapter s rs limit db snap rocksdb_rows None results =
    execute_oltp_select_legacy adapter s' rs limit db snap rocksdb_rows None results"
  using assms by (simp add: execute_oltp_select_legacy_def usable_index_def where_filters_def)

text \<open>
  The rows that the RocksDB engine returns carry no database prefix, but the rows of a join or a grouping
  are looked up with it: in a named database such a query sees no rows.
\<close>

theorem join_sees_no_rocksdb_rows:
  assumes "db \<noteq> []" and "\<forall>(k, d)\<in>set rdb. \<not> starts_with k (db @ ''.'') \<and> k \<noteq> name"
  shows "query_table_rows db rs snap (Some rdb) name = []"
  using assms starts_with_append_iff [of _ "db @ ''.''" "name @ '':''"]
  by (auto simp: query_table_rows_def Let_def filter_empty_conv)

end
