(* ===== verification/Ddl_Catalog.thy ===== *)
theory Ddl_Catalog
  imports Vng_Text
begin

text \<open>
  The catalog of SQL objects: \<^verbatim>\<open>crates/voltnuerongrid-store/src/ddl_catalog.rs\<close>, the statement loop that
  feeds it in \<^verbatim>\<open>services/voltnuerongridd/src/handlers/sql.rs\<close> and the replay of logged statements in
  \<^verbatim>\<open>helpers/boot.rs\<close>.

  The catalog is an association list from qualified names to entries, in the iteration order of the
  hash map. \<open>live_ddl\<close> is one turn of the statement loop, on the catalog and the DDL log; what the loop
  does to the cache and the partition registry is left out. The lemmas show when the replay of the log
  gives back the catalog, which entry a name finds, and that adding and dropping a column cancel out in the
  stored statement. A slice out of range in \<^verbatim>\<open>remove_column_from_ddl\<close> is \<open>None\<close>. Texts are ASCII.
\<close>

section \<open>Entries and names\<close>

record ddl_catalog_entry =
  de_object_name :: string
  de_database_name :: string
  de_schema_name :: string
  de_object_kind :: string
  de_original_statement :: string
  de_created_at_unix_ms :: nat
  de_last_altered_at_unix_ms :: "nat option"
  de_alteration_count :: nat
  de_dropped :: bool

datatype catalog_result =
    Created | Replaced | AlterApplied | Dropped | NotFound | AlreadyDropped | AlreadyExists

type_synonym ddl_catalog = "(string \<times> ddl_catalog_entry) list"

definition fold_name :: "string \<Rightarrow> string" where
  "fold_name s = to_lowercase (trim s)"

definition qualified_key :: "string \<Rightarrow> string \<Rightarrow> string \<Rightarrow> string" where
  "qualified_key db schema name = fold_name db @ ''.'' @ fold_name schema @ ''.'' @ fold_name name"

definition split_first_paren :: "string \<Rightarrow> string" where
  "split_first_paren raw = takeWhile (\<lambda>c. c \<noteq> CHR ''('') raw"

definition trim_marks :: "string \<Rightarrow> string" where
  "trim_marks s = trim_by (\<lambda>c. c = CHR '')'' \<or> c = CHR '';'' \<or> c = CHR '','') s"

definition parse_qualifiers :: "string \<Rightarrow> string \<times> string \<times> string" where
  "parse_qualifiers raw =
     (let base = to_lowercase (trim_marks (split_first_paren raw))
      in case splitn 3 (CHR ''.'') base of
           [db, schema, name] \<Rightarrow> (db, schema, name)
         | [schema, name] \<Rightarrow> (''default'', schema, name)
         | [name] \<Rightarrow> (''default'', ''public'', name)
         | _ \<Rightarrow> (''default'', ''public'', base))"

definition parse_schema_qualifiers :: "string \<Rightarrow> string \<times> string \<times> string" where
  "parse_schema_qualifiers raw =
     (let base = to_lowercase (trim_marks raw)
      in case split_str ''.'' base of
           [db, schema] \<Rightarrow> (db, schema, schema)
         | [schema] \<Rightarrow> (''default'', schema, schema)
         | _ \<Rightarrow> (''default'', base, base))"

record ddl_object_info =
  di_operation :: string
  di_object_kind :: string
  di_object_name :: string
  di_database_name :: string
  di_schema_name :: string
  di_replace_ok :: bool

text \<open>
  The arms of the \<^verbatim>\<open>match\<close> on the words of a statement, in their order: the words before the name, the
  operation, the kind and the replacement flag.
\<close>

definition ddl_forms :: "(string list \<times> string \<times> string \<times> bool) list" where
  "ddl_forms =
     [([''create'', ''table''], ''create'', ''table'', False),
      ([''create'', ''view''], ''create'', ''view'', False),
      ([''create'', ''materialized'', ''view''], ''create'', ''materialized_view'', False),
      ([''create'', ''function''], ''create'', ''function'', False),
      ([''create'', ''trigger''], ''create'', ''trigger'', False),
      ([''create'', ''event''], ''create'', ''event'', False),
      ([''create'', ''or'', ''replace'', ''function''], ''create'', ''function'', True),
      ([''create'', ''or'', ''replace'', ''view''], ''create'', ''view'', True),
      ([''create'', ''or'', ''replace'', ''table''], ''create'', ''table'', True),
      ([''create'', ''schema''], ''create'', ''schema'', False),
      ([''create'', ''index''], ''create'', ''index'', False),
      ([''create'', ''unique'', ''index''], ''create'', ''index'', False),
      ([''drop'', ''index'', ''if'', ''exists''], ''drop'', ''index'', False),
      ([''drop'', ''index''], ''drop'', ''index'', False),
      ([''drop'', ''table'', ''if'', ''exists''], ''drop'', ''table'', False),
      ([''drop'', ''table''], ''drop'', ''table'', False),
      ([''drop'', ''view'', ''if'', ''exists''], ''drop'', ''view'', False),
      ([''drop'', ''view''], ''drop'', ''view'', False),
      ([''drop'', ''function'', ''if'', ''exists''], ''drop'', ''function'', False),
      ([''drop'', ''function''], ''drop'', ''function'', False),
      ([''drop'', ''trigger'', ''if'', ''exists''], ''drop'', ''trigger'', False),
      ([''drop'', ''trigger''], ''drop'', ''trigger'', False),
      ([''drop'', ''event'', ''if'', ''exists''], ''drop'', ''event'', False),
      ([''drop'', ''event''], ''drop'', ''event'', False),
      ([''drop'', ''schema'', ''if'', ''exists''], ''drop'', ''schema'', False),
      ([''drop'', ''schema''], ''drop'', ''schema'', False),
      ([''alter'', ''table''], ''alter'', ''table'', False)]"

fun match_form :: "string list \<Rightarrow> string list \<Rightarrow> string option" where
  "match_form [] (w # ws) = Some w"
| "match_form (p # ps) (w # ws) = (if p = w then match_form ps ws else None)"
| "match_form ps [] = None"

fun match_forms ::
  "(string list \<times> string \<times> string \<times> bool) list \<Rightarrow> string list \<Rightarrow> ddl_object_info option" where
  "match_forms [] words = None"
| "match_forms ((pattern, operation, kind, replace_ok) # forms) words =
     (case match_form pattern words of
        None \<Rightarrow> match_forms forms words
      | Some raw \<Rightarrow>
          (let (db, schema, name) = (if kind = ''schema'' then parse_schema_qualifiers raw else parse_qualifiers raw)
           in Some \<lparr>di_operation = operation, di_object_kind = kind, di_object_name = name, di_database_name = db,
                    di_schema_name = schema, di_replace_ok = replace_ok\<rparr>))"

definition parse_ddl_info :: "string \<Rightarrow> ddl_object_info option" where
  "parse_ddl_info sql = match_forms ddl_forms (split_whitespace (to_lowercase (trim sql)))"

section \<open>Changing a stored statement\<close>

text \<open>\<^verbatim>\<open>splitn(2, sep)\<close> with both pieces.\<close>

definition split_once_str :: "string \<Rightarrow> string \<Rightarrow> (string \<times> string) option" where
  "split_once_str sep s = map_option (\<lambda>n. (take n s, drop (n + length sep) s)) (find_str s sep)"

definition strip_or_keep :: "string \<Rightarrow> string \<Rightarrow> string" where
  "strip_or_keep p s = (case strip_prefix p s of Some r \<Rightarrow> r | None \<Rightarrow> s)"

definition parse_alter_add_column :: "string \<Rightarrow> (string \<times> string \<times> string) option" where
  "parse_alter_add_column sql =
     (let lower = to_lowercase (trim sql)
      in case strip_prefix ''alter table '' lower of
           None \<Rightarrow> None
         | Some rest \<Rightarrow>
             (case split_once_str '' add '' rest of
                None \<Rightarrow> None
              | Some (t, after) \<Rightarrow>
                  (let col_rest = strip_or_keep ''column '' (trim after);
                       (first, col_def) = (case split_once_str '' '' col_rest of
                          Some (a, b) \<Rightarrow> (a, b) | None \<Rightarrow> (col_rest, ''text''));
                       col_name = trim first
                   in if col_name = [] then None
                      else case find_str lower col_name of
                             None \<Rightarrow> None
                           | Some pos \<Rightarrow>
                               (let col_def_original = trim (drop (pos + length col_name) sql)
                                in Some (trim t, col_name,
                                     if col_def_original = [] then trim col_def else col_def_original)))))"

definition parse_alter_drop_column :: "string \<Rightarrow> (string \<times> string) option" where
  "parse_alter_drop_column sql =
     (case strip_prefix ''alter table '' (to_lowercase (trim sql)) of
        None \<Rightarrow> None
      | Some rest \<Rightarrow>
          (case split_once_str '' drop '' rest of
             None \<Rightarrow> None
           | Some (t, after) \<Rightarrow>
               (let col_name = trim_end_by (\<lambda>c. c = CHR '';'') (trim (strip_or_keep ''column '' (trim after)))
                in if col_name = [] then None else Some (trim t, col_name))))"

definition list_end_char :: "char \<Rightarrow> bool" where
  "list_end_char c \<longleftrightarrow> c \<in> {CHR '' '', CHR 0x09, CHR 0x0A, CHR 0x0D, CHR '',''}"

definition apply_add_column_to_ddl :: "string \<Rightarrow> string \<Rightarrow> string \<Rightarrow> string" where
  "apply_add_column_to_ddl original_ddl col_name col_def =
     (case rfind_char (CHR '')'') original_ddl of
        None \<Rightarrow> original_ddl @ '', '' @ col_name @ '' '' @ col_def
      | Some pos \<Rightarrow>
          trim_end_by list_end_char (take pos original_ddl) @ '', '' @ col_name @ '' '' @ col_def @ drop pos original_ddl)"

definition leading_word :: "string \<Rightarrow> string" where
  "leading_word s = (case split_whitespace s of [] \<Rightarrow> [] | w # _ \<Rightarrow> w)"

definition remove_column_from_ddl :: "string \<Rightarrow> string \<Rightarrow> string option" where
  "remove_column_from_ddl original_ddl col_name =
     (case (find_str original_ddl ''('', rfind_char (CHR '')'') original_ddl) of
        (Some o_pos, Some c_pos) \<Rightarrow>
          if c_pos < o_pos + 1 then None
          else
            (let col_list = take (c_pos - (o_pos + 1)) (drop (o_pos + 1) original_ddl);
                 remaining = filter (\<lambda>d. leading_word (to_lowercase (trim d)) \<noteq> to_lowercase col_name)
                   (split_str '','' col_list)
             in Some (take (o_pos + 1) original_ddl @ join '','' remaining @ drop c_pos original_ddl))
      | _ \<Rightarrow> Some original_ddl)"

section \<open>Catalog operations\<close>

definition record_create ::
  "string \<Rightarrow> string \<Rightarrow> string \<Rightarrow> string \<Rightarrow> string \<Rightarrow> nat \<Rightarrow> bool \<Rightarrow> ddl_catalog \<Rightarrow> catalog_result \<times> ddl_catalog" where
  "record_create kind db schema name statement now_ms replace_ok cat =
     (let key = qualified_key db schema name;
          new = AList.update key
            \<lparr>de_object_name = fold_name name, de_database_name = fold_name db, de_schema_name = fold_name schema,
             de_object_kind = kind, de_original_statement = statement, de_created_at_unix_ms = now_ms,
             de_last_altered_at_unix_ms = None, de_alteration_count = 0, de_dropped = False\<rparr> cat
      in case map_of cat key of
           Some existing \<Rightarrow>
             if \<not> de_dropped existing \<and> \<not> replace_ok then (AlreadyExists, cat) else (Replaced, new)
         | None \<Rightarrow> (Created, new))"

definition record_drop :: "string \<Rightarrow> string \<Rightarrow> string \<Rightarrow> ddl_catalog \<Rightarrow> catalog_result \<times> ddl_catalog" where
  "record_drop db schema name cat =
     (let key = qualified_key db schema name
      in case map_of cat key of
           None \<Rightarrow> (NotFound, cat)
         | Some e \<Rightarrow>
             if de_dropped e then (AlreadyDropped, cat) else (Dropped, AList.update key (e\<lparr>de_dropped := True\<rparr>) cat))"

definition altered_statement :: "string \<Rightarrow> string \<Rightarrow> string option" where
  "altered_statement original statement =
     (let lower = to_lowercase (trim statement)
      in if contains lower '' add ''
         then Some (case parse_alter_add_column statement of
                      Some (_, col_name, col_def) \<Rightarrow> apply_add_column_to_ddl original col_name col_def
                    | None \<Rightarrow> original)
         else if contains lower '' drop ''
         then (case parse_alter_drop_column statement of
                 Some (_, col_name) \<Rightarrow> remove_column_from_ddl original col_name
               | None \<Rightarrow> Some original)
         else Some original)"

definition record_alter ::
  "string \<Rightarrow> string \<Rightarrow> string \<Rightarrow> string \<Rightarrow> nat \<Rightarrow> ddl_catalog \<Rightarrow> (catalog_result \<times> ddl_catalog) option" where
  "record_alter db schema name statement now_ms cat =
     (let key = qualified_key db schema name
      in case map_of cat key of
           None \<Rightarrow> Some (NotFound, cat)
         | Some e \<Rightarrow>
             if de_dropped e then Some (AlreadyDropped, cat)
             else map_option (\<lambda>st. (AlterApplied, AList.update key
                    (e\<lparr>de_original_statement := st, de_last_altered_at_unix_ms := Some now_ms,
                       de_alteration_count := de_alteration_count e + 1\<rparr>) cat))
                  (altered_statement (de_original_statement e) statement))"

definition active_entries :: "ddl_catalog \<Rightarrow> ddl_catalog_entry list" where
  "active_entries cat = filter (\<lambda>e. \<not> de_dropped e) (map snd cat)"

definition all_entries :: "ddl_catalog \<Rightarrow> ddl_catalog_entry list" where
  "all_entries cat = map snd cat"

definition ddl_get :: "ddl_catalog \<Rightarrow> string \<Rightarrow> ddl_catalog_entry option" where
  "ddl_get cat name =
     (let lower = fold_name name
      in case map_of cat lower of
           Some e \<Rightarrow> Some e
         | None \<Rightarrow>
             (let dot_count = length (filter (\<lambda>c. c = CHR ''.'') lower)
              in if dot_count = 0 then map_of cat (''default.public.'' @ lower)
                 else if dot_count = 1 then map_of cat (''default.'' @ lower)
                 else None))"

definition total_count :: "ddl_catalog \<Rightarrow> nat" where
  "total_count cat = length cat"

definition active_count :: "ddl_catalog \<Rightarrow> nat" where
  "active_count cat = length (filter (\<lambda>(_, e). \<not> de_dropped e) cat)"

definition purge_database :: "string \<Rightarrow> ddl_catalog \<Rightarrow> nat \<times> ddl_catalog" where
  "purge_database database_name cat =
     (let lower = fold_name database_name;
          keys_to_remove = map fst (filter (\<lambda>(_, e). to_lowercase (de_database_name e) = lower) cat)
      in (length keys_to_remove, fold AList.delete keys_to_remove cat))"

definition list_active_functions :: "ddl_catalog \<Rightarrow> ddl_catalog_entry list" where
  "list_active_functions cat = filter (\<lambda>e. \<not> de_dropped e \<and> de_object_kind e = ''function'') (map snd cat)"

definition get_active_function :: "ddl_catalog \<Rightarrow> string \<Rightarrow> ddl_catalog_entry option" where
  "get_active_function cat name =
     find (\<lambda>e. \<not> de_dropped e \<and> de_object_kind e = ''function'' \<and> de_object_name e = fold_name name) (map snd cat)"

section \<open>Segments of a table\<close>

text \<open>The registry of partition segments; \<open>segment_id\<close> reads the number of a segment's metadata.\<close>

definition register_partition_segments ::
  "string \<Rightarrow> 's list \<Rightarrow> (string \<times> 's list) list \<Rightarrow> (string \<times> 's list) list" where
  "register_partition_segments table segments reg = AList.update (to_lowercase table) segments reg"

definition get_segments_for_table :: "(string \<times> 's list) list \<Rightarrow> string \<Rightarrow> 's list" where
  "get_segments_for_table reg table =
     (case map_of reg (to_lowercase table) of Some segs \<Rightarrow> segs | None \<Rightarrow> [])"

definition get_segment_by_id :: "('s \<Rightarrow> nat) \<Rightarrow> (string \<times> 's list) list \<Rightarrow> nat \<Rightarrow> 's option" where
  "get_segment_by_id segment_id reg seg_id = find (\<lambda>s. segment_id s = seg_id) (concat (map snd reg))"

fun update_segments :: "('s \<Rightarrow> bool) \<Rightarrow> 's \<Rightarrow> (string \<times> 's list) list \<Rightarrow> (string \<times> 's list) list option" where
  "update_segments P updated [] = None"
| "update_segments P updated ((t, segs) # reg) =
     (case update_first P (\<lambda>_. updated) segs of
        Some segs' \<Rightarrow> Some ((t, segs') # reg)
      | None \<Rightarrow> map_option (Cons (t, segs)) (update_segments P updated reg))"

definition update_segment_metadata ::
  "('s \<Rightarrow> nat) \<Rightarrow> nat \<Rightarrow> 's \<Rightarrow> (string \<times> 's list) list \<Rightarrow> (unit, string) result \<times> (string \<times> 's list) list" where
  "update_segment_metadata segment_id seg_id updated reg =
     (case update_segments (\<lambda>s. segment_id s = seg_id) updated reg of
        Some reg' \<Rightarrow> (Ok (), reg')
      | None \<Rightarrow> (Err (''Segment SegmentId('' @ show_nat seg_id @ '') not found''), reg))"

definition drop_table_segments :: "string \<Rightarrow> (string \<times> 's list) list \<Rightarrow> (string \<times> 's list) list" where
  "drop_table_segments table reg = AList.delete (to_lowercase table) reg"

section \<open>Statements that change the catalog\<close>

text \<open>
  The replay of one logged statement, and of the log.
\<close>

definition apply_ddl_to_catalog :: "nat \<Rightarrow> string \<Rightarrow> ddl_catalog \<Rightarrow> ddl_catalog option" where
  "apply_ddl_to_catalog now_ms sql cat =
     (case parse_ddl_info sql of
        None \<Rightarrow> Some cat
      | Some info \<Rightarrow>
          if di_operation info = ''create''
          then Some (snd (record_create (di_object_kind info) (di_database_name info) (di_schema_name info)
                 (di_object_name info) sql now_ms (di_replace_ok info) cat))
          else if di_operation info = ''drop''
          then Some (snd (record_drop (di_database_name info) (di_schema_name info) (di_object_name info) cat))
          else if di_operation info = ''alter''
          then map_option snd (record_alter (di_database_name info) (di_schema_name info) (di_object_name info) sql now_ms cat)
          else Some cat)"

definition replay_ddl_into :: "nat \<Rightarrow> string list \<Rightarrow> ddl_catalog \<Rightarrow> ddl_catalog option" where
  "replay_ddl_into now_ms stmts cat = fold_opt (apply_ddl_to_catalog now_ms) stmts cat"

text \<open>
  One turn of the statement loop: the catalog, the DDL log (the statement is appended to it when it is
  persisted) and the warning.
\<close>

definition live_create ::
  "nat \<Rightarrow> string \<Rightarrow> ddl_object_info \<Rightarrow> ddl_catalog \<times> string list \<times> string option \<Rightarrow>
     ddl_catalog \<times> string list \<times> string option" where
  "live_create now_ms stmt info st =
     (let (cat, log, warning) = st;
          create = (\<lambda>kind replace_ok. record_create kind (di_database_name info) (di_schema_name info)
            (di_object_name info) stmt now_ms replace_ok);
          (result, cat') = create (di_object_kind info) (di_replace_ok info) cat
      in if result = AlreadyExists
         then (cat', log, Some (di_object_kind info @ '' '' @ [CHR 0x27] @ di_object_name info @ [CHR 0x27] @
                '' already exists''))
         else if di_object_kind info = ''materialized_view'' \<and> contains (to_uppercase stmt) ''WITH INCREMENTAL''
         then (snd (create ''incremental_matview'' True cat'), log @ [stmt], warning)
         else (cat', log @ [stmt], warning))"

definition live_ddl ::
  "nat \<Rightarrow> string \<Rightarrow> ddl_catalog \<times> string list \<times> string option \<Rightarrow>
     (ddl_catalog \<times> string list \<times> string option) option" where
  "live_ddl now_ms stmt st =
     (let (cat, log, warning) = st
      in case parse_ddl_info stmt of
           None \<Rightarrow> Some st
         | Some info \<Rightarrow>
             if di_operation info = ''create'' \<and> di_object_kind info = ''index'' then Some (cat, log @ [stmt], warning)
             else if di_operation info = ''create'' then Some (live_create now_ms stmt info st)
             else if di_operation info = ''drop''
             then Some (snd (record_drop (di_database_name info) (di_schema_name info) (di_object_name info) cat),
                    log @ [stmt], warning)
             else if di_operation info = ''alter''
             then map_option (\<lambda>(_, cat'). (cat', log @ [stmt], warning))
                    (record_alter (di_database_name info) (di_schema_name info) (di_object_name info) stmt now_ms cat)
             else Some st)"

text \<open>The drop of a materialized view, which goes around the loop.\<close>

definition drop_materialized_view :: "string \<Rightarrow> ddl_catalog \<Rightarrow> catalog_result \<times> ddl_catalog" where
  "drop_materialized_view stmt cat =
     (let upper = to_uppercase (trim_start stmt);
          view_name = to_lowercase (trim_end_by (\<lambda>c. c = CHR '';'')
            (trim (trim_start_matches ''DROP MATERIALIZED VIEW '' upper)))
      in record_drop [] [] view_name cat)"

section \<open>The log gives back the catalog\<close>

text \<open>Entries up to their time stamps.\<close>

definition undated :: "ddl_catalog_entry \<Rightarrow> ddl_catalog_entry" where
  "undated e = e\<lparr>de_created_at_unix_ms := 0, de_last_altered_at_unix_ms := map_option (\<lambda>_. 0) (de_last_altered_at_unix_ms e)\<rparr>"

definition undated_catalog :: "ddl_catalog \<Rightarrow> ddl_catalog" where
  "undated_catalog cat = map (\<lambda>(k, e). (k, undated e)) cat"

text \<open>Statements that the loop records under the kind that the replay gives them.\<close>

definition replayable :: "string \<Rightarrow> bool" where
  "replayable stmt \<longleftrightarrow>
     (case parse_ddl_info stmt of
        None \<Rightarrow> True
      | Some info \<Rightarrow>
          \<not> (di_operation info = ''create'' \<and> di_object_kind info = ''index'') \<and>
          \<not> (di_object_kind info = ''materialized_view'' \<and> contains (to_uppercase stmt) ''WITH INCREMENTAL''))"

lemma undated_lookup: "map_of (undated_catalog cat) k = map_option undated (map_of cat k)"
  by (simp add: undated_catalog_def map_of_map)

lemma undated_update: "undated_catalog (AList.update k e cat) = AList.update k (undated e) (undated_catalog cat)"
  by (induction cat) (auto simp: undated_catalog_def)

lemma undated_fields [simp]:
  "de_dropped (undated e) = de_dropped e"
  "de_original_statement (undated e) = de_original_statement e"
  by (simp_all add: undated_def)

lemma undated_eq_fields:
  assumes "undated e = undated e'"
  shows "de_dropped e = de_dropped e'" "de_original_statement e = de_original_statement e'"
  using arg_cong [OF assms, of de_dropped] arg_cong [OF assms, of de_original_statement] by simp_all

lemma lookup_undated_eq:
  assumes "undated_catalog cat = undated_catalog cat'"
  obtains "map_of cat k = None" "map_of cat' k = None"
  | e e' where "map_of cat k = Some e" "map_of cat' k = Some e'" "undated e = undated e'"
  using undated_lookup [of cat k] undated_lookup [of cat' k] assms
  by (cases "map_of cat k"; cases "map_of cat' k") auto

lemma record_create_undated:
  assumes "undated_catalog cat = undated_catalog cat'"
  shows "undated_catalog (snd (record_create kind db schema name stmt now r cat)) =
    undated_catalog (snd (record_create kind db schema name stmt now' r cat'))"
  using assms
proof (cases rule: lookup_undated_eq [of cat cat' "qualified_key db schema name"])
  case (2 e e')
  then show ?thesis
    using assms undated_eq_fields(1) [OF 2(3)]
    by (simp add: record_create_def Let_def undated_update) (simp add: undated_def)
qed (use assms in \<open>simp_all add: record_create_def Let_def undated_update undated_def\<close>)

lemma record_drop_undated:
  assumes "undated_catalog cat = undated_catalog cat'"
  shows "undated_catalog (snd (record_drop db schema name cat)) = undated_catalog (snd (record_drop db schema name cat'))"
  using assms
proof (cases rule: lookup_undated_eq [of cat cat' "qualified_key db schema name"])
  case (2 e e')
  have "undated (e\<lparr>de_dropped := True\<rparr>) = undated (e'\<lparr>de_dropped := True\<rparr>)"
    using 2(3) by (cases e; cases e') (simp add: undated_def)
  with 2 show ?thesis
    using assms undated_eq_fields(1) [OF 2(3)] by (simp add: record_drop_def Let_def undated_update)
qed (use assms in \<open>simp_all add: record_drop_def\<close>)

lemma record_alter_undated:
  assumes "undated_catalog cat = undated_catalog cat'"
  shows "map_option (\<lambda>p. undated_catalog (snd p)) (record_alter db schema name stmt now cat) =
    map_option (\<lambda>p. undated_catalog (snd p)) (record_alter db schema name stmt now' cat')"
  using assms
proof (cases rule: lookup_undated_eq [of cat cat' "qualified_key db schema name"])
  case (2 e e')
  have "undated (e\<lparr>de_original_statement := st, de_last_altered_at_unix_ms := Some now,
        de_alteration_count := de_alteration_count e + 1\<rparr>) =
      undated (e'\<lparr>de_original_statement := st, de_last_altered_at_unix_ms := Some now',
        de_alteration_count := de_alteration_count e' + 1\<rparr>)" for st
    using 2(3) by (cases e; cases e') (simp add: undated_def)
  with 2 show ?thesis
    using assms undated_eq_fields [OF 2(3)]
    by (simp add: record_alter_def Let_def undated_update option.map_comp comp_def)
qed (use assms in \<open>simp_all add: record_alter_def\<close>)

lemma apply_ddl_undated:
  assumes "undated_catalog cat = undated_catalog cat'" and "apply_ddl_to_catalog now sql cat = Some c"
  shows "\<exists>c'. apply_ddl_to_catalog now' sql cat' = Some c' \<and> undated_catalog c = undated_catalog c'"
proof (cases "parse_ddl_info sql")
  case None
  with assms show ?thesis by (simp add: apply_ddl_to_catalog_def)
next
  case (Some info)
  consider "di_operation info = ''create''" | "di_operation info = ''drop''" | "di_operation info = ''alter''"
    | "di_operation info \<notin> {''create'', ''drop'', ''alter''}" by blast
  then show ?thesis
  proof cases
    case 1
    then show ?thesis
      using Some assms record_create_undated [OF assms(1)] by (auto simp: apply_ddl_to_catalog_def)
  next
    case 2
    then show ?thesis
      using Some assms record_drop_undated [OF assms(1)] by (auto simp: apply_ddl_to_catalog_def)
  next
    case 3
    let ?alter = "\<lambda>now cat. record_alter (di_database_name info) (di_schema_name info) (di_object_name info) sql now cat"
    from 3 Some assms(2) obtain p where p: "?alter now cat = Some p" "c = snd p"
      by (auto simp: apply_ddl_to_catalog_def)
    with record_alter_undated [OF assms(1), of "di_database_name info" "di_schema_name info" "di_object_name info" sql
        now now']
    obtain p' where "?alter now' cat' = Some p'" "undated_catalog (snd p) = undated_catalog (snd p')"
      by (cases "?alter now' cat'") auto
    with 3 Some p(2) show ?thesis by (simp add: apply_ddl_to_catalog_def)
  next
    case 4
    with Some assms show ?thesis by (auto simp: apply_ddl_to_catalog_def)
  qed
qed

text \<open>One turn of the loop leaves catalog and log alone, or logs the statement and does what its replay does.\<close>

lemma live_step_replay:
  assumes "live_ddl now stmt (cat, log, w) = Some (cat', log', w')" and "replayable stmt"
  shows "cat' = cat \<and> log' = log \<or> log' = log @ [stmt] \<and> apply_ddl_to_catalog now stmt cat = Some cat'"
proof (cases "parse_ddl_info stmt")
  case None
  with assms(1) show ?thesis by (simp add: live_ddl_def)
next
  case (Some info)
  note info = Some
  have plain: "\<not> (di_operation info = ''create'' \<and> di_object_kind info = ''index'')"
    "\<not> (di_object_kind info = ''materialized_view'' \<and> contains (to_uppercase stmt) ''WITH INCREMENTAL'')"
    using assms(2) info by (auto simp: replayable_def)
  show ?thesis
  proof (cases "di_operation info = ''create''")
    case True
    obtain r c where rc: "record_create (di_object_kind info) (di_database_name info) (di_schema_name info)
        (di_object_name info) stmt now (di_replace_ok info) cat = (r, c)" by fastforce
    have same: "c = cat" if "r = AlreadyExists"
      using rc that by (auto simp: record_create_def Let_def split: option.splits if_splits)
    from True assms(1) info plain have "live_create now stmt info (cat, log, w) = (cat', log', w')"
      by (simp add: live_ddl_def)
    with rc plain(2) same True info show ?thesis
      by (auto simp: live_create_def apply_ddl_to_catalog_def split: if_splits)
  next
    case False
    with assms(1) info show ?thesis
      by (auto simp: live_ddl_def apply_ddl_to_catalog_def split: if_splits)
  qed
qed


section \<open>Columns of a stored statement\<close>

lemma find_str_paren:
  "CHR ''('' \<notin> set pre \<Longrightarrow> find_str (pre @ CHR ''('' # s) ''('' = Some (length pre)"
  by (induction pre) (auto simp: find_str.simps starts_with_def)

lemma rfind_char_last: "c \<notin> set post \<Longrightarrow> rfind_char c (pre @ c # post) = Some (length pre)"
proof (induction pre)
  case Nil
  moreover have "rposition (\<lambda>x. x = c) post = None" if "c \<notin> set post" for post
    using that by (induction post) auto
  ultimately show ?case by (simp add: rfind_char_def)
qed (simp add: rfind_char_def)

lemma split_comma_Cons:
  "split_str_acc '','' acc (c # s) =
     (if c = CHR '','' then rev acc # split_str_acc '','' [] s else split_str_acc '','' (c # acc) s)"
  by (subst split_str_acc.simps) (simp add: starts_with_def)

lemma split_comma_Nil: "split_str_acc '','' acc [] = [rev acc]"
  by (simp add: split_str_acc.simps)

lemma split_comma_nonempty: "split_str_acc '','' acc s \<noteq> []"
  by (induction s arbitrary: acc) (simp_all add: split_comma_Cons split_comma_Nil)

lemma join_split_comma: "join '','' (split_str_acc '','' acc s) = rev acc @ s"
proof (induction s arbitrary: acc)
  case (Cons c s)
  have "join '','' (x # split_str_acc '','' [] s) = x @ '','' @ join '','' (split_str_acc '','' [] s)" for x
    using split_comma_nonempty [of "[]" s] by (cases "split_str_acc '','' [] s") simp_all
  with Cons.IH show ?case by (simp add: split_comma_Cons)
qed (simp add: split_comma_Nil)

lemma split_comma_plain: "CHR '','' \<notin> set y \<Longrightarrow> split_str_acc '','' acc y = [rev acc @ y]"
  by (induction y arbitrary: acc) (auto simp: split_comma_Cons split_comma_Nil)

lemma split_comma_snoc:
  "CHR '','' \<notin> set y \<Longrightarrow> split_str_acc '','' acc (x @ CHR '','' # y) = split_str_acc '','' acc x @ [y]"
  by (induction x arbitrary: acc) (auto simp: split_comma_Cons split_comma_Nil split_comma_plain)

lemma words_by_plain: "\<forall>c\<in>set w. \<not> ws c \<Longrightarrow> words_by ws acc (w @ s) = words_by ws (rev w @ acc) s"
  by (induction w arbitrary: acc) auto

lemma leading_word_first:
  assumes "w \<noteq> []" and "\<forall>c\<in>set w. \<not> is_whitespace c"
  shows "leading_word (w @ CHR '' '' # s) = w"
  using assms words_by_plain [of w is_whitespace "[]" "CHR '' '' # s"]
  by (simp add: leading_word_def split_whitespace_def is_whitespace_def)

lemma lower_keeps_blank: "is_whitespace (ascii_lower c) \<longleftrightarrow> is_whitespace c"
proof (cases "65 \<le> (of_char c :: nat) \<and> (of_char c :: nat) \<le> 90")
  case True
  then have "of_char (ascii_lower c) = (of_char c :: nat) + 32" by (simp add: ascii_lower_def Let_def of_char_of)
  moreover have "of_char (CHR '' '') = (32 :: nat)" by code_simp
  ultimately have "ascii_lower c \<noteq> CHR '' ''" "c \<noteq> CHR '' ''" using True by auto
  with \<open>of_char (ascii_lower c) = _\<close> True show ?thesis by (simp add: is_whitespace_def)
next
  case False
  then have "ascii_lower c = c" by (auto simp: ascii_lower_def Let_def)
  then show ?thesis by simp
qed

lemma remove_column_shape:
  assumes "CHR ''('' \<notin> set pre" and "CHR '')'' \<notin> set post"
  shows "remove_column_from_ddl (pre @ CHR ''('' # l @ CHR '')'' # post) col =
    Some (pre @ CHR ''('' # join '','' (filter (\<lambda>d. leading_word (to_lowercase (trim d)) \<noteq> to_lowercase col)
      (split_str '','' l)) @ CHR '')'' # post)"
proof -
  have "rfind_char (CHR '')'') (pre @ CHR ''('' # l @ CHR '')'' # post) = Some (length pre + 1 + length l)"
    using rfind_char_last [OF assms(2), of "pre @ CHR ''('' # l"] by simp
  then show ?thesis by (simp add: remove_column_from_ddl_def find_str_paren [OF assms(1)])
qed




section \<open>Names and databases\<close>

text \<open>
  An object created under an unqualified name is found under that name, whatever its case and outer blanks:
  every key of the catalog has a dot.
\<close>

theorem ddl_create_get:
  assumes "\<forall>(k, e)\<in>set cat. CHR ''.'' \<in> set k" and "CHR ''.'' \<notin> set (fold_name name)"
    and "fold_name name' = fold_name name"
    and "record_create kind ''default'' ''public'' name stmt now_ms replace_ok cat = (r, cat')" and "r \<noteq> AlreadyExists"
  shows "map_option (\<lambda>e. (de_object_kind e, de_original_statement e, de_dropped e)) (ddl_get cat' name') =
    Some (kind, stmt, False)"
proof -
  have default: "fold_name ''default'' = ''default''" "fold_name ''public'' = ''public''" by code_simp+
  let ?key = "qualified_key ''default'' ''public'' name"
  have key: "?key = ''default.public.'' @ fold_name name" by (simp add: qualified_key_def default)
  obtain e where e: "cat' = AList.update ?key e cat" "de_object_kind e = kind" "de_original_statement e = stmt"
      "\<not> de_dropped e"
    using assms(4,5) by (auto simp: record_create_def Let_def split: option.splits if_splits)
  have "map_of cat (fold_name name) = None"
    using assms(1,2) by (auto simp: map_of_eq_None_iff)
  moreover have "fold_name name \<noteq> ?key" unfolding key by simp
  ultimately have "map_of cat' (fold_name name) = None" by (simp add: e(1) AList.update_conv')
  moreover have "length (filter (\<lambda>c. c = CHR ''.'') (fold_name name)) = 0"
    using assms(2) by (auto simp: filter_empty_conv)
  moreover have "map_of cat' (''default.public.'' @ fold_name name) = Some e"
    unfolding key [symmetric] by (simp add: e(1) AList.update_conv')
  ultimately show ?thesis
    unfolding ddl_get_def assms(3) Let_def using e(2-4) by simp
qed

lemma fold_delete: "fold AList.delete ks cat = filter (\<lambda>(k, _). k \<notin> set ks) cat"
proof (induction ks arbitrary: cat)
  case (Cons k ks)
  have "fold AList.delete (k # ks) cat = filter (\<lambda>(k, _). k \<notin> set ks) (AList.delete k cat)"
    using Cons.IH [of "AList.delete k cat"] by simp
  also have "\<dots> = filter (\<lambda>(k', _). k' \<notin> set (k # ks)) cat"
    unfolding AList.delete_eq filter_filter by (rule filter_cong) auto
  finally show ?case .
qed simp

text \<open>Dropping a database removes its objects and no others, and reports their number.\<close>

theorem ddl_purge_exact:
  assumes "distinct (map fst cat)"
  shows "purge_database db cat =
    (length (filter (\<lambda>(_, e). to_lowercase (de_database_name e) = fold_name db) cat),
     filter (\<lambda>(_, e). to_lowercase (de_database_name e) \<noteq> fold_name db) cat)"
proof -
  have "k \<in> fst ` set (filter (\<lambda>(_, e). to_lowercase (de_database_name e) = fold_name db) cat) \<longleftrightarrow>
      to_lowercase (de_database_name e) = fold_name db" (is "k \<in> fst ` set ?gone \<longleftrightarrow> _") if "(k, e) \<in> set cat" for k e
  proof
    assume "k \<in> fst ` set ?gone"
    then obtain e' where "(k, e') \<in> set cat" "to_lowercase (de_database_name e') = fold_name db" by auto
    with eq_key_imp_eq_value [OF assms that] show "to_lowercase (de_database_name e) = fold_name db" by blast
  next
    assume "to_lowercase (de_database_name e) = fold_name db"
    with that have "(k, e) \<in> set ?gone" by simp
    then show "k \<in> fst ` set ?gone" by (rule image_eqI [rotated]) simp
  qed
  then have "filter (\<lambda>(k, _). k \<notin> fst ` set (filter (\<lambda>(_, e). to_lowercase (de_database_name e) = fold_name db) cat)) cat =
      filter (\<lambda>(_, e). to_lowercase (de_database_name e) \<noteq> fold_name db) cat"
    by (intro filter_cong) auto
  then show ?thesis by (simp add: purge_database_def Let_def fold_delete)
qed

section \<open>Where the catalog and the statements part\<close>

text \<open>CREATE TABLE IF NOT EXISTS registers an object with the name \<^verbatim>\<open>if\<close>.\<close>

theorem create_if_not_exists_name:
  "map_option di_object_name (parse_ddl_info ''CREATE TABLE IF NOT EXISTS orders (id INT)'') = Some ''if''"
  by code_simp

text \<open>A DROP does not compare kinds: dropping a view of the name drops the table.\<close>

theorem drop_view_drops_table:
  "map_option (\<lambda>(cat, _). map (\<lambda>(k, e). (k, de_object_kind e, de_dropped e)) cat)
     (fold_opt (live_ddl 0) [''CREATE TABLE t (id INT)'', ''DROP VIEW t''] ([], [], None)) =
   Some [(''default.public.t'', ''table'', True)]"
  by code_simp

text \<open>A materialized view cannot be dropped: it is looked for under an empty database and schema.\<close>

theorem drop_materialized_view_misses:
  "map_option (\<lambda>(cat, _). fst (drop_materialized_view ''DROP MATERIALIZED VIEW v'' cat))
     (live_ddl 0 ''CREATE MATERIALIZED VIEW v AS SELECT a FROM t'' ([], [], None)) = Some NotFound"
  by code_simp

text \<open>An incremental materialized view is an ordinary one after a restart.\<close>

theorem incremental_view_forgotten:
  "map_option (\<lambda>(cat, log, _). (map (\<lambda>(k, e). de_object_kind e) cat,
       map_option (map (\<lambda>(k, e). de_object_kind e)) (replay_ddl_into 1 log [])))
     (live_ddl 0 ''CREATE MATERIALIZED VIEW v AS SELECT a FROM t WITH INCREMENTAL'' ([], [], None)) =
   Some ([''incremental_matview''], Some [''materialized_view''])"
  by code_simp

text \<open>
  The definition of an added column is cut from the first place in the statement where the letters of its
  name occur, here the first letter of ALTER.
\<close>

theorem added_column_mangled:
  "altered_statement ''CREATE TABLE t (id INT)'' ''ALTER TABLE t ADD COLUMN a INT'' =
   Some ''CREATE TABLE t (id INT, a LTER TABLE t ADD COLUMN a INT)''"
  by code_simp

text \<open>Dropping a column cuts the list at every comma, also inside the parentheses of a type.\<close>

theorem dropped_column_leaves_rest:
  "altered_statement ''CREATE TABLE t (id INT, p DECIMAL(10,2))'' ''ALTER TABLE t DROP COLUMN p'' =
   Some ''CREATE TABLE t (id INT,2))''"
  by code_simp

end
