(* ===== verification/Triggers.thy ===== *)
theory Triggers
  imports Ddl_Catalog
begin

text \<open>
  Triggers: \<^verbatim>\<open>crates/voltnuerongrid-store/src/triggers.rs\<close> and \<^verbatim>\<open>trigger_emitter.rs\<close>, the statements that feed
  the registry and the firing of triggers in \<^verbatim>\<open>services/voltnuerongridd/src/handlers/sql.rs\<close>, and the replay
  of logged triggers in \<^verbatim>\<open>helpers/boot.rs\<close>.

  The registry keeps its triggers in two vectors, with a map from names to positions beside each; removal
  moves the last element into the gap. The locale \<open>name_registry\<close> is what the callers rely on: a registry
  is a map from names to definitions. The lemmas show that positions stay right, that no removal panics, and
  that replayed statements leave exactly the triggers that their order prescribes. A panic is \<open>None\<close>; texts
  are ASCII, and the columns of a row are given in the iteration order of their hash map.
\<close>

section \<open>Definitions\<close>

datatype trigger_event =
    BeforeInsert | AfterInsert | BeforeUpdate | AfterUpdate | BeforeDelete | AfterDelete | TruncateTable
  | CreateTable | DropTable | CreateView | DropView

definition is_dml_event :: "trigger_event \<Rightarrow> bool" where
  "is_dml_event e \<longleftrightarrow>
     e \<in> {BeforeInsert, AfterInsert, BeforeUpdate, AfterUpdate, BeforeDelete, AfterDelete, TruncateTable}"

definition is_ddl_event :: "trigger_event \<Rightarrow> bool" where
  "is_ddl_event e \<longleftrightarrow> e \<in> {CreateTable, DropTable, CreateView, DropView}"

fun event_str :: "trigger_event \<Rightarrow> string" where
  "event_str BeforeInsert = ''BEFORE INSERT''"
| "event_str AfterInsert = ''AFTER INSERT''"
| "event_str BeforeUpdate = ''BEFORE UPDATE''"
| "event_str AfterUpdate = ''AFTER UPDATE''"
| "event_str BeforeDelete = ''BEFORE DELETE''"
| "event_str AfterDelete = ''AFTER DELETE''"
| "event_str TruncateTable = ''TRUNCATE''"
| "event_str CreateTable = ''CREATE TABLE''"
| "event_str DropTable = ''DROP TABLE''"
| "event_str CreateView = ''CREATE VIEW''"
| "event_str DropView = ''DROP VIEW''"

datatype trigger_granularity = RowTrigger | StatementTrigger

record trigger_definition =
  td_name :: string
  td_table :: string
  td_schema :: string
  td_event :: trigger_event
  td_granularity :: trigger_granularity
  td_body :: string
  td_enabled :: bool

definition trigger_definition_new ::
  "string \<Rightarrow> string \<Rightarrow> string \<Rightarrow> trigger_event \<Rightarrow> trigger_granularity \<Rightarrow> string \<Rightarrow> trigger_definition" where
  "trigger_definition_new name table schema event granularity body =
     \<lparr>td_name = name, td_table = table, td_schema = schema, td_event = event, td_granularity = granularity,
      td_body = body, td_enabled = True\<rparr>"

record ddl_trigger_definition =
  dt_name :: string
  dt_event :: trigger_event
  dt_schema_filter :: "string option"
  dt_body :: string
  dt_enabled :: bool

text \<open>\<open>None\<close> is the failed assertion on an event that is not a DDL event.\<close>

definition ddl_trigger_definition_new :: "string \<Rightarrow> trigger_event \<Rightarrow> string \<Rightarrow> ddl_trigger_definition option" where
  "ddl_trigger_definition_new name event body =
     (if is_ddl_event event
      then Some \<lparr>dt_name = name, dt_event = event, dt_schema_filter = None, dt_body = body, dt_enabled = True\<rparr>
      else None)"

section \<open>Registry\<close>

record trigger_registry =
  tr_dml :: "trigger_definition list"
  tr_ddl :: "ddl_trigger_definition list"
  tr_dml_index :: "string \<rightharpoonup> nat"
  tr_ddl_index :: "string \<rightharpoonup> nat"

definition trigger_registry_new :: trigger_registry where
  "trigger_registry_new = \<lparr>tr_dml = [], tr_ddl = [], tr_dml_index = Map.empty, tr_ddl_index = Map.empty\<rparr>"

definition taken_name :: "string \<Rightarrow> string" where
  "taken_name name = ''trigger '' @ [CHR 0x27] @ name @ [CHR 0x27] @ '' already exists''"

definition register_trigger :: "trigger_definition \<Rightarrow> trigger_registry \<Rightarrow> (unit, string) result \<times> trigger_registry" where
  "register_trigger t reg =
     (if tr_dml_index reg (td_name t) \<noteq> None \<or> tr_ddl_index reg (td_name t) \<noteq> None
      then (Err (taken_name (td_name t)), reg)
      else (Ok (), reg\<lparr>tr_dml_index := (tr_dml_index reg)(td_name t \<mapsto> length (tr_dml reg)),
                       tr_dml := tr_dml reg @ [t]\<rparr>))"

definition register_ddl ::
  "ddl_trigger_definition \<Rightarrow> trigger_registry \<Rightarrow> (unit, string) result \<times> trigger_registry" where
  "register_ddl t reg =
     (if tr_ddl_index reg (dt_name t) \<noteq> None \<or> tr_dml_index reg (dt_name t) \<noteq> None
      then (Err (taken_name (dt_name t)), reg)
      else (Ok (), reg\<lparr>tr_ddl_index := (tr_ddl_index reg)(dt_name t \<mapsto> length (tr_ddl reg)),
                       tr_ddl := tr_ddl reg @ [t]\<rparr>))"

definition find_triggers :: "trigger_registry \<Rightarrow> string \<Rightarrow> string \<Rightarrow> trigger_event \<Rightarrow> trigger_definition list" where
  "find_triggers reg table schema event =
     filter (\<lambda>t. td_enabled t \<and> td_table t = table \<and> td_schema t = schema \<and> td_event t = event) (tr_dml reg)"

definition find_ddl_triggers ::
  "trigger_registry \<Rightarrow> trigger_event \<Rightarrow> string option \<Rightarrow> ddl_trigger_definition list" where
  "find_ddl_triggers reg event schema =
     filter (\<lambda>t. dt_enabled t \<and> dt_event t = event \<and>
       (case dt_schema_filter t of Some f \<Rightarrow> schema = Some f | None \<Rightarrow> True)) (tr_ddl reg)"

text \<open>\<^verbatim>\<open>Vec::swap_remove\<close>, and what both branches of \<^verbatim>\<open>remove_trigger\<close> do to a vector and its map.\<close>

definition swap_remove :: "nat \<Rightarrow> 'a list \<Rightarrow> 'a list option" where
  "swap_remove i xs = (if i < length xs then Some (butlast (xs[i := last xs])) else None)"

definition remove_named ::
  "('a \<Rightarrow> string) \<Rightarrow> string \<Rightarrow> nat \<Rightarrow> 'a list \<Rightarrow> (string \<rightharpoonup> nat) \<Rightarrow> ('a list \<times> (string \<rightharpoonup> nat)) option" where
  "remove_named nm name i xs index =
     (let last_name = (if xs = [] then None else Some (nm (last xs)))
      in case swap_remove i xs of
           None \<Rightarrow> None
         | Some xs' \<Rightarrow>
             (let index' = index(name := None)
              in Some (xs', case last_name of
                   Some l \<Rightarrow> if l \<noteq> name then index'(l \<mapsto> i) else index'
                 | None \<Rightarrow> index')))"

definition remove_trigger :: "string \<Rightarrow> trigger_registry \<Rightarrow> (bool \<times> trigger_registry) option" where
  "remove_trigger name reg =
     (case tr_dml_index reg name of
        Some i \<Rightarrow>
          map_option (\<lambda>(xs, index). (True, reg\<lparr>tr_dml := xs, tr_dml_index := index\<rparr>))
            (remove_named td_name name i (tr_dml reg) (tr_dml_index reg))
      | None \<Rightarrow>
          (case tr_ddl_index reg name of
             Some i \<Rightarrow>
               map_option (\<lambda>(xs, index). (True, reg\<lparr>tr_ddl := xs, tr_ddl_index := index\<rparr>))
                 (remove_named dt_name name i (tr_ddl reg) (tr_ddl_index reg))
           | None \<Rightarrow> Some (False, reg)))"

definition registry_len :: "trigger_registry \<Rightarrow> nat" where
  "registry_len reg = length (tr_dml reg) + length (tr_ddl reg)"

section \<open>Statements\<close>

definition trim_semicolon :: "string \<Rightarrow> string" where
  "trim_semicolon sql = trim (trim_end_by (\<lambda>c. c = CHR '';'') (trim sql))"

definition trigger_event_of :: "string \<Rightarrow> string \<Rightarrow> trigger_event option" where
  "trigger_event_of timing event_word =
     map_of [((''before'', ''insert''), BeforeInsert), ((''after'', ''insert''), AfterInsert),
             ((''before'', ''update''), BeforeUpdate), ((''after'', ''update''), AfterUpdate),
             ((''before'', ''delete''), BeforeDelete), ((''after'', ''delete''), AfterDelete)] (timing, event_word)"

definition parse_create_trigger :: "string \<Rightarrow> trigger_definition option" where
  "parse_create_trigger sql =
     (let trimmed = trim_semicolon sql;
          lower = to_lowercase trimmed
      in case split_whitespace lower of
           w0 # w1 # name # timing # event_word # w5 # w6 # _ \<Rightarrow>
             if w0 \<noteq> ''create'' \<or> w1 \<noteq> ''trigger'' \<or> name = [] \<or> w5 \<noteq> ''on'' then None
             else
               (case trigger_event_of timing event_word of
                  None \<Rightarrow> None
                | Some event \<Rightarrow>
                    (let raw_table = trim_by (\<lambda>c. c = CHR ''('' \<or> c = CHR '')'' \<or> c = CHR '','') w6;
                         (schema, table) = (case split_once_str ''.'' raw_table of
                            Some (s, t) \<Rightarrow> (s, t) | None \<Rightarrow> (''public'', raw_table));
                         granularity = (if contains lower ''for each statement'' then StatementTrigger else RowTrigger);
                         body = (case find_str lower ''execute '' of
                            Some pos \<Rightarrow> trim (drop pos trimmed) | None \<Rightarrow> trimmed)
                     in if table = [] then None
                        else Some (trigger_definition_new name table schema event granularity body)))
         | _ \<Rightarrow> None)"

definition parse_drop_trigger_name :: "string \<Rightarrow> string option" where
  "parse_drop_trigger_name sql =
     (let tokens = split_whitespace (to_lowercase (trim_semicolon sql))
      in case tokens of
           w0 # w1 # w2 # _ \<Rightarrow>
             if w0 \<noteq> ''drop'' \<or> w1 \<noteq> ''trigger'' then None
             else
               (let name = (case tokens of
                      _ # _ # a # b # c # _ \<Rightarrow> if a = ''if'' \<and> b = ''exists'' then c else w2
                    | _ \<Rightarrow> w2)
                in if name = [] then None else Some name)
         | _ \<Rightarrow> None)"

text \<open>
  What the statement loop and the replay do with a statement: a CREATE TRIGGER replaces the trigger of its
  name.
\<close>

definition apply_trigger_ddl :: "string \<Rightarrow> trigger_registry \<Rightarrow> trigger_registry option" where
  "apply_trigger_ddl sql reg =
     (let lower = to_lowercase (trim sql)
      in if starts_with lower ''create trigger ''
         then (case parse_create_trigger sql of
                 Some d \<Rightarrow> map_option (\<lambda>(_, reg'). snd (register_trigger d reg')) (remove_trigger (td_name d) reg)
               | None \<Rightarrow> Some reg)
         else if starts_with lower ''drop trigger ''
         then (case parse_drop_trigger_name sql of
                 Some name \<Rightarrow> map_option snd (remove_trigger name reg)
               | None \<Rightarrow> Some reg)
         else Some reg)"

definition replay_triggers_into :: "string list \<Rightarrow> trigger_registry \<Rightarrow> trigger_registry option" where
  "replay_triggers_into stmts reg = fold_opt apply_trigger_ddl stmts reg"

section \<open>Firing\<close>

definition json_quoted :: "string \<Rightarrow> string" where
  "json_quoted s = [CHR 0x22] @ s @ [CHR 0x22]"

definition json_row :: "(string \<times> string) list option \<Rightarrow> string" where
  "json_row row =
     (case row of
        Some r \<Rightarrow> ''{'' @ join '','' (map (\<lambda>(k, v).
          json_quoted k @ '':'' @ json_quoted (replace_char (CHR 0x22) [CHR 0x5C, CHR 0x22] v)) r) @ ''}''
      | None \<Rightarrow> ''null'')"

definition trigger_payload ::
  "string \<Rightarrow> string \<Rightarrow> trigger_event \<Rightarrow> (string \<times> string) list option \<Rightarrow> (string \<times> string) list option \<Rightarrow> string" where
  "trigger_payload table schema event old_row new_row =
     ''{'' @ json_quoted ''event'' @ '':'' @ json_quoted (event_str event) @ '','' @
       json_quoted ''table'' @ '':'' @ json_quoted table @ '','' @
       json_quoted ''schema'' @ '':'' @ json_quoted schema @ '','' @
       json_quoted ''old_row'' @ '':'' @ json_row old_row @ '','' @
       json_quoted ''new_row'' @ '':'' @ json_row new_row @ ''}''"

text \<open>The emitter that records what fires: the counter and the names, in the order of firing.\<close>

record recording_emitter =
  em_fired :: "string list"
  em_count :: nat

definition recording_emit :: "trigger_definition \<Rightarrow> string \<Rightarrow> recording_emitter \<Rightarrow> (unit, string) result \<times> recording_emitter" where
  "recording_emit t payload em = (Ok (), em\<lparr>em_count := em_count em + 1, em_fired := em_fired em @ [td_name t]\<rparr>)"

definition fire_dml_triggers ::
  "(trigger_definition \<Rightarrow> string \<Rightarrow> 'e \<Rightarrow> (unit, string) result \<times> 'e) \<Rightarrow> trigger_registry \<Rightarrow> string \<Rightarrow> string \<Rightarrow>
     trigger_event \<Rightarrow> (string \<times> string) list option \<Rightarrow> (string \<times> string) list option \<Rightarrow> 'e \<Rightarrow> 'e" where
  "fire_dml_triggers emit reg table schema event old_row new_row em =
     (let payload = trigger_payload table schema event old_row new_row
      in fold (\<lambda>t em. snd (emit t payload em)) (find_triggers reg table schema event) em)"

section \<open>Positions\<close>

text \<open>The map gives the position of every name, and only of names in the vector.\<close>

definition positions_ok :: "('a \<Rightarrow> string) \<Rightarrow> 'a list \<Rightarrow> (string \<rightharpoonup> nat) \<Rightarrow> bool" where
  "positions_ok nm xs index \<longleftrightarrow> (\<forall>n i. index n = Some i \<longleftrightarrow> i < length xs \<and> nm (xs ! i) = n)"

definition registry_wf :: "trigger_registry \<Rightarrow> bool" where
  "registry_wf reg \<longleftrightarrow>
     positions_ok td_name (tr_dml reg) (tr_dml_index reg) \<and> positions_ok dt_name (tr_ddl reg) (tr_ddl_index reg) \<and>
     dom (tr_dml_index reg) \<inter> dom (tr_ddl_index reg) = {}"

lemma positions_okD:
  assumes "positions_ok nm xs index"
  shows "index n = Some i \<longleftrightarrow> i < length xs \<and> nm (xs ! i) = n"
  using assms unfolding positions_ok_def by blast

lemma positions_dom:
  assumes "positions_ok nm xs index"
  shows "dom index = nm ` set xs"
  unfolding dom_def by (auto simp: positions_okD [OF assms] set_conv_nth)

lemma positions_distinct:
  assumes "positions_ok nm xs index"
  shows "distinct (map nm xs)"
proof (unfold distinct_conv_nth, intro allI impI notI)
  fix i j assume "i < length (map nm xs)" "j < length (map nm xs)" "i \<noteq> j" "map nm xs ! i = map nm xs ! j"
  then have "index (nm (xs ! i)) = Some i" "index (nm (xs ! i)) = Some j"
    by (simp_all add: positions_okD [OF assms])
  with \<open>i \<noteq> j\<close> show False by simp
qed

lemma positions_append:
  assumes "positions_ok nm xs index" and "index (nm x) = None"
  shows "positions_ok nm (xs @ [x]) (index(nm x \<mapsto> length xs))"
  unfolding positions_ok_def
proof (intro allI)
  fix n i
  have "nm (xs ! i) \<noteq> nm x" if "i < length xs"
    using assms(2) positions_okD [OF assms(1), of "nm x" i] that by auto
  then show "(index(nm x \<mapsto> length xs)) n = Some i \<longleftrightarrow> i < length (xs @ [x]) \<and> nm ((xs @ [x]) ! i) = n"
    using positions_okD [OF assms(1), of n i] assms(2) by (auto simp: nth_append less_Suc_eq)
qed

lemma positions_inj:
  assumes "positions_ok nm xs index" and "a < length xs" and "b < length xs" and "nm (xs ! a) = nm (xs ! b)"
  shows "a = b"
  using positions_okD [OF assms(1), of "nm (xs ! a)" a] positions_okD [OF assms(1), of "nm (xs ! a)" b] assms(2-4)
  by simp

text \<open>The vector after \<^verbatim>\<open>swap_remove\<close>.\<close>

lemma swap_remove_shape:
  assumes "i < length xs"
  obtains xs' where "swap_remove i xs = Some xs'" "length xs' = length xs - 1"
    "\<And>j. j < length xs - 1 \<Longrightarrow> xs' ! j = (if j = i then last xs else xs ! j)"
  using assms by (auto simp: swap_remove_def nth_butlast nth_list_update)

lemma swap_remove_set:
  assumes "distinct (map nm xs)" and "i < length xs" and "swap_remove i xs = Some xs'"
  shows "set xs' = {x \<in> set xs. nm x \<noteq> nm (xs ! i)}"
proof -
  obtain ys z where xs: "xs = ys @ [z]" using assms(2) by (cases xs rule: rev_cases) auto
  show ?thesis
  proof (cases "i = length ys")
    case True
    then have "xs' = ys" using assms(3) xs by (simp add: swap_remove_def)
    then show ?thesis using assms(1) xs True by (auto simp: image_iff)
  next
    case False
    then have i: "i < length ys" using assms(2) xs by simp
    then have xs': "xs' = ys[i := z]" using assms(3) xs by (simp add: swap_remove_def list_update_append)
    define as bs where "as = take i ys" and "bs = drop (Suc i) ys"
    have ys: "ys = as @ ys ! i # bs" using i by (simp add: as_def bs_def id_take_nth_drop)
    have "xs' = as @ z # bs" using i by (simp add: xs' as_def bs_def upd_conv_take_nth_drop)
    moreover have "xs = as @ ys ! i # bs @ [z]" using xs ys by simp
    moreover have "xs ! i = ys ! i" using xs i by (simp add: nth_append)
    ultimately show ?thesis using assms(1) by (auto simp: image_iff)
  qed
qed

lemma positions_remove:
  assumes ok: "positions_ok nm xs index" and idx: "index name = Some i" and xs': "swap_remove i xs = Some xs'"
  shows "positions_ok nm xs' (if nm (last xs) \<noteq> name then (index(name := None))(nm (last xs) \<mapsto> i) else index(name := None))"
    (is "positions_ok nm xs' ?index")
proof -
  have i: "i < length xs" "nm (xs ! i) = name" using positions_okD [OF ok] idx by blast+
  obtain k where k: "length xs = Suc k" using i(1) by (cases "length xs") auto
  define z where "z = last xs"
  have z: "xs ! k = z" using k by (cases xs rule: rev_cases) (auto simp: z_def)
  obtain ys where ys: "swap_remove i xs = Some ys" "length ys = length xs - 1"
    "\<And>j. j < length xs - 1 \<Longrightarrow> ys ! j = (if j = i then last xs else xs ! j)"
    using swap_remove_shape [OF i(1)] by blast
  have "ys = xs'" using ys(1) xs' by simp
  then have len: "length xs' = k" and nth: "\<And>j. j < k \<Longrightarrow> xs' ! j = (if j = i then z else xs ! j)"
    using ys(2,3) k by (simp_all add: z_def)
  have bound: "k < length xs" using k by simp
  have same: "i = k" if "nm z = name"
    by (rule positions_inj [OF ok i(1) bound]) (simp only: i(2) z that)
  have same': "nm z = name" if "i = k"
    using i(2) unfolding that z .
  have "?index n = Some j \<longleftrightarrow> j < k \<and> nm (xs' ! j) = n" for n j
  proof (cases "j < k")
    case True
    then have j: "j < length xs" using bound by (rule less_trans)
    have away: "nm (xs ! j) \<noteq> nm z"
      using positions_inj [OF ok j bound] True unfolding z by blast
    have only: "j = i" if "nm (xs ! j) = name"
      by (rule positions_inj [OF ok j i(1)]) (simp only: i(2) that)
    have old: "index n = Some j \<longleftrightarrow> nm (xs ! j) = n" using positions_okD [OF ok, of n j] j by blast
    have moved: "i < k" if "j = i" using that True by simp
    show ?thesis
    proof (cases "j = i")
      case True
      then have "nm z \<noteq> name" using same moved by blast
      with True \<open>j < k\<close> old i(2) show ?thesis
        unfolding z_def [symmetric] nth [OF \<open>j < k\<close>] by auto
    next
      case False
      with \<open>j < k\<close> old away only show ?thesis
        unfolding z_def [symmetric] nth [OF \<open>j < k\<close>] by auto
    qed
  next
    case False
    have "?index n \<noteq> Some j"
    proof
      assume n: "?index n = Some j"
      have "i < k" if "nm z \<noteq> name" using same' that i(1) k by fastforce
      then have n': "index n = Some j" "nm z \<noteq> name \<Longrightarrow> n \<noteq> nm z" "n \<noteq> name"
        using n False unfolding z_def [symmetric] by (auto split: if_splits)
      from n'(1) have "j < length xs" "nm (xs ! j) = n" using positions_okD [OF ok] by blast+
      with False k have "j = k" by simp
      with \<open>nm (xs ! j) = n\<close> z n'(2,3) show False by blast
    qed
    with False show ?thesis by blast
  qed
  then show ?thesis unfolding positions_ok_def len by blast
qed

lemma remove_named_law:
  assumes ok: "positions_ok nm xs index" and "index name = Some i"
  obtains xs' index' where "remove_named nm name i xs index = Some (xs', index')" "positions_ok nm xs' index'"
    "set xs' = {x \<in> set xs. nm x \<noteq> name}"
proof -
  have i: "i < length xs" "nm (xs ! i) = name" using positions_okD [OF ok] assms(2) by blast+
  then obtain xs' where xs': "swap_remove i xs = Some xs'" by (auto simp: swap_remove_def)
  have "xs \<noteq> []" using i by auto
  with xs' have "remove_named nm name i xs index =
      Some (xs', if nm (last xs) \<noteq> name then (index(name := None))(nm (last xs) \<mapsto> i) else index(name := None))"
    by (simp add: remove_named_def Let_def)
  moreover have "set xs' = {x \<in> set xs. nm x \<noteq> name}"
    using swap_remove_set [OF positions_distinct [OF ok] i(1) xs'] i(2) by simp
  ultimately show ?thesis using positions_remove [OF ok assms(2) xs'] that by blast
qed

section \<open>A registry is a map from names to definitions\<close>

locale name_registry =
  fixes valid :: "'r \<Rightarrow> bool"
    and look :: "'r \<Rightarrow> string \<Rightarrow> 'd option"
    and put :: "'d \<Rightarrow> 'r \<Rightarrow> 'r option"
    and del :: "string \<Rightarrow> 'r \<Rightarrow> 'r option"
    and nm :: "'d \<Rightarrow> string"
  assumes put_law: "valid r \<Longrightarrow> \<exists>r'. put d r = Some r' \<and> valid r' \<and> look r' = (look r)(nm d \<mapsto> d)"
    and del_law: "valid r \<Longrightarrow> \<exists>r'. del n r = Some r' \<and> valid r' \<and> look r' = (look r)(n := None)"
begin

definition step :: "'d + string \<Rightarrow> 'r \<Rightarrow> 'r option" where
  "step op r = (case op of Inl d \<Rightarrow> put d r | Inr n \<Rightarrow> del n r)"

definition effect :: "'d + string \<Rightarrow> (string \<rightharpoonup> 'd) \<Rightarrow> (string \<rightharpoonup> 'd)" where
  "effect op m = (case op of Inl d \<Rightarrow> m(nm d \<mapsto> d) | Inr n \<Rightarrow> m(n := None))"

lemma step_law: "valid r \<Longrightarrow> \<exists>r'. step op r = Some r' \<and> valid r' \<and> look r' = effect op (look r)"
  unfolding step_def effect_def by (cases op) (simp_all add: put_law del_law)

lemma run_law: "valid r \<Longrightarrow> \<exists>r'. fold_opt step ops r = Some r' \<and> valid r' \<and> look r' = fold effect ops (look r)"
proof (induction ops arbitrary: r)
  case (Cons op ops)
  obtain t where t: "step op r = Some t" "valid t" "look t = effect op (look r)"
    using step_law [OF Cons.prems] by blast
  with Cons.IH [OF t(2)] show ?case by simp
qed simp

end

definition trigger_lookup :: "trigger_registry \<Rightarrow> string \<Rightarrow> trigger_definition option" where
  "trigger_lookup reg n = map_option (\<lambda>i. tr_dml reg ! i) (tr_dml_index reg n)"

definition replace_trigger :: "trigger_definition \<Rightarrow> trigger_registry \<Rightarrow> trigger_registry option" where
  "replace_trigger d reg = map_option (\<lambda>(_, reg'). snd (register_trigger d reg')) (remove_trigger (td_name d) reg)"

definition forget_trigger :: "string \<Rightarrow> trigger_registry \<Rightarrow> trigger_registry option" where
  "forget_trigger n reg = map_option snd (remove_trigger n reg)"

lemma trigger_lookup_fun: "trigger_lookup reg = (\<lambda>n. map_option ((!) (tr_dml reg)) (tr_dml_index reg n))"
  by (rule ext) (simp add: trigger_lookup_def)

lemma lookup_positions:
  assumes "positions_ok nm xs index"
  shows "map_option ((!) xs) (index n) = Some d \<longleftrightarrow> d \<in> set xs \<and> nm d = n"
  by (auto simp: positions_okD [OF assms] set_conv_nth)

lemma lookup_from_set:
  assumes "positions_ok nm xs index" and "positions_ok nm xs' index'"
    and "\<And>d. d \<in> set xs' \<and> nm d = m \<longleftrightarrow> v = Some d"
    and "\<And>d n. n \<noteq> m \<Longrightarrow> d \<in> set xs' \<and> nm d = n \<longleftrightarrow> d \<in> set xs \<and> nm d = n"
  shows "(\<lambda>n. map_option ((!) xs') (index' n)) = (\<lambda>n. map_option ((!) xs) (index n))(m := v)"
proof
  fix n
  have "map_option ((!) xs') (index' n) = Some d \<longleftrightarrow> ((\<lambda>n. map_option ((!) xs) (index n))(m := v)) n = Some d" for d
    using lookup_positions [OF assms(1), of n d] lookup_positions [OF assms(2), of n d] assms(3) [of d] assms(4) [of n d]
    by (cases "n = m") simp_all
  then show "map_option ((!) xs') (index' n) = ((\<lambda>n. map_option ((!) xs) (index n))(m := v)) n"
    by (metis option.exhaust)
qed

lemma forget_law:
  assumes "registry_wf reg"
  shows "\<exists>b reg'. remove_trigger n reg = Some (b, reg') \<and> registry_wf reg' \<and>
    trigger_lookup reg' = (trigger_lookup reg)(n := None) \<and> tr_dml_index reg' n = None \<and> tr_ddl_index reg' n = None"
proof -
  have wf: "positions_ok td_name (tr_dml reg) (tr_dml_index reg)" "positions_ok dt_name (tr_ddl reg) (tr_ddl_index reg)"
    "dom (tr_dml_index reg) \<inter> dom (tr_ddl_index reg) = {}"
    using assms by (simp_all add: registry_wf_def)
  show ?thesis
  proof (cases "tr_dml_index reg n")
    case (Some i)
    from remove_named_law [OF wf(1) Some] obtain xs index
      where r: "remove_named td_name n i (tr_dml reg) (tr_dml_index reg) = Some (xs, index)"
        "positions_ok td_name xs index" "set xs = {x \<in> set (tr_dml reg). td_name x \<noteq> n}" .
    have dom: "dom index = dom (tr_dml_index reg) - {n}"
      using positions_dom [OF wf(1)] positions_dom [OF r(2)] r(3) by auto
    have "(\<lambda>m. map_option ((!) xs) (index m)) = (\<lambda>m. map_option ((!) (tr_dml reg)) (tr_dml_index reg m))(n := None)"
      by (rule lookup_from_set [OF wf(1) r(2)]) (use r(3) in auto)
    moreover have "tr_ddl_index reg n = None" "index n = None" using wf(3) Some dom by auto
    moreover have "dom index \<inter> dom (tr_ddl_index reg) = {}" using dom wf(3) by blast
    ultimately show ?thesis
      using Some r(1,2) wf(2) by (auto simp: remove_trigger_def registry_wf_def trigger_lookup_fun)
  next
    case None
    then have same: "(trigger_lookup reg)(n := None) = trigger_lookup reg" by (auto simp: trigger_lookup_def)
    show ?thesis
    proof (cases "tr_ddl_index reg n")
      case (Some i)
      from remove_named_law [OF wf(2) Some] obtain xs index
        where r: "remove_named dt_name n i (tr_ddl reg) (tr_ddl_index reg) = Some (xs, index)"
          "positions_ok dt_name xs index" "set xs = {x \<in> set (tr_ddl reg). dt_name x \<noteq> n}" .
      have dom: "dom index = dom (tr_ddl_index reg) - {n}"
        using positions_dom [OF wf(2)] positions_dom [OF r(2)] r(3) by auto
      then have "index n = None" "dom (tr_dml_index reg) \<inter> dom index = {}" using wf(3) by auto
      then show ?thesis
        using None Some r(1,2) wf(1) same by (auto simp: remove_trigger_def registry_wf_def trigger_lookup_fun)
    next
      case None': None
      then show ?thesis using None assms same by (auto simp: remove_trigger_def)
    qed
  qed
qed

lemma register_law:
  assumes "registry_wf reg" and "tr_dml_index reg (td_name d) = None" and "tr_ddl_index reg (td_name d) = None"
  shows "registry_wf (snd (register_trigger d reg)) \<and>
    trigger_lookup (snd (register_trigger d reg)) = (trigger_lookup reg)(td_name d \<mapsto> d)"
proof -
  have wf: "positions_ok td_name (tr_dml reg) (tr_dml_index reg)" using assms(1) by (simp add: registry_wf_def)
  note new = positions_append [where nm = td_name, OF wf assms(2)]
  have fresh: "x \<in> set (tr_dml reg) \<Longrightarrow> td_name x \<noteq> td_name d" for x
    using positions_dom [OF wf] assms(2) by force
  have "(\<lambda>m. map_option ((!) (tr_dml reg @ [d])) (((tr_dml_index reg)(td_name d \<mapsto> length (tr_dml reg))) m)) =
      (\<lambda>m. map_option ((!) (tr_dml reg)) (tr_dml_index reg m))(td_name d := Some d)"
    by (rule lookup_from_set [OF wf new]) (use fresh in auto)
  moreover have "registry_wf (snd (register_trigger d reg))"
    using assms new by (auto simp: registry_wf_def register_trigger_def)
  ultimately show ?thesis using assms(2,3) by (simp add: register_trigger_def trigger_lookup_fun)
qed

interpretation triggers: name_registry registry_wf trigger_lookup replace_trigger forget_trigger td_name
proof unfold_locales
  fix r :: trigger_registry and d :: trigger_definition and n assume wf: "registry_wf r"
  from forget_law [OF wf, of n]
  show "\<exists>r'. forget_trigger n r = Some r' \<and> registry_wf r' \<and> trigger_lookup r' = (trigger_lookup r)(n := None)"
    by (auto simp: forget_trigger_def)
  from forget_law [OF wf, of "td_name d"] obtain b t where t: "remove_trigger (td_name d) r = Some (b, t)"
    "registry_wf t" "trigger_lookup t = (trigger_lookup r)(td_name d := None)"
    "tr_dml_index t (td_name d) = None" "tr_ddl_index t (td_name d) = None" by blast
  with register_law [OF t(2,4,5)]
  show "\<exists>r'. replace_trigger d r = Some r' \<and> registry_wf r' \<and> trigger_lookup r' = (trigger_lookup r)(td_name d \<mapsto> d)"
    by (simp add: replace_trigger_def)
qed

section \<open>Replayed statements\<close>

text \<open>The trigger that a statement installs, or the name it frees.\<close>

definition trigger_op :: "string \<Rightarrow> (trigger_definition + string) option" where
  "trigger_op sql =
     (let lower = to_lowercase (trim sql)
      in if starts_with lower ''create trigger '' then map_option Inl (parse_create_trigger sql)
         else if starts_with lower ''drop trigger '' then map_option Inr (parse_drop_trigger_name sql)
         else None)"

definition trigger_effect :: "string \<Rightarrow> (string \<rightharpoonup> trigger_definition) \<Rightarrow> (string \<rightharpoonup> trigger_definition)" where
  "trigger_effect sql m =
     (case trigger_op sql of
        Some (Inl d) \<Rightarrow> m(td_name d \<mapsto> d)
      | Some (Inr n) \<Rightarrow> m(n := None)
      | None \<Rightarrow> m)"

lemma apply_trigger_op:
  "apply_trigger_ddl sql reg = (case trigger_op sql of Some op \<Rightarrow> triggers.step op reg | None \<Rightarrow> Some reg)"
  by (simp add: apply_trigger_ddl_def trigger_op_def triggers.step_def replace_trigger_def forget_trigger_def Let_def
      split: option.split)

lemma replay_ops:
  "replay_triggers_into log reg = fold_opt triggers.step (List.map_filter trigger_op log) reg"
  unfolding replay_triggers_into_def
  by (induction log arbitrary: reg) (auto simp: apply_trigger_op map_filter_simps split: option.split)

lemma effect_ops: "fold triggers.effect (List.map_filter trigger_op log) m = fold trigger_effect log m"
  by (induction log arbitrary: m)
    (auto simp: map_filter_simps trigger_effect_def triggers.effect_def split: option.split sum.split)


text \<open>
  The server fires triggers for the schema \<^verbatim>\<open>public\<close> only: one on a table of another schema is registered
  and never fires.
\<close>

theorem schema_trigger_never_fires:
  "map_option (\<lambda>reg. (length (tr_dml reg), find_triggers reg ''orders'' ''public'' AfterInsert))
     (replay_triggers_into [''CREATE TRIGGER a AFTER INSERT ON sales.orders EXECUTE FUNCTION f()''] trigger_registry_new) =
   Some (1, [])"
  by code_simp

text \<open>
  A trigger that is created again is replaced in the running server, but the catalog refuses the second
  statement and it is not logged: after a restart the first one is back.
\<close>

theorem recreated_trigger_lost:
  "map_option (\<lambda>(_, log, _). map_option (\<lambda>reg. map td_event (tr_dml reg)) (replay_triggers_into log trigger_registry_new))
     (fold_opt (live_ddl 0) [''CREATE TRIGGER a AFTER INSERT ON t'', ''CREATE TRIGGER a AFTER DELETE ON t''] ([], [], None)) =
     Some (Some [AfterInsert]) \<and>
   map_option (\<lambda>reg. map td_event (tr_dml reg))
     (fold_opt apply_trigger_ddl [''CREATE TRIGGER a AFTER INSERT ON t'', ''CREATE TRIGGER a AFTER DELETE ON t'']
        trigger_registry_new) = Some [AfterDelete]"
  by code_simp

end
