(* ===== verification/Spec2Isabelle.thy ===== *)
theory Spec2Isabelle
  imports Durability Base_Store Htap_Maintenance Raft_Cluster Locks Sql_Ast Transactions Constraints Audit_Chain
    Database_Catalog Cache Access_Control Pg_Wire Htap_Sync Partitioning Placement Row_Statements Row_Index Triggers
begin

text \<open>
  VoltNueronGrid DB is a SQL database service with an MVCC row store, a write-ahead log, Raft
  replication, serializable transactions, a hybrid row and column store, partitions and shards, a cache, an audit log, role
  based access control and a PostgreSQL front end. This development models these parts as executable
  HOL functions and proves what each of them promises. Paths below are relative to \<^verbatim>\<open>src/\<close>; \<^verbatim>\<open>store\<close>,
  \<^verbatim>\<open>sql\<close>, \<^verbatim>\<open>audit\<close>, \<^verbatim>\<open>meta\<close>, \<^verbatim>\<open>opt\<close> and \<^verbatim>\<open>auth\<close> stand for \<^verbatim>\<open>crates/voltnuerongrid-store/src\<close> and so on,
  \<^verbatim>\<open>daemon\<close> for \<^verbatim>\<open>services/voltnuerongridd/src\<close>.

  \<^bold>\<open>How the parts interact.\<close> A statement arrives at the front end (\<open>Pg_Wire\<close>), is tokenized, classified
  and parsed (\<open>Tokenizer\<close>, \<open>Sql_Analyzer\<close>, \<open>Sql_Ast\<close>), checked against the privileges (\<open>Access_Control\<close>)
  and runs in a transaction (\<open>Transactions\<close>, \<open>Locks\<close>, \<open>Constraints\<close>) on the row store (\<open>Mvcc\<close>). Writes go
  to the log (\<open>Durability\<close>) and are replicated (\<open>Raft\<close>, \<open>Raft_Loop\<close>, \<open>Raft_Cluster\<close>). Analytical reads
  merge the frozen base with the version tail (\<open>Tail_Store\<close>, \<open>Hybrid_Scan\<close>, \<open>Base_Store\<close>), which
  background jobs consolidate and clean up (\<open>Htap_Maintenance\<close>). Statement texts become row keys and
  rows in \<open>Row_Statements\<close>, which the apply loop of \<open>Raft_Loop\<close> takes as an argument; equality queries
  use the indexes (\<open>Row_Index\<close>), definitions are kept in the catalog and replayed from the log
  (\<open>Ddl_Catalog\<close>, \<open>Triggers\<close>). Committed rows are handed to analytical replicas (\<open>Htap_Sync\<close>) and are
  distributed over segments, shards and nodes (\<open>Partitioning\<close>, \<open>Placement\<close>). The databases, the cache
  and the audit log stand beside this path (\<open>Database_Catalog\<close>, \<open>Cache\<close>, \<open>Audit_Chain\<close>).

  \<^bold>\<open>Theories.\<close>
  \<^item> \<open>Vng_Prelude\<close>, \<open>Vng_Text\<close>: results, panics, loops, association lists, reachability with the locale
    \<open>invariant_system\<close>; Rust's string functions, number printing and parsing, lines.
  \<^item> \<open>Mvcc\<close> (\<^verbatim>\<open>store/mvcc.rs\<close>): pages, version chains, transaction ids, snapshot and committed reads,
    scans, write intents, eviction, snapshot export. The locale \<open>versioned_store\<close> is the contract of a
    multi-version map; the page store is its interpretation. The lemmas show that every run of writes
    refines the history of the abstract map, that later writes change no earlier snapshot, that readers
    see no uncommitted data, and that scans agree with point reads.
  \<^item> \<open>Tail_Store\<close> (\<^verbatim>\<open>store/mvcc.rs\<close>, \<^verbatim>\<open>segment.rs\<close>): the view of the row store by row id.
  \<^item> \<open>Durability\<close> (\<^verbatim>\<open>store/lib.rs\<close>, \<^verbatim>\<open>wal_adapter.rs\<close>): the in-memory engine and the log file. Locales
    \<open>line_codec\<close> and \<open>sql_log\<close>. Recovery from the file gives back the engine exactly.
  \<^item> \<open>Raft\<close> (\<^verbatim>\<open>daemon/raft.rs\<close>), \<open>Raft_Loop\<close> (\<^verbatim>\<open>daemon/helpers/raft_loop.rs\<close>, \<^verbatim>\<open>handlers/raft.rs\<close>),
    \<open>Raft_Cluster\<close> (their asynchronous composition with lost, repeated and late messages, crashes and
    restarts): log matching, replication, application of committed entries, snapshots, and at most one
    leader per term in clusters with an odd number of members.
  \<^item> \<open>Locks\<close> (\<^verbatim>\<open>daemon/helpers/execution.rs\<close>, \<^verbatim>\<open>handlers/sql.rs\<close>): mutual exclusion of unexpired locks,
    exactness of the deadlock scan within its hop budget.
  \<^item> \<open>Transactions\<close> (\<^verbatim>\<open>daemon/main.rs\<close>, \<^verbatim>\<open>handlers/sql.rs\<close>): registry, savepoints, validation at
    COMMIT, undo log.
  \<^item> \<open>Constraints\<close> (\<^verbatim>\<open>store/constraints.rs\<close>): constraint manager and the parsers for its DDL.
  \<^item> \<open>Sql_Analyzer\<close>, \<open>Tokenizer\<close>, \<open>Sql_Ast\<close> (\<^verbatim>\<open>sql/lib.rs\<close>, \<^verbatim>\<open>tokenizer.rs\<close>, \<^verbatim>\<open>ast.rs\<close>): classification,
    tokens and statements; texts of tokens and of INSERT and UPDATE statements are read back exactly.
  \<^item> \<open>Hybrid_Scan\<close>, \<open>Base_Store\<close>, \<open>Htap_Maintenance\<close> (\<^verbatim>\<open>store/hybrid_scan.rs\<close>, \<^verbatim>\<open>base_store.rs\<close>,
    \<^verbatim>\<open>segment.rs\<close>, \<^verbatim>\<open>merge.rs\<close>, \<^verbatim>\<open>snapshot.rs\<close>, \<^verbatim>\<open>tail_gc.rs\<close>): both scan strategies agree and read what the
    tail store reads; installed versions form a line (locale \<open>version_line\<close>); jobs and snapshot handles
    are accounted for; reclaimed versions are invisible to every snapshot from the boundary on.
  \<^item> \<open>Audit_Chain\<close> (\<^verbatim>\<open>audit/lib.rs\<close>): one changed byte in an event is always found.
  \<^item> \<open>Database_Catalog\<close> (\<^verbatim>\<open>meta/lib.rs\<close>): names are canonical, the catalog is a map of them.
  \<^item> \<open>Cache\<close> (\<^verbatim>\<open>opt/lib.rs\<close>): expiry, eviction, capacity, circuit breaker, snapshot and restore.
  \<^item> \<open>Access_Control\<close> (\<^verbatim>\<open>auth/lib.rs\<close>): grants, scope patterns, configuration, key choice.
  \<^item> \<open>Pg_Wire\<close> (\<^verbatim>\<open>daemon/helpers/pg_wire.rs\<close>, \<^verbatim>\<open>pg_listener.rs\<close>): message codec and receive loop.
  \<^item> \<open>Htap_Sync\<close> (\<^verbatim>\<open>store/htap_sync.rs\<close>, \<^verbatim>\<open>daemon/handlers/store.rs\<close>, \<^verbatim>\<open>helpers/dataplane.rs\<close>,
    \<^verbatim>\<open>helpers/cluster.rs\<close>): origin, transport and replicas; force-sync in the critical sections of the code,
    interleaved with writers. A single synchroniser replays the history; the handoff catches a replica up.
  \<^item> \<open>Partitioning\<close> (\<^verbatim>\<open>store/partition.rs\<close>, \<^verbatim>\<open>daemon/helpers/partition.rs\<close>, \<^verbatim>\<open>helpers/dataplane.rs\<close>,
    \<^verbatim>\<open>handlers/dataplane.rs\<close>, \<^verbatim>\<open>crates/voltnuerongrid-core/src/sharding.rs\<close>): locale \<open>pruning_router\<close>; a scan of
    the segments left after pruning finds every matching row.
  \<^item> \<open>Placement\<close> (\<^verbatim>\<open>store/partition_placement.rs\<close>): the registry of nodes and partitions; writes are
    routed to the owner.
  \<^item> \<open>Row_Statements\<close> (\<^verbatim>\<open>daemon/helpers/sql_parse.rs\<close>, \<^verbatim>\<open>helpers/boot.rs\<close>): row keys and rows of INSERT,
    UPDATE and DELETE; an INSERT, UPDATE and DELETE of one key address one row, and a replicated INSERT
    has the effect of its text.
  \<^item> \<open>Row_Index\<close> (\<^verbatim>\<open>store/index.rs\<close>, \<^verbatim>\<open>daemon/handlers/sql.rs\<close>, \<^verbatim>\<open>helpers/execution.rs\<close>): locale
    \<open>value_index\<close>; an index refines a relation of values and keys, and a query answered by a complete index
    agrees with the scan.
  \<^item> \<open>Ddl_Catalog\<close> (\<^verbatim>\<open>store/ddl_catalog.rs\<close>, \<^verbatim>\<open>daemon/handlers/sql.rs\<close>, \<^verbatim>\<open>helpers/boot.rs\<close>), \<open>Triggers\<close>
    (\<^verbatim>\<open>store/triggers.rs\<close>, \<^verbatim>\<open>trigger_emitter.rs\<close>): the statement loop and its replay. Replaying the log
    restores the catalog and the trigger registry (locale \<open>name_registry\<close>).

  \<^bold>\<open>Conventions.\<close> A struct is a record with prefixed fields, an enum a datatype, an operation a function
  from the state to its result and the new state; a panic is \<open>None\<close>, an error \<open>Err\<close>. Counters that only
  grow are natural numbers; hashes, wire integers, reference counts and expiry times keep their width.
  Hash-map iteration orders, clocks, environment values and external code are arguments. Locks and
  atomics are sequential: an operation under a mutex is one step, and interleaving is the order of steps.

  \<^bold>\<open>Bounds and termination.\<close> There is no fuel: loops are structural recursion, folds, or recursive
  functions whose termination is proved by the length of the remaining input. The hop budget of the
  deadlock scan and the caps on pages, cache entries and persisted write sets are those of the code.

  \<^bold>\<open>Not modelled.\<close> HTTP routing, header checks and JSON (the handlers around the modelled operations),
  file and socket errors, mutex poisoning; floating-point statistics, columnar batches, cost models and
  controllers; the query planners and executors and what wraps third-party engines (RocksDB, DataFusion,
  sqlparser, script engines); user accounts and session tokens; network connectors and binary formats of
  the ingestion; the MCP server, autonomous operations, drivers, tools and the desktop shell. Some of the
  code left out is pure and could be modelled in the same way: the projection cache, event buses and text
  formats of the ingestion, admission queues and freshness checks, plugin registries, stored procedures,
  the text index, and the replication of cache commands and events. Texts are ASCII where the code looks
  at characters rather than bytes.
\<close>

end
